(* ===== verification/Prelude.thy ===== *)
theory Prelude
  imports Complex_Main "HOL-Library.AList" "HOL-Library.Char_ord"
    "HOL-Library.List_Lexorder" "HOL-Library.Multiset" "HOL-Library.Product_Lexorder" "HOL-Library.Sublist"
begin

text \<open>
  Shared vocabulary of the development: exceptions as values, Python dictionaries as ordered
  association lists, the list idioms the runtime uses (\<open>next(...)\<close> on a generator, in-place
  update of the first match, slices, stable sorts, batches), clocks and decimal printing.
  Lemmas about dictionaries are collected in \<open>dict_simps\<close>, lemmas about the result type in
  \<open>res_simps\<close>.
\<close>

named_theorems dict_simps
named_theorems res_simps

section \<open>Types\<close>

text \<open>
  A UUID object is represented by its canonical text \<open>str(uuid)\<close>: the source compares UUIDs
  by equality and by \<open>str\<close>, and both agree with equality and order of the canonical text.
  A timezone-aware \<open>datetime\<close> is its distance from the epoch in microseconds, the resolution
  Python keeps.
\<close>

type_synonym uuid = string
type_synonym time = int
type_synonym ('k, 'v) dict = "('k \<times> 'v) list"

text \<open>
  A raised exception: Starlette's \<open>HTTPException\<close> with its status code, or any other Python
  exception, by class name.
\<close>

datatype exc = HTTPException nat | PyError string

type_synonym 'a res = "exc + 'a"

abbreviation type_error :: exc where "type_error \<equiv> PyError ''TypeError''"
abbreviation attribute_error :: exc where "attribute_error \<equiv> PyError ''AttributeError''"
abbreviation value_error :: exc where "value_error \<equiv> PyError ''ValueError''"
abbreviation key_error :: exc where "key_error \<equiv> PyError ''KeyError''"
abbreviation overflow_error :: exc where "overflow_error \<equiv> PyError ''OverflowError''"

lemma ex_bool [simp]: "\<exists>b::bool. b"
  by (rule exI[of _ True]) simp

section \<open>Results\<close>

definition bind_res :: "'a res \<Rightarrow> ('a \<Rightarrow> 'b res) \<Rightarrow> 'b res" where
  "bind_res r f = (case r of Inl e \<Rightarrow> Inl e | Inr x \<Rightarrow> f x)"

lemma bind_res_Inl [simp]: "bind_res (Inl e) f = Inl e"
  by (simp add: bind_res_def)

lemma bind_res_Inr [simp]: "bind_res (Inr x) f = f x"
  by (simp add: bind_res_def)

lemma bind_res_eq_Inr [res_simps]:
  "bind_res r f = Inr y \<longleftrightarrow> (\<exists>x. r = Inr x \<and> f x = Inr y)"
  by (cases r) simp_all

text \<open>A \<open>for\<close> loop whose body may raise.\<close>

primrec iter_res :: "('a \<Rightarrow> unit res) \<Rightarrow> 'a list \<Rightarrow> unit res" where
  "iter_res f [] = Inr ()"
| "iter_res f (x # xs) = bind_res (f x) (\<lambda>_. iter_res f xs)"

text \<open>A loop that stops at the first hit (\<open>break\<close>), and one that stops at the first miss.\<close>

primrec any_res :: "('a \<Rightarrow> bool res) \<Rightarrow> 'a list \<Rightarrow> bool res" where
  "any_res f [] = Inr False"
| "any_res f (x # xs) = bind_res (f x) (\<lambda>b. if b then Inr True else any_res f xs)"

primrec all_res :: "('a \<Rightarrow> bool res) \<Rightarrow> 'a list \<Rightarrow> bool res" where
  "all_res f [] = Inr True"
| "all_res f (x # xs) = bind_res (f x) (\<lambda>b. if b then all_res f xs else Inr False)"

text \<open>A comprehension \<open>[x for x in xs if f(x)]\<close> whose condition may raise.\<close>

primrec filter_res :: "('a \<Rightarrow> bool res) \<Rightarrow> 'a list \<Rightarrow> 'a list res" where
  "filter_res f [] = Inr []"
| "filter_res f (x # xs) =
     bind_res (f x) (\<lambda>b. bind_res (filter_res f xs) (\<lambda>ys. Inr (if b then x # ys else ys)))"

lemma iter_res_ok [res_simps]: "iter_res f xs = Inr u \<longleftrightarrow> (\<forall>x\<in>set xs. f x = Inr ())"
  by (induction xs) (auto simp: res_simps)

lemma any_res_Inr: "any_res f xs = Inr b \<Longrightarrow> b \<longleftrightarrow> (\<exists>x\<in>set xs. f x = Inr True)"
  by (induction xs) (auto simp: res_simps split: if_splits)

lemma all_res_Inr: "all_res f xs = Inr b \<Longrightarrow> b \<longleftrightarrow> (\<forall>x\<in>set xs. f x = Inr True)"
  by (induction xs) (auto simp: res_simps split: if_splits)

lemma any_res_pure: "(\<And>x. x \<in> set xs \<Longrightarrow> f x = Inr (p x)) \<Longrightarrow>
    any_res f xs = Inr (\<exists>x\<in>set xs. p x)"
  by (induction xs) auto

lemma all_res_pure: "(\<And>x. x \<in> set xs \<Longrightarrow> f x = Inr (p x)) \<Longrightarrow>
    all_res f xs = Inr (\<forall>x\<in>set xs. p x)"
  by (induction xs) auto

lemma filter_res_pure: "(\<And>x. x \<in> set xs \<Longrightarrow> f x = Inr (p x)) \<Longrightarrow>
    filter_res f xs = Inr (filter p xs)"
  by (induction xs) auto

lemma filter_res_Inr: "filter_res f xs = Inr ys \<Longrightarrow> ys = filter (\<lambda>x. f x = Inr True) xs"
  by (induction xs arbitrary: ys) (auto simp: res_simps)

section \<open>Dictionaries\<close>

text \<open>
  A dictionary is an association list with distinct keys, in insertion order: \<open>d[k] = v\<close>
  overwrites in place or appends (\<open>AList.update\<close>), \<open>d.pop(k, None)\<close> is \<open>AList.delete\<close>,
  \<open>d.get(k)\<close> is \<open>map_of\<close>.
\<close>

abbreviation dkeys :: "('k, 'v) dict \<Rightarrow> 'k list" where
  "dkeys d \<equiv> map fst d"

definition wf_dict :: "('k, 'v) dict \<Rightarrow> bool" where
  "wf_dict d \<longleftrightarrow> distinct (dkeys d)"

definition dget_default :: "('k, 'v) dict \<Rightarrow> 'k \<Rightarrow> 'v \<Rightarrow> 'v" where
  "dget_default d k v = (case map_of d k of None \<Rightarrow> v | Some w \<Rightarrow> w)"

text \<open>\<open>{**a, **b}\<close>: the entries of \<open>b\<close> are stored over those of \<open>a\<close>, in order.\<close>

definition dict_merge :: "('k, 'v) dict \<Rightarrow> ('k, 'v) dict \<Rightarrow> ('k, 'v) dict" where
  "dict_merge a b = fold (\<lambda>(k, v). AList.update k v) b a"

lemma wf_dict_Nil [simp]: "wf_dict []"
  by (simp add: wf_dict_def)

lemma wf_dict_Cons [simp]: "wf_dict ((k, v) # d) \<longleftrightarrow> k \<notin> fst ` set d \<and> wf_dict d"
  by (simp add: wf_dict_def)

lemma wf_dict_update [simp, intro]: "wf_dict d \<Longrightarrow> wf_dict (AList.update k v d)"
  by (simp add: wf_dict_def distinct_update)

lemma wf_dict_delete [simp, intro]: "wf_dict d \<Longrightarrow> wf_dict (AList.delete k d)"
  by (simp add: wf_dict_def distinct_delete)

lemma wf_dict_filter [simp, intro]: "wf_dict d \<Longrightarrow> wf_dict (filter P d)"
  unfolding wf_dict_def by (metis distinct_map_filter)

lemma map_of_delete [dict_simps]:
  "map_of (AList.delete k d) = (map_of d)(k := None)"
  by (simp add: delete_conv')

lemma map_of_update [dict_simps]:
  "map_of (AList.update k v d) = (map_of d)(k \<mapsto> v)"
  by (simp add: update_conv')

lemma map_of_filter_key [dict_simps]:
  "map_of (filter (\<lambda>(k, v). P k) d) = (\<lambda>k. if P k then map_of d k else None)"
  by (induction d) auto

lemma wf_dict_mem: "wf_dict d \<Longrightarrow> (k, v) \<in> set d \<longleftrightarrow> map_of d k = Some v"
  by (simp add: wf_dict_def)

lemma wf_dict_get: "wf_dict d \<Longrightarrow> (k, v) \<in> set d \<Longrightarrow> map_of d k = Some v"
  by (simp add: wf_dict_mem)

lemma set_update_mem: "(k', w) \<in> set (AList.update k v d) \<Longrightarrow> (k', w) = (k, v) \<or> (k', w) \<in> set d"
  by (induction d) (auto split: if_splits)

lemma set_delete_mem: "x \<in> set (AList.delete k d) \<Longrightarrow> x \<in> set d"
  by (simp add: AList.delete_eq)

lemma update_new: "k \<notin> fst ` set d \<Longrightarrow> AList.update k v d = d @ [(k, v)]"
  by (induction d) auto

lemma update_split:
  assumes "wf_dict d" and "map_of d k = Some w"
  shows "\<exists>a b. d = a @ (k, w) # b \<and> AList.update k v d = a @ (k, v) # b
    \<and> k \<notin> fst ` set a \<and> k \<notin> fst ` set b"
  using assms
proof (induction d)
  case Nil
  then show ?case by simp
next
  case (Cons kv d)
  obtain k' v' where kv: "kv = (k', v')" by (cases kv)
  show ?case
  proof (cases "k' = k")
    case True
    with Cons.prems kv show ?thesis
      by (intro exI[of _ "[]"] exI[of _ d]) auto
  next
    case False
    with Cons.prems kv have "wf_dict d" "map_of d k = Some w" by auto
    then obtain a b where "d = a @ (k, w) # b \<and> AList.update k v d = a @ (k, v) # b
      \<and> k \<notin> fst ` set a \<and> k \<notin> fst ` set b"
      using Cons.IH by blast
    with False kv show ?thesis
      by (intro exI[of _ "kv # a"] exI[of _ b]) auto
  qed
qed

lemma delete_split:
  assumes "wf_dict d" and "map_of d k = Some w"
  shows "\<exists>a b. d = a @ (k, w) # b \<and> AList.delete k d = a @ b"
proof -
  from update_split[OF assms, of w] obtain a b where
    ab: "d = a @ (k, w) # b" "k \<notin> fst ` set a" "k \<notin> fst ` set b" by blast
  have "AList.delete k (a @ (k, w) # b) = AList.delete k a @ AList.delete k b"
    by (simp add: AList.delete_eq)
  also have "\<dots> = a @ b"
    using ab by (simp add: delete_idem)
  finally have "AList.delete k d = a @ b"
    by (simp only: ab(1))
  with ab(1) show ?thesis by blast
qed

text \<open>Sums over the entries of a dictionary, the shape of every size estimate.\<close>

definition dsum :: "('k \<Rightarrow> 'v \<Rightarrow> int) \<Rightarrow> ('k, 'v) dict \<Rightarrow> int" where
  "dsum f d = (\<Sum>(k, v)\<leftarrow>d. f k v)"

lemma dsum_simps [simp]:
  "dsum f [] = 0"
  "dsum f ((k, v) # d) = f k v + dsum f d"
  "dsum f (a @ b) = dsum f a + dsum f b"
  by (simp_all add: dsum_def)

lemma dsum_nonneg: "(\<And>k v. (k, v) \<in> set d \<Longrightarrow> 0 \<le> f k v) \<Longrightarrow> 0 \<le> dsum f d"
  by (induction d) (auto simp: add_nonneg_nonneg)

lemma dsum_cong: "(\<And>k v. (k, v) \<in> set d \<Longrightarrow> f k v = g k v) \<Longrightarrow> dsum f d = dsum g d"
  by (induction d) auto

lemma dsum_update [dict_simps]:
  "wf_dict d \<Longrightarrow>
   dsum f (AList.update k v d) =
     dsum f d + f k v - (case map_of d k of None \<Rightarrow> 0 | Some w \<Rightarrow> f k w)"
proof (cases "map_of d k")
  case None
  then have "k \<notin> fst ` set d" by (simp add: map_of_eq_None_iff)
  with None show ?thesis by (simp add: update_new)
next
  case (Some w)
  assume "wf_dict d"
  with Some update_split[of d k w v] show ?thesis by auto
qed

lemma dsum_delete [dict_simps]:
  "wf_dict d \<Longrightarrow>
   dsum f (AList.delete k d) = dsum f d - (case map_of d k of None \<Rightarrow> 0 | Some w \<Rightarrow> f k w)"
proof (cases "map_of d k")
  case None
  then have "k \<notin> fst ` set d" by (simp add: map_of_eq_None_iff)
  with None show ?thesis by (simp add: delete_idem)
next
  case (Some w)
  assume "wf_dict d"
  with Some delete_split[of d k w] show ?thesis by auto
qed

lemma dsum_one: "dsum (\<lambda>_ _. 1) d = int (length d)"
  by (induction d) auto

lemma length_update:
  "wf_dict d \<Longrightarrow> int (length (AList.update k v d)) = int (length d) + (if map_of d k = None then 1 else 0)"
  using dsum_update[of d "\<lambda>_ _. 1" k v] by (auto simp: dsum_one split: option.splits)

lemma dsum_filter_split: "dsum f d = dsum f (filter P d) + dsum f (filter (\<lambda>x. \<not> P x) d)"
  by (induction d) auto

lemma dsum_filter_if: "dsum f (filter (\<lambda>(k, v). P k v) d) = dsum (\<lambda>k v. if P k v then f k v else 0) d"
  by (induction d) auto

lemma dsum_filter_keep:
  "(\<And>k v. (k, v) \<in> set d \<Longrightarrow> \<not> P (k, v) \<Longrightarrow> f k v = 0) \<Longrightarrow> dsum f (filter P d) = dsum f d"
  by (induction d) auto

lemma dsum_filter_zero:
  "(\<And>k v. (k, v) \<in> set d \<Longrightarrow> P (k, v) \<Longrightarrow> f k v = 0) \<Longrightarrow> dsum f (filter P d) = 0"
  by (induction d) auto

lemma dsum_pick:
  "wf_dict d \<Longrightarrow> dsum (\<lambda>k v. if k = t then f v else 0) d = (case map_of d t of None \<Rightarrow> 0 | Some v \<Rightarrow> f v)"
  by (induction d) (auto simp: map_of_eq_None_iff[THEN iffD2])

lemma dsum_add: "dsum (\<lambda>k v. f k v + g k v) d = dsum f d + dsum g d"
  by (induction d) auto

lemma dsum_zero [simp]: "dsum (\<lambda>k v. 0) d = 0"
  by (induction d) auto

lemma map_of_merge:
  "wf_dict b \<Longrightarrow> map_of (dict_merge a b) = map_of a ++ map_of b"
proof (induction b arbitrary: a)
  case Nil
  then show ?case by (simp add: dict_merge_def)
next
  case (Cons kv b)
  obtain k v where kv: "kv = (k, v)" by (cases kv)
  have "map_of (dict_merge a (kv # b)) = map_of (AList.update k v a) ++ map_of b"
    using Cons kv by (simp add: dict_merge_def)
  also have "\<dots> = map_of a ++ map_of (kv # b)"
    using Cons.prems kv
    by (simp add: dict_simps map_add_upd_left dom_map_of_conv_image_fst)
  finally show ?case .
qed

lemma wf_dict_merge [simp, intro]: "wf_dict a \<Longrightarrow> wf_dict (dict_merge a b)"
  by (induction b arbitrary: a) (auto simp: dict_merge_def split: prod.splits)

section \<open>List idioms\<close>

text \<open>In-place update of the first row that matches, found by \<open>next(...)\<close> and mutated.\<close>

primrec update_first :: "('a \<Rightarrow> bool) \<Rightarrow> ('a \<Rightarrow> 'a) \<Rightarrow> 'a list \<Rightarrow> 'a list" where
  "update_first P f [] = []"
| "update_first P f (x # xs) = (if P x then f x # xs else x # update_first P f xs)"

primrec delete_first :: "('a \<Rightarrow> bool) \<Rightarrow> 'a list \<Rightarrow> 'a list" where
  "delete_first P [] = []"
| "delete_first P (x # xs) = (if P x then xs else x # delete_first P xs)"

definition py_slice :: "nat \<Rightarrow> nat \<Rightarrow> 'a list \<Rightarrow> 'a list" where
  "py_slice offset limit xs = take limit (drop offset xs)"

text \<open>
  \<open>sorted(xs, key=key, reverse=reverse)\<close>: a stable sort; \<open>reverse=True\<close> keeps the relative
  order of equal elements too.
\<close>

definition py_sorted :: "('a \<Rightarrow> 'k::linorder) \<Rightarrow> bool \<Rightarrow> 'a list \<Rightarrow> 'a list" where
  "py_sorted key rv xs = (if rv then rev (sort_key key (rev xs)) else sort_key key xs)"

text \<open>\<open>for offset in range(0, len(xs), n): batch = xs[offset : offset + n]\<close>, for \<open>n \<ge> 1\<close>.\<close>

function chunks :: "nat \<Rightarrow> 'a list \<Rightarrow> 'a list list" where
  "chunks n xs = (if xs = [] then [] else take (max 1 n) xs # chunks n (drop (max 1 n) xs))"
  by pat_completeness auto
termination
  by (relation "measure (\<lambda>(n, xs). length xs)") auto

declare chunks.simps [simp del]

lemma concat_chunks: "concat (chunks n xs) = xs"
proof (induction n xs rule: chunks.induct)
  case (1 n xs)
  then show ?case
    by (cases "xs = []") (simp_all add: chunks.simps[of n xs] chunks.simps[of n "[]"])
qed

lemma set_update_first: "x \<in> set (update_first P f xs) \<Longrightarrow> x \<in> set xs \<or> (\<exists>y\<in>set xs. P y \<and> x = f y)"
  by (induction xs) (auto split: if_splits)

lemma map_update_first: "(\<And>x. P x \<Longrightarrow> g (f x) = g x) \<Longrightarrow> map g (update_first P f xs) = map g xs"
  by (induction xs) auto

lemma length_update_first [simp]: "length (update_first P f xs) = length xs"
  by (induction xs) auto

lemma update_first_none: "(\<And>x. x \<in> set xs \<Longrightarrow> \<not> P x) \<Longrightarrow> update_first P f xs = xs"
  by (induction xs) auto

lemma find_update_first:
  "(\<And>x. P x \<Longrightarrow> P (f x)) \<Longrightarrow> find P (update_first P f xs) = map_option f (find P xs)"
  by (induction xs) auto

lemma find_update_first_other:
  "(\<And>x. P x \<Longrightarrow> \<not> Q x \<and> \<not> Q (f x)) \<Longrightarrow> find Q (update_first P f xs) = find Q xs"
  by (induction xs) auto

lemma find_SomeD: "find P xs = Some x \<Longrightarrow> x \<in> set xs \<and> P x"
  by (induction xs) (auto split: if_splits)

lemma find_append [simp]: "find P (xs @ ys) = (case find P xs of None \<Rightarrow> find P ys | Some x \<Rightarrow> Some x)"
  by (induction xs) auto

lemma find_filter_same: "(\<And>x. Q x \<Longrightarrow> P x) \<Longrightarrow> find Q (filter P xs) = find Q xs"
  by (induction xs) auto

lemma set_delete_first_subset: "set (delete_first P xs) \<subseteq> set xs"
  by (induction xs) auto

lemma set_py_slice: "set (py_slice o1 l xs) \<subseteq> set xs"
  unfolding py_slice_def using set_take_subset set_drop_subset by fast

lemma length_py_slice [simp]: "length (py_slice offset limit xs) = min limit (length xs - offset)"
  by (simp add: py_slice_def min_def)

lemma set_py_sorted [simp]: "set (py_sorted key rv xs) = set xs"
  by (simp add: py_sorted_def)

lemma length_py_sorted [simp]: "length (py_sorted key rv xs) = length xs"
  by (simp add: py_sorted_def)

lemma mset_py_sorted: "mset (py_sorted key rv xs) = mset xs"
  by (simp add: py_sorted_def)

lemma sorted_py_sorted: "\<not> rv \<Longrightarrow> sorted (map key (py_sorted key rv xs))"
  by (simp add: py_sorted_def)

lemma sorted_py_sorted_rev: "rv \<Longrightarrow> sorted (rev (map key (py_sorted key rv xs)))"
  by (simp add: py_sorted_def rev_map)

text \<open>Sorting keeps the relative order of rows with the same key, in both directions.\<close>

lemma py_sorted_stable: "filter (\<lambda>x. key x = k) (py_sorted key rv xs) = filter (\<lambda>x. key x = k) xs"
proof (cases rv)
  case True
  have "filter (\<lambda>x. key x = k) (sort_key key (rev xs)) = filter (\<lambda>x. key x = k) (rev xs)"
    by (induction xs) (simp_all add: sort_key_stable)
  with True show ?thesis
    by (simp add: py_sorted_def rev_filter[symmetric])
next
  case False
  then show ?thesis by (simp add: py_sorted_def sort_key_stable)
qed

section \<open>Clocks and numbers\<close>

text \<open>\<open>datetime.max\<close> and \<open>datetime.min\<close> in UTC: arithmetic outside raises \<open>OverflowError\<close>.\<close>

definition datetime_max :: time where "datetime_max = 253402300799999999"
definition datetime_min :: time where "datetime_min = - 62135596800000000"

text \<open>Round half to even, the rounding of \<open>round\<close> and of the \<open>timedelta\<close> constructor.\<close>

definition round_half_even :: "rat \<Rightarrow> int" where
  "round_half_even x =
     (let f = \<lfloor>x\<rfloor>; r = x - of_int f in
      if r < 1 / 2 then f else if 1 / 2 < r then f + 1 else if even f then f else f + 1)"

definition minutes :: "rat \<Rightarrow> time" where
  "minutes m = round_half_even (m * 60000000)"

definition add_minutes :: "time \<Rightarrow> rat \<Rightarrow> time res" where
  "add_minutes t m =
     (let t' = t + minutes m
      in if t' < datetime_min \<or> datetime_max < t' then Inl overflow_error else Inr t')"

lemma round_half_even_int [simp]: "round_half_even (of_int n) = n"
  by (simp add: round_half_even_def)

lemma round_half_even_nonneg: "0 \<le> x \<Longrightarrow> 0 \<le> round_half_even x"
  by (auto simp: round_half_even_def Let_def)

lemma minutes_nonneg: "0 \<le> m \<Longrightarrow> 0 \<le> minutes m"
  by (simp add: minutes_def round_half_even_nonneg)

lemma minutes_0 [simp]: "minutes 0 = 0"
  by (simp add: minutes_def round_half_even_def)

fun nat_str :: "nat \<Rightarrow> string" where
  "nat_str n = (if n < 10 then [char_of (48 + n)] else nat_str (n div 10) @ [char_of (48 + n mod 10)])"

declare nat_str.simps [simp del]

definition int_str :: "int \<Rightarrow> string" where
  "int_str i = (if i < 0 then CHR ''-'' # nat_str (nat (- i)) else nat_str (nat i))"

text \<open>ASCII lower and upper case of a text.\<close>

definition lower_char :: "char \<Rightarrow> char" where
  "lower_char c = (let n = of_char c :: nat in if 65 \<le> n \<and> n \<le> 90 then char_of (n + 32) else c)"

definition str_lower :: "string \<Rightarrow> string" where
  "str_lower s = map lower_char s"

end
