(* ===== verification/Size_Tracking.thy ===== *)
theory Size_Tracking
  imports Prelude
begin

text \<open>
  \<open>size_tracking.py\<close>: the byte ledger \<open>SizeTracker\<close> and the formatting of sweep log fields.
  The interface the sweepers rely on is the locale \<open>size_ledger\<close>: a total that is the sum of
  the tracked sizes and a removal that takes exactly the removed sizes off it. It is
  interpreted here on \<open>SizeTracker\<close> and in \<open>Checkpoint_Size\<close> on the checkpoint ledger.
  \<open>float\<close> values are rationals: byte counts below \<open>2^53\<close> divide by 1024 exactly.
\<close>

section \<open>The ledger interface\<close>

locale size_ledger =
  fixes total :: "'s \<Rightarrow> int"
    and size_of :: "'s \<Rightarrow> 'k \<Rightarrow> int"
    and tracked :: "'s \<Rightarrow> 'k set"
    and remove :: "'k \<Rightarrow> 's \<Rightarrow> 's"
    and ledger_inv :: "'s \<Rightarrow> bool"
  assumes tracked_finite: "ledger_inv s \<Longrightarrow> finite (tracked s)"
    and untracked_zero: "ledger_inv s \<Longrightarrow> k \<notin> tracked s \<Longrightarrow> size_of s k = 0"
    and size_nonneg: "ledger_inv s \<Longrightarrow> 0 \<le> size_of s k"
    and total_sum: "ledger_inv s \<Longrightarrow> total s = (\<Sum>k\<in>tracked s. size_of s k)"
    and remove_inv: "ledger_inv s \<Longrightarrow> ledger_inv (remove k s)"
    and size_of_remove: "ledger_inv s \<Longrightarrow> size_of (remove k s) = (size_of s)(k := 0)"
begin

lemma total_sum_superset:
  assumes "ledger_inv s" and "tracked s \<subseteq> A" and "finite A"
  shows "total s = (\<Sum>k\<in>A. size_of s k)"
proof -
  have "(\<Sum>k\<in>tracked s. size_of s k) = (\<Sum>k\<in>A. size_of s k)"
    using assms untracked_zero by (intro sum.mono_neutral_left) auto
  then show ?thesis using total_sum assms(1) by simp
qed

lemma total_nonneg: "ledger_inv s \<Longrightarrow> 0 \<le> total s"
  using size_nonneg by (simp add: total_sum sum_nonneg)

lemma total_remove: "ledger_inv s \<Longrightarrow> total (remove k s) = total s - size_of s k"
proof -
  assume inv: "ledger_inv s"
  define A where "A = insert k (tracked s \<union> tracked (remove k s))"
  have fin: "finite A"
    using inv tracked_finite remove_inv by (simp add: A_def)
  have kA: "k \<in> A" by (simp add: A_def)
  have "total (remove k s) = (\<Sum>j\<in>A. ((size_of s)(k := 0)) j)"
    using total_sum_superset[of "remove k s" A] inv fin
    by (auto simp: remove_inv size_of_remove A_def)
  also have "\<dots> = (\<Sum>j\<in>A - {k}. ((size_of s)(k := 0)) j)"
    using sum.remove[OF fin kA, of "(size_of s)(k := 0)"] by simp
  also have "\<dots> = (\<Sum>j\<in>A - {k}. size_of s j)"
    by (rule sum.cong) auto
  also have "\<dots> = (\<Sum>j\<in>A. size_of s j) - size_of s k"
    using sum.remove[OF fin kA, of "size_of s"] by simp
  also have "\<dots> = total s - size_of s k"
    using total_sum_superset[OF inv _ fin] by (simp add: A_def subset_insertI2)
  finally show ?thesis .
qed

lemma fold_remove:
  "ledger_inv s \<Longrightarrow> distinct ks \<Longrightarrow>
   ledger_inv (fold remove ks s) \<and>
   total (fold remove ks s) = total s - (\<Sum>k\<leftarrow>ks. size_of s k) \<and>
   (\<forall>k. k \<notin> set ks \<longrightarrow> size_of (fold remove ks s) k = size_of s k)"
proof (induction ks arbitrary: s)
  case Nil
  then show ?case by simp
next
  case (Cons k ks)
  have "ledger_inv (remove k s)" using Cons.prems by (simp add: remove_inv)
  from Cons.IH[OF this] Cons.prems show ?case
    by (auto simp: total_remove size_of_remove intro!: arg_cong[of _ _ sum_list] map_cong)
qed

text \<open>What a sweep reports as deleted never exceeds what it reports as the total before.\<close>

lemma removed_le_total:
  assumes "ledger_inv s" and "distinct ks"
  shows "(\<Sum>k\<leftarrow>ks. size_of s k) \<le> total s"
  using fold_remove[OF assms] total_nonneg[of "fold remove ks s"] by simp

end

section \<open>SizeTracker\<close>

record 'k tracker =
  tr_entries :: "('k, int) dict"
  tr_total :: int

definition tracker_init :: "'k tracker" where
  "tracker_init = \<lparr>tr_entries = [], tr_total = 0\<rparr>"

definition total_bytes :: "'k tracker \<Rightarrow> int" where
  "total_bytes t = tr_total t"

definition set_size :: "'k \<Rightarrow> int \<Rightarrow> 'k tracker \<Rightarrow> 'k tracker" where
  "set_size entry size_bytes t =
     (let n = max 0 size_bytes;
          old = dget_default (tr_entries t) entry 0
      in t\<lparr>tr_entries := AList.update entry n (tr_entries t), tr_total := tr_total t + (n - old)\<rparr>)"

definition remove_size :: "'k \<Rightarrow> 'k tracker \<Rightarrow> int \<times> 'k tracker" where
  "remove_size entry t =
     (let n = dget_default (tr_entries t) entry 0
      in (n, t\<lparr>tr_entries := AList.delete entry (tr_entries t), tr_total := tr_total t - n\<rparr>))"

definition clear_sizes :: "'k tracker \<Rightarrow> 'k tracker" where
  "clear_sizes t = t\<lparr>tr_entries := [], tr_total := 0\<rparr>"

text \<open>The invariant: distinct entries, none negative, and the total is their sum.\<close>

definition tracker_inv :: "'k tracker \<Rightarrow> bool" where
  "tracker_inv t \<longleftrightarrow> wf_dict (tr_entries t) \<and> (\<forall>(k, n)\<in>set (tr_entries t). 0 \<le> n) \<and>
     tr_total t = dsum (\<lambda>_ n. n) (tr_entries t)"

definition tracked_size :: "'k tracker \<Rightarrow> 'k \<Rightarrow> int" where
  "tracked_size t k = dget_default (tr_entries t) k 0"

lemma tracker_inv_init: "tracker_inv tracker_init"
  by (simp add: tracker_inv_def tracker_init_def)

lemma tracker_inv_set_size: "tracker_inv t \<Longrightarrow> tracker_inv (set_size k n t)"
  by (auto simp: tracker_inv_def set_size_def Let_def dict_simps dget_default_def
      dest!: set_update_mem split: option.splits)

lemma tracker_inv_remove: "tracker_inv t \<Longrightarrow> tracker_inv (snd (remove_size k t))"
  by (auto simp: tracker_inv_def remove_size_def Let_def dict_simps dget_default_def
      dest!: set_delete_mem split: option.splits)

lemma tracker_inv_clear: "tracker_inv (clear_sizes t)"
  by (simp add: tracker_inv_def clear_sizes_def)

lemma tracked_size_set: "tracked_size (set_size k n t) = (tracked_size t)(k := max 0 n)"
  by (auto simp: tracked_size_def set_size_def Let_def dget_default_def dict_simps)

lemma tracked_size_remove: "tracked_size (snd (remove_size k t)) = (tracked_size t)(k := 0)"
  by (auto simp: tracked_size_def remove_size_def Let_def dget_default_def dict_simps)

lemma fst_remove_size: "fst (remove_size k t) = tracked_size t k"
  by (simp add: remove_size_def tracked_size_def Let_def)

lemma dsum_as_sum:
  "wf_dict d \<Longrightarrow> dsum (\<lambda>_ n. n) d = (\<Sum>k\<in>fst ` set d. dget_default d k 0)"
proof (induction d)
  case Nil
  then show ?case by simp
next
  case (Cons kv d)
  obtain k n where kv: "kv = (k, n)" by (cases kv)
  have "(\<Sum>j\<in>fst ` set d. dget_default (kv # d) j 0) = (\<Sum>j\<in>fst ` set d. dget_default d j 0)"
    using Cons.prems kv by (intro sum.cong) (auto simp: dget_default_def)
  then show ?case using Cons kv by (simp add: dget_default_def)
qed

lemma dget_nonneg: "\<forall>(k, n)\<in>set d. 0 \<le> (n::int) \<Longrightarrow> 0 \<le> dget_default d k 0"
  by (force simp: dget_default_def split: option.splits dest: map_of_SomeD)

interpretation tracker: size_ledger total_bytes tracked_size
  "\<lambda>t. fst ` set (tr_entries t)" "\<lambda>k t. snd (remove_size k t)" tracker_inv
proof unfold_locales
  fix s :: "'a tracker" and k
  assume inv: "tracker_inv s"
  show "finite (fst ` set (tr_entries s))" by simp
  show "k \<notin> fst ` set (tr_entries s) \<Longrightarrow> tracked_size s k = 0"
    by (simp add: tracked_size_def dget_default_def map_of_eq_None_iff[THEN iffD2])
  show "0 \<le> tracked_size s k"
    using inv by (simp add: tracker_inv_def tracked_size_def dget_nonneg)
  show "total_bytes s = (\<Sum>k\<in>fst ` set (tr_entries s). tracked_size s k)"
    using inv by (simp add: tracker_inv_def total_bytes_def tracked_size_def dsum_as_sum)
qed (simp_all add: tracker_inv_remove tracked_size_remove)

section \<open>Log fields\<close>

text \<open>Python's \<open>,\<close> grouping of an integer and the \<open>.1f\<close> format of a non-negative number.\<close>

definition digit3 :: "nat \<Rightarrow> string" where
  "digit3 n = (let s = nat_str n in replicate (3 - length s) (CHR ''0'') @ s)"

fun group_thousands :: "nat \<Rightarrow> string" where
  "group_thousands n =
     (if n < 1000 then nat_str n else group_thousands (n div 1000) @ '','' @ digit3 (n mod 1000))"

declare group_thousands.simps [simp del]

definition tenths :: "rat \<Rightarrow> nat" where
  "tenths x = nat (round_half_even (10 * x))"

definition fixed1 :: "(nat \<Rightarrow> string) \<Rightarrow> rat \<Rightarrow> string" where
  "fixed1 show_int x = show_int (tenths x div 10) @ ''.'' @ nat_str (tenths x mod 10)"

definition size_units :: "string list" where
  "size_units = [''B'', ''KB'', ''MB'', ''GB'', ''TB'']"

fun format_in_units :: "rat \<Rightarrow> string list \<Rightarrow> string option" where
  "format_in_units x [] = None"
| "format_in_units x (u # us) =
     (if x < 1024 \<or> u = last size_units
      then Some (if u \<noteq> ''B'' then fixed1 group_thousands x @ '' '' @ u
                 else group_thousands (nat \<lfloor>x\<rfloor>) @ '' B'')
      else format_in_units (x / 1024) us)"

definition format_size :: "int option \<Rightarrow> string" where
  "format_size size_bytes =
     (case size_bytes of
        None \<Rightarrow> ''unknown''
      | Some n \<Rightarrow>
          (case format_in_units (of_int (max 0 n)) size_units of
             Some s \<Rightarrow> s
           | None \<Rightarrow> group_thousands (nat n) @ '' B''))"

record log_fields =
  lf_deleted_size :: string
  lf_deleted_size_bytes :: "int option"
  lf_total_before :: string
  lf_total_before_bytes :: "int option"
  lf_deleted_ratio :: string
  lf_deleted_ratio_percent :: "rat option"

text \<open>\<open>round(100 * deleted / total, 1)\<close>.\<close>

definition percent :: "int \<Rightarrow> int \<Rightarrow> rat" where
  "percent deleted tot = of_int (round_half_even (10 * (100 * of_int deleted / of_int tot))) / 10"

definition deleted_ratio :: "int option \<Rightarrow> int option \<Rightarrow> rat option" where
  "deleted_ratio deleted tot =
     (case (deleted, tot) of
        (Some d, Some t) \<Rightarrow> Some (if t \<le> 0 then 0 else percent d t)
      | _ \<Rightarrow> None)"

definition size_log_fields :: "int option \<Rightarrow> int option \<Rightarrow> log_fields" where
  "size_log_fields deleted tot =
     (let ratio = deleted_ratio deleted tot
      in \<lparr>lf_deleted_size = format_size deleted,
          lf_deleted_size_bytes = deleted,
          lf_total_before = format_size tot,
          lf_total_before_bytes = tot,
          lf_deleted_ratio =
            (case ratio of None \<Rightarrow> ''unknown'' | Some r \<Rightarrow> fixed1 nat_str r @ ''%''),
          lf_deleted_ratio_percent = ratio\<rparr>)"

lemma round_half_even_mono: "x \<le> y \<Longrightarrow> round_half_even x \<le> round_half_even y"
proof -
  assume le: "x \<le> y"
  then have "\<lfloor>x\<rfloor> \<le> \<lfloor>y\<rfloor>" by (rule floor_mono)
  moreover have "\<lfloor>x\<rfloor> = \<lfloor>y\<rfloor> \<Longrightarrow> x - of_int \<lfloor>x\<rfloor> \<le> y - of_int \<lfloor>y\<rfloor>" using le by simp
  ultimately show ?thesis
    by (cases "\<lfloor>x\<rfloor> = \<lfloor>y\<rfloor>") (auto simp: round_half_even_def Let_def)
qed

lemma percent_bounds:
  assumes "0 \<le> d" and "d \<le> t" and "0 < t"
  shows "0 \<le> percent d t" and "percent d t \<le> 100"
proof -
  have "(100::rat) * of_int d / of_int t \<le> 100"
    using assms by (simp add: field_simps)
  then have "round_half_even (10 * (100 * of_int d / of_int t)) \<le> round_half_even (of_int 1000)"
    by (intro round_half_even_mono) simp
  then have "round_half_even (10 * (100 * of_int d / of_int t)) \<le> 1000"
    by (simp only: round_half_even_int)
  then show "percent d t \<le> 100"
    unfolding percent_def by (simp add: field_simps)
  show "0 \<le> percent d t"
    using assms by (simp add: percent_def round_half_even_nonneg)
qed

lemma deleted_ratio_bounds:
  assumes "0 \<le> d" and "d \<le> t" and "deleted_ratio (Some d) (Some t) = Some r"
  shows "0 \<le> r \<and> r \<le> 100"
  using assms percent_bounds[of d t] by (auto simp: deleted_ratio_def split: if_splits)

text \<open>The loop over the units always stops with an answer: the last unit takes everything.\<close>

lemma format_in_units_Some: "\<exists>s. format_in_units x size_units = Some s"
  by (simp add: size_units_def)

section \<open>Sizes of values\<close>

text \<open>
  \<open>estimate_pickle_size\<close>: \<open>dumps\<close> is the length of the pickled value or the exception, \<open>getsizeof\<close> the
  size of the object alone. Measuring never fails.
\<close>

definition estimate_pickle_size :: "('a \<Rightarrow> nat res) \<Rightarrow> ('a \<Rightarrow> nat) \<Rightarrow> 'a \<Rightarrow> int" where
  "estimate_pickle_size dumps getsizeof v = int (case dumps v of Inr n \<Rightarrow> n | Inl e \<Rightarrow> getsizeof v)"

lemma estimate_pickle_size_nonneg: "0 \<le> estimate_pickle_size dumps getsizeof v"
  by (simp add: estimate_pickle_size_def)

end
