(* ===== verification/Checkpoint_Size.thy ===== *)
theory Checkpoint_Size
  imports Size_Tracking
begin

text \<open>
  The size estimates of \<open>checkpoint.py\<close> and \<open>_CheckpointSizeState\<close>, two integers per checkpoint
  thread. The abstract view of the ledger is the pair of functions \<open>thread_bytes\<close> and
  \<open>thread_checkpoints\<close>; every operation is shown to be a pointwise update of that view that
  keeps the two totals equal to the sums.
\<close>

section \<open>Payload sizes\<close>

text \<open>
  A value handed to \<open>_component_size\<close>: nothing, text (as its UTF-8 bytes), a byte buffer, or
  anything else through \<open>str(value)\<close>. Channel versions are such values.
\<close>

datatype component = CNone | CStr string | CBytes string | COther string

type_synonym typed = "string \<times> string"
type_synonym entry = "typed \<times> typed \<times> string option"
type_synonym write_key = "string \<times> int"
type_synonym pending_write = "string \<times> string \<times> typed \<times> string"
type_synonym write_group = "(write_key, pending_write) dict"

fun component_size :: "component \<Rightarrow> int" where
  "component_size CNone = 0"
| "component_size (CStr s) = int (length s)"
| "component_size (CBytes s) = int (length s)"
| "component_size (COther s) = int (length s)"

definition typed_payload_size :: "typed \<Rightarrow> int" where
  "typed_payload_size v = component_size (CStr (fst v)) + component_size (CBytes (snd v))"

definition opt_component :: "string option \<Rightarrow> component" where
  "opt_component p = (case p of None \<Rightarrow> CNone | Some s \<Rightarrow> CStr s)"

definition checkpoint_entry_size :: "string \<Rightarrow> entry \<Rightarrow> int" where
  "checkpoint_entry_size checkpoint_id entry =
     (case entry of (checkpoint, metadata, parent_id) \<Rightarrow>
        component_size (CStr checkpoint_id)
        + typed_payload_size checkpoint
        + typed_payload_size metadata
        + component_size (opt_component parent_id))"

definition write_size :: "write_key \<Rightarrow> pending_write \<Rightarrow> int" where
  "write_size inner_key w =
     (case (inner_key, w) of ((task, idx), (task_id, channel, v, task_path)) \<Rightarrow>
        component_size (CStr task) + component_size (COther (int_str idx))
        + component_size (CStr task_id) + component_size (CStr channel)
        + typed_payload_size v + component_size (CStr task_path))"

definition write_group_size :: "string \<Rightarrow> write_group \<Rightarrow> int" where
  "write_group_size checkpoint_id writes = component_size (CStr checkpoint_id) + dsum write_size writes"

definition blob_entry_size :: "string \<Rightarrow> component \<Rightarrow> typed \<Rightarrow> int" where
  "blob_entry_size channel version v =
     component_size (CStr channel) + component_size version + typed_payload_size v"

lemma component_size_nonneg [simp]: "0 \<le> component_size c"
  by (cases c) simp_all

lemma typed_payload_size_nonneg [simp]: "0 \<le> typed_payload_size v"
  by (simp add: typed_payload_size_def)

lemma checkpoint_entry_size_nonneg [simp]: "0 \<le> checkpoint_entry_size c e"
  by (auto simp: checkpoint_entry_size_def add_nonneg_nonneg split: prod.split)

lemma write_group_size_nonneg [simp]: "0 \<le> write_group_size c ws"
  by (auto simp: write_group_size_def write_size_def
      intro!: add_nonneg_nonneg dsum_nonneg split: prod.split)

lemma blob_entry_size_nonneg [simp]: "0 \<le> blob_entry_size ch ver v"
  by (simp add: blob_entry_size_def)

section \<open>The ledger\<close>

record size_state =
  by_thread :: "(string, int \<times> int) dict"
  ss_total_bytes :: int
  ss_total_checkpoints :: int

definition size_state_init :: size_state where
  "size_state_init = \<lparr>by_thread = [], ss_total_bytes = 0, ss_total_checkpoints = 0\<rparr>"

definition thread_entry :: "size_state \<Rightarrow> string \<Rightarrow> int \<times> int" where
  "thread_entry s tid = dget_default (by_thread s) tid (0, 0)"

definition thread_bytes :: "size_state \<Rightarrow> string \<Rightarrow> int" where
  "thread_bytes s tid = fst (thread_entry s tid)"

definition thread_checkpoints :: "size_state \<Rightarrow> string \<Rightarrow> int" where
  "thread_checkpoints s tid = snd (thread_entry s tid)"

text \<open>Store a thread's pair, or drop it when both numbers are zero.\<close>

definition put_thread_entry :: "string \<Rightarrow> int \<Rightarrow> int \<Rightarrow> size_state \<Rightarrow> size_state" where
  "put_thread_entry tid new_size new_count s =
     s\<lparr>by_thread := (if new_size \<noteq> 0 \<or> new_count \<noteq> 0
                    then AList.update tid (new_size, new_count) (by_thread s)
                    else AList.delete tid (by_thread s))\<rparr>"

definition adjust :: "string \<Rightarrow> int \<Rightarrow> int \<Rightarrow> size_state \<Rightarrow> size_state" where
  "adjust tid size_delta checkpoint_delta s =
     (let old = thread_entry s tid;
          new_size = max 0 (fst old + size_delta);
          new_count = max 0 (snd old + checkpoint_delta)
      in put_thread_entry tid new_size new_count
           (s\<lparr>ss_total_bytes := ss_total_bytes s + (new_size - fst old),
              ss_total_checkpoints := ss_total_checkpoints s + (new_count - snd old)\<rparr>))"

definition remove_thread :: "string \<Rightarrow> size_state \<Rightarrow> int \<times> size_state" where
  "remove_thread tid s =
     (let old = thread_entry s tid
      in (fst old,
          s\<lparr>by_thread := AList.delete tid (by_thread s),
            ss_total_bytes := ss_total_bytes s - fst old,
            ss_total_checkpoints := ss_total_checkpoints s - snd old\<rparr>))"

definition copy_thread :: "string \<Rightarrow> string \<Rightarrow> size_state \<Rightarrow> size_state" where
  "copy_thread source target s =
     (let old = thread_entry s target;
          new = thread_entry s source
      in put_thread_entry target (fst new) (snd new)
           (s\<lparr>ss_total_bytes := ss_total_bytes s + (fst new - fst old),
              ss_total_checkpoints := ss_total_checkpoints s + (snd new - snd old)\<rparr>))"

definition clear_size_state :: "size_state \<Rightarrow> size_state" where
  "clear_size_state s = s\<lparr>by_thread := [], ss_total_bytes := 0, ss_total_checkpoints := 0\<rparr>"

definition size_state_inv :: "size_state \<Rightarrow> bool" where
  "size_state_inv s \<longleftrightarrow>
     wf_dict (by_thread s) \<and>
     (\<forall>(tid, b, c)\<in>set (by_thread s). 0 \<le> b \<and> 0 \<le> c \<and> (b \<noteq> 0 \<or> c \<noteq> 0)) \<and>
     ss_total_bytes s = dsum (\<lambda>_. fst) (by_thread s) \<and>
     ss_total_checkpoints s = dsum (\<lambda>_. snd) (by_thread s)"

lemma size_state_inv_init: "size_state_inv size_state_init"
  by (simp add: size_state_inv_def size_state_init_def)

lemma size_state_inv_clear: "size_state_inv (clear_size_state s)"
  by (simp add: size_state_inv_def clear_size_state_def)

lemma thread_entry_nonneg:
  "size_state_inv s \<Longrightarrow> 0 \<le> thread_bytes s tid \<and> 0 \<le> thread_checkpoints s tid"
  by (force simp: size_state_inv_def thread_bytes_def thread_checkpoints_def thread_entry_def
      dget_default_def split: option.splits dest: map_of_SomeD)

lemma dsum_update_default:
  "wf_dict d \<Longrightarrow> f z = 0 \<Longrightarrow>
   dsum (\<lambda>_. f) (AList.update k v d) = dsum (\<lambda>_. f) d + f v - f (dget_default d k z)"
  by (auto simp: dict_simps dget_default_def split: option.splits)

lemma dsum_delete_default:
  "wf_dict d \<Longrightarrow> f z = 0 \<Longrightarrow>
   dsum (\<lambda>_. f) (AList.delete k d) = dsum (\<lambda>_. f) d - f (dget_default d k z)"
  by (auto simp: dict_simps dget_default_def split: option.splits)

lemma put_thread_entry_inv:
  assumes "size_state_inv s" and "0 \<le> b" and "0 \<le> c"
  shows "size_state_inv (put_thread_entry tid b c
    (s\<lparr>ss_total_bytes := ss_total_bytes s + (b - thread_bytes s tid),
       ss_total_checkpoints := ss_total_checkpoints s + (c - thread_checkpoints s tid)\<rparr>))"
  using assms
  by (auto simp: size_state_inv_def put_thread_entry_def thread_bytes_def thread_checkpoints_def
      thread_entry_def dsum_update_default[where z = "(0, 0)"] dsum_delete_default[where z = "(0, 0)"]
      dest!: set_update_mem set_delete_mem)

lemma adjust_inv: "size_state_inv s \<Longrightarrow> size_state_inv (adjust tid sd cd s)"
  using put_thread_entry_inv[of s "max 0 (thread_bytes s tid + sd)"
      "max 0 (thread_checkpoints s tid + cd)" tid]
  by (simp add: adjust_def Let_def thread_bytes_def thread_checkpoints_def)

lemma copy_thread_inv: "size_state_inv s \<Longrightarrow> size_state_inv (copy_thread src tgt s)"
  using put_thread_entry_inv[of s "thread_bytes s src" "thread_checkpoints s src" tgt]
    thread_entry_nonneg[of s src]
  by (simp add: copy_thread_def Let_def thread_bytes_def thread_checkpoints_def)

lemma remove_thread_inv: "size_state_inv s \<Longrightarrow> size_state_inv (snd (remove_thread tid s))"
  by (auto simp: size_state_inv_def remove_thread_def Let_def thread_entry_def
      dsum_delete_default[where z = "(0, 0)"] dest!: set_delete_mem)

section \<open>The abstract view\<close>

lemma thread_entry_put [simp]:
  "thread_entry (put_thread_entry tid b c s) t = (if t = tid then (b, c) else thread_entry s t)"
  by (auto simp: thread_entry_def put_thread_entry_def dget_default_def dict_simps)

lemma thread_entry_totals [simp]:
  "thread_entry (s\<lparr>ss_total_bytes := x, ss_total_checkpoints := y\<rparr>) t = thread_entry s t"
  by (simp add: thread_entry_def)

lemma thread_entry_adjust:
  "thread_entry (adjust tid sd cd s) t =
     (if t = tid then (max 0 (thread_bytes s tid + sd), max 0 (thread_checkpoints s tid + cd))
      else thread_entry s t)"
  by (simp add: adjust_def Let_def thread_bytes_def thread_checkpoints_def)

lemma thread_entry_copy:
  "thread_entry (copy_thread src tgt s) t = (if t = tgt then thread_entry s src else thread_entry s t)"
  by (simp add: copy_thread_def Let_def)

lemma thread_entry_remove:
  "thread_entry (snd (remove_thread tid s)) t = (if t = tid then (0, 0) else thread_entry s t)"
  by (simp add: remove_thread_def Let_def thread_entry_def dget_default_def dict_simps)

lemma thread_entry_clear [simp]: "thread_entry (clear_size_state s) t = (0, 0)"
  by (simp add: clear_size_state_def thread_entry_def dget_default_def)

lemma fst_remove_thread: "fst (remove_thread tid s) = thread_bytes s tid"
  by (simp add: remove_thread_def thread_bytes_def Let_def)

lemma dsum_fst_as_sum:
  "wf_dict d \<Longrightarrow> dsum (\<lambda>_. fst) d = (\<Sum>k\<in>fst ` set d. fst (dget_default d k (0, 0)))"
proof (induction d)
  case Nil
  then show ?case by simp
next
  case (Cons kv d)
  obtain k n where kv: "kv = (k, n)" by (cases kv)
  have "(\<Sum>j\<in>fst ` set d. fst (dget_default (kv # d) j (0, 0)))
      = (\<Sum>j\<in>fst ` set d. fst (dget_default d j (0, 0)))"
    using Cons.prems kv by (intro sum.cong) (auto simp: dget_default_def)
  then show ?case using Cons kv by (simp add: dget_default_def)
qed

interpretation ckpt: size_ledger ss_total_bytes thread_bytes
  "\<lambda>s. fst ` set (by_thread s)" "\<lambda>tid s. snd (remove_thread tid s)" size_state_inv
proof unfold_locales
  fix s :: size_state and k
  assume inv: "size_state_inv s"
  show "finite (fst ` set (by_thread s))" by simp
  show "k \<notin> fst ` set (by_thread s) \<Longrightarrow> thread_bytes s k = 0"
    by (simp add: thread_bytes_def thread_entry_def dget_default_def map_of_eq_None_iff[THEN iffD2])
  show "0 \<le> thread_bytes s k" using thread_entry_nonneg[OF inv] by blast
  show "ss_total_bytes s = (\<Sum>k\<in>fst ` set (by_thread s). thread_bytes s k)"
    using inv by (simp add: size_state_inv_def thread_bytes_def thread_entry_def dsum_fst_as_sum)
  show "size_state_inv (snd (remove_thread k s))" by (rule remove_thread_inv[OF inv])
  show "thread_bytes (snd (remove_thread k s)) = (thread_bytes s)(k := 0)"
    by (auto simp: thread_bytes_def thread_entry_remove)
qed

end
