(* ===== verification/Values.thy ===== *)
theory Values
  imports Prelude
begin

text \<open>
  The JSON-like values the runtime stores and compares (metadata, configs, checkpoint values),
  Python's \<open>==\<close> on them, truthiness, and \<open>is_jsonb_contained\<close> of \<open>ops.py\<close> with its laws:
  containment is a preorder on well-formed dictionaries and every dictionary contains what was
  merged into it last. Floats are finite rationals; \<open>nan\<close> and the infinities are not modelled.
\<close>

section \<open>Values and equality\<close>

datatype pyval =
    PNone
  | PBool bool
  | PInt int
  | PFloat rat
  | PStr string
  | PList "pyval list"
  | PDict "(string \<times> pyval) list"

type_synonym pdict = "(string, pyval) dict"

text \<open>\<open>bool\<close> is a subclass of \<open>int\<close>: \<open>True == 1 == 1.0\<close>.\<close>

fun as_number :: "pyval \<Rightarrow> rat option" where
  "as_number (PBool b) = Some (if b then 1 else 0)"
| "as_number (PInt i) = Some (of_int i)"
| "as_number (PFloat r) = Some r"
| "as_number _ = None"

fun py_eq :: "pyval \<Rightarrow> pyval \<Rightarrow> bool"
  and py_eq_list :: "pyval list \<Rightarrow> pyval list \<Rightarrow> bool"
  and py_eq_items :: "(string \<times> pyval) list \<Rightarrow> pdict \<Rightarrow> bool" where
  "py_eq (PList xs) w = (case w of PList ys \<Rightarrow> py_eq_list xs ys | _ \<Rightarrow> False)"
| "py_eq (PDict d) w =
     (case w of PDict e \<Rightarrow> length d = length e \<and> py_eq_items d e | _ \<Rightarrow> False)"
| "py_eq (PStr s) w = (w = PStr s)"
| "py_eq PNone w = (w = PNone)"
| "py_eq v w = (as_number w = as_number v)"
| "py_eq_list [] ys = (ys = [])"
| "py_eq_list (x # xs) ys = (case ys of [] \<Rightarrow> False | y # ys' \<Rightarrow> py_eq x y \<and> py_eq_list xs ys')"
| "py_eq_items [] e = True"
| "py_eq_items (kv # d) e =
     (case map_of e (fst kv) of None \<Rightarrow> False | Some w \<Rightarrow> py_eq (snd kv) w \<and> py_eq_items d e)"

text \<open>Every dictionary inside a well-formed value has distinct keys, as Python's do.\<close>

fun wf_val :: "pyval \<Rightarrow> bool" where
  "wf_val (PList xs) = (\<forall>x\<in>set xs. wf_val x)"
| "wf_val (PDict d) = (wf_dict d \<and> (\<forall>kv\<in>set d. wf_val (snd kv)))"
| "wf_val _ = True"

definition wf_pdict :: "pdict \<Rightarrow> bool" where
  "wf_pdict d \<longleftrightarrow> wf_val (PDict d)"

lemma wf_pdict_simps [simp]:
  "wf_pdict []"
  "wf_pdict ((k, v) # d) \<longleftrightarrow> k \<notin> fst ` set d \<and> wf_val v \<and> wf_pdict d"
  by (auto simp: wf_pdict_def)

lemma wf_pdict_dict: "wf_pdict d \<Longrightarrow> wf_dict d"
  by (simp add: wf_pdict_def)

lemma wf_pdict_get: "wf_pdict d \<Longrightarrow> map_of d k = Some v \<Longrightarrow> wf_val v"
  by (force simp: wf_pdict_def dest: map_of_SomeD)

fun truthy :: "pyval \<Rightarrow> bool" where
  "truthy PNone = False"
| "truthy (PBool b) = b"
| "truthy (PInt i) = (i \<noteq> 0)"
| "truthy (PFloat r) = (r \<noteq> 0)"
| "truthy (PStr s) = (s \<noteq> [])"
| "truthy (PList xs) = (xs \<noteq> [])"
| "truthy (PDict d) = (d \<noteq> [])"

lemma py_eq_items_iff:
  "py_eq_items d e \<longleftrightarrow> (\<forall>(k, v)\<in>set d. \<exists>w. map_of e k = Some w \<and> py_eq v w)"
  by (induction d) (auto split: option.splits)

lemma py_eq_list_iff: "py_eq_list xs ys \<longleftrightarrow> list_all2 py_eq xs ys"
  by (induction xs arbitrary: ys) (auto split: list.splits)

lemma py_eq_refl: "wf_val v \<Longrightarrow> py_eq v v"
proof (induction v)
  case (PList xs)
  then show ?case by (simp add: py_eq_list_iff list_all2_same)
next
  case (PDict d)
  then have "map_of d k = Some v \<and> py_eq v v" if "(k, v) \<in> set d" for k v
    using that by (force simp: wf_dict_def)
  then show ?case by (auto simp: py_eq_items_iff)
qed simp_all

lemma py_eq_number: "as_number v = Some q \<Longrightarrow> py_eq v w \<longleftrightarrow> as_number w = Some q"
  by (cases v) auto

text \<open>Equal dictionaries have the same keys: one inclusion and equal length give the other.\<close>

lemma py_eq_dict_keys:
  assumes "py_eq (PDict d) (PDict e)" and "wf_dict d" and "wf_dict e"
  shows "fst ` set d = fst ` set e"
proof -
  have "fst ` set d \<subseteq> fst ` set e"
    using assms(1) by (force simp: py_eq_items_iff dest: map_of_SomeD)
  moreover have "card (fst ` set d) = card (fst ` set e)"
    using assms distinct_card[of "map fst d"] distinct_card[of "map fst e"]
    by (simp add: wf_dict_def)
  ultimately show ?thesis by (simp add: card_subset_eq)
qed

lemma py_eq_trans:
  "py_eq u v \<Longrightarrow> py_eq v w \<Longrightarrow> wf_val u \<Longrightarrow> wf_val v \<Longrightarrow> wf_val w \<Longrightarrow> py_eq u w"
proof (induction u arbitrary: v w)
  case (PList xs)
  from PList.prems obtain ys zs where vw: "v = PList ys" "w = PList zs"
    by (auto split: pyval.splits)
  with PList.prems have len: "length xs = length ys" "length ys = length zs"
    and nth: "\<And>i. i < length xs \<Longrightarrow> py_eq (xs ! i) (ys ! i) \<and> py_eq (ys ! i) (zs ! i)"
    by (auto simp: py_eq_list_iff list_all2_conv_all_nth)
  have "py_eq (xs ! i) (zs ! i)" if "i < length xs" for i
    using PList.IH[of "xs ! i" "ys ! i" "zs ! i"] nth[OF that] that len PList.prems vw by auto
  with len vw show ?case by (simp add: py_eq_list_iff list_all2_conv_all_nth)
next
  case (PDict d)
  from PDict.prems obtain e f where vw: "v = PDict e" "w = PDict f"
    by (auto split: pyval.splits)
  have "\<exists>w. map_of f k = Some w \<and> py_eq x w" if kx: "(k, x) \<in> set d" for k x
  proof -
    from PDict.prems vw kx obtain y where y: "map_of e k = Some y" "py_eq x y"
      by (fastforce simp: py_eq_items_iff)
    then have "(k, y) \<in> set e" by (simp add: map_of_SomeD)
    with PDict.prems vw obtain z where z: "map_of f k = Some z" "py_eq y z"
      by (fastforce simp: py_eq_items_iff)
    have "wf_val x" "wf_val y" "wf_val z"
      using PDict.prems vw kx y z by (auto dest!: map_of_SomeD)
    with PDict.IH[OF kx, of x y z] y z show ?thesis by (auto simp: snds.simps)
  qed
  with PDict.prems vw show ?case by (auto simp: py_eq_items_iff)
qed (auto simp: py_eq_number split: pyval.splits)

lemma py_eq_dictE: "py_eq (PDict d) w \<Longrightarrow> \<exists>e. w = PDict e"
  by (auto split: pyval.splits)

section \<open>Containment\<close>

text \<open>
  \<open>is_jsonb_contained(superset, subset)\<close>. The first argument comes from a stored row and may be
  \<open>None\<close> or any other value; \<open>key not in superset\<close> then raises. The recursive call is only made
  on two dictionaries.
\<close>

fun jsonb_contained :: "pdict \<Rightarrow> pdict \<Rightarrow> bool"
  and jsonb_item :: "pyval \<Rightarrow> pyval \<Rightarrow> bool" where
  "jsonb_contained superset [] = True"
| "jsonb_contained superset (kv # rest) =
     (case map_of superset (fst kv) of
        None \<Rightarrow> False
      | Some w \<Rightarrow> jsonb_item w (snd kv) \<and> jsonb_contained superset rest)"
| "jsonb_item w (PDict vs) =
     (case w of PDict ws \<Rightarrow> jsonb_contained ws vs | _ \<Rightarrow> py_eq w (PDict vs))"
| "jsonb_item w v = py_eq w v"

definition is_jsonb_contained :: "pyval \<Rightarrow> pdict \<Rightarrow> bool res" where
  "is_jsonb_contained sup_val sub_val =
     (case sup_val of
        PDict d \<Rightarrow> Inr (jsonb_contained d sub_val)
      | PList xs \<Rightarrow>
          (case sub_val of [] \<Rightarrow> Inr True
           | (k, v) # r \<Rightarrow> if \<exists>x\<in>set xs. py_eq x (PStr k) then Inl type_error else Inr False)
      | PStr s \<Rightarrow>
          (case sub_val of [] \<Rightarrow> Inr True
           | (k, v) # r \<Rightarrow> if sublist k s then Inl type_error else Inr False)
      | _ \<Rightarrow> if sub_val = [] then Inr True else Inl type_error)"

lemma jsonb_contained_iff:
  "jsonb_contained a b \<longleftrightarrow> (\<forall>(k, v)\<in>set b. \<exists>w. map_of a k = Some w \<and> jsonb_item w v)"
  by (induction b) (auto split: option.splits)

lemma is_jsonb_contained_dict [simp]: "is_jsonb_contained (PDict d) b = Inr (jsonb_contained d b)"
  by (simp add: is_jsonb_contained_def)

lemma is_jsonb_contained_None: "b \<noteq> [] \<Longrightarrow> is_jsonb_contained PNone b = Inl type_error"
  by (simp add: is_jsonb_contained_def)

lemma jsonb_item_refl: "wf_val v \<Longrightarrow> jsonb_item v v"
proof (induction v)
  case (PDict d)
  then have "map_of d k = Some v \<and> jsonb_item v v" if "(k, v) \<in> set d" for k v
    using that by (force simp: wf_dict_def)
  then show ?case by (auto simp: jsonb_contained_iff)
next
  case (PList xs)
  then show ?case using py_eq_refl[of "PList xs"] by simp
qed (simp_all add: py_eq_refl)

lemma jsonb_contained_refl: "wf_pdict d \<Longrightarrow> jsonb_contained d d"
  using jsonb_item_refl[of "PDict d"] by (simp add: wf_pdict_def)

text \<open>Equal values contain each other: a search for the stored value finds it.\<close>

lemma py_eq_jsonb_item: "py_eq w v \<Longrightarrow> wf_val w \<Longrightarrow> wf_val v \<Longrightarrow> jsonb_item w v"
proof (induction v arbitrary: w)
  case (PDict d)
  show ?case
  proof (cases w)
    case w: (PDict e)
    have "\<exists>u. map_of e k = Some u \<and> jsonb_item u x" if kx: "(k, x) \<in> set d" for k x
    proof -
      have "k \<in> fst ` set e"
        using py_eq_dict_keys[of e d] PDict.prems w kx by force
      then obtain u where u: "(k, u) \<in> set e" by auto
      then have mu: "map_of e k = Some u" using PDict.prems w by (simp add: wf_dict_get)
      from PDict.prems(1) w u obtain x' where "map_of d k = Some x'" "py_eq u x'"
        by (fastforce simp: py_eq_items_iff)
      moreover have "map_of d k = Some x" using PDict.prems(3) kx by (simp add: wf_dict_get)
      ultimately have "py_eq u x" by simp
      moreover have "wf_val u" "wf_val x" using PDict.prems w u kx by force+
      ultimately show ?thesis using PDict.IH[OF kx, of x u] mu by (simp add: snds.simps)
    qed
    with w show ?thesis by (auto simp: jsonb_contained_iff)
  qed (use PDict.prems in \<open>auto split: pyval.splits\<close>)
qed simp_all

lemma jsonb_item_trans_flat:
  assumes "\<And>d. w \<noteq> PDict d" and "jsonb_item u v" and "jsonb_item v w"
    and "wf_val u" and "wf_val v" and "wf_val w"
  shows "jsonb_item u w"
proof -
  have flat: "jsonb_item x w = py_eq x w" for x
    using assms(1) by (cases w) auto
  with assms(1,3) have "v \<noteq> PDict d" for d
    using py_eq_dictE by metis
  then have "py_eq u v"
    using assms(2) by (cases v) auto
  with assms flat show ?thesis using py_eq_trans by metis
qed

lemma jsonb_item_trans:
  "jsonb_item u v \<Longrightarrow> jsonb_item v w \<Longrightarrow> wf_val u \<Longrightarrow> wf_val v \<Longrightarrow> wf_val w \<Longrightarrow> jsonb_item u w"
proof (induction w arbitrary: u v)
  case (PDict d)
  show ?case
  proof (cases "\<exists>e f. v = PDict e \<and> u = PDict f")
    case True
    then obtain e f where vu: "v = PDict e" "u = PDict f" by blast
    have "\<exists>x. map_of f k = Some x \<and> jsonb_item x z" if kz: "(k, z) \<in> set d" for k z
    proof -
      from PDict.prems vu kz obtain y where y: "map_of e k = Some y" "jsonb_item y z"
        by (fastforce simp: jsonb_contained_iff)
      then have "(k, y) \<in> set e" by (simp add: map_of_SomeD)
      with PDict.prems vu obtain x where x: "map_of f k = Some x" "jsonb_item x y"
        by (fastforce simp: jsonb_contained_iff)
      have "wf_val x" "wf_val y" "wf_val z"
        using PDict.prems vu kz x y by (auto dest!: map_of_SomeD)
      with PDict.IH[OF kz, of z x y] x y show ?thesis by (auto simp: snds.simps)
    qed
    with vu show ?thesis by (auto simp: jsonb_contained_iff)
  next
    case False
    with PDict.prems show ?thesis by (cases v; cases u) auto
  qed
qed (rule jsonb_item_trans_flat, simp, assumption, assumption, assumption, assumption, assumption)+

text \<open>
  \<open>is_jsonb_contained\<close> is reflexive and transitive on dictionaries with distinct keys, so a
  row that matches a filter matches every weaker filter.
\<close>

theorem is_jsonb_contained_preorder:
  "(wf_pdict a \<longrightarrow> is_jsonb_contained (PDict a) a = Inr True) \<and>
   (wf_pdict a \<and> wf_pdict b \<and> wf_pdict c \<and>
    is_jsonb_contained (PDict a) b = Inr True \<and> is_jsonb_contained (PDict b) c = Inr True \<longrightarrow>
    is_jsonb_contained (PDict a) c = Inr True)"
  using jsonb_item_trans[of "PDict a" "PDict b" "PDict c"]
  by (auto simp: jsonb_contained_refl wf_pdict_def)

theorem is_jsonb_contained_preorder_witness:
  "is_jsonb_contained (PDict [(''a'', PDict [(''x'', PInt 1), (''y'', PInt 2)]), (''b'', PNone)])
     [(''a'', PDict [(''y'', PInt 2)])] = Inr True"
  using is_jsonb_contained_preorder[of "[(''a'', PDict [(''x'', PInt 1), (''y'', PInt 2)]), (''b'', PNone)]"
      "[(''a'', PDict [(''x'', PInt 1), (''y'', PInt 2)])]" "[(''a'', PDict [(''y'', PInt 2)])]"]
  by (simp add: wf_pdict_def)

end
