(* ===== verification/Checkpoint_Saver.thy ===== *)
theory Checkpoint_Saver
  imports Checkpoint_Size Values
begin

text \<open>
  The patched \<open>InMemorySaver\<close> of \<open>checkpoint.py\<close>: its three dictionaries with the size ledger,
  \<open>put\<close>, \<open>put_writes\<close>, \<open>delete_thread\<close>, \<open>_rebuild_size_tracking\<close>, \<open>clear\<close> and the per-run
  deletion of \<open>ops.py\<close> (\<open>_delete_checkpoints_for_thread\<close>). The invariant \<open>saver_inv\<close> says that the
  ledger is exact: for every thread it holds precisely the bytes and checkpoints stored.

  The base class \<open>langgraph.checkpoint.memory.InMemorySaver\<close> and the serializer are third-party
  code: they are the fields of \<open>saver_env\<close>, and \<open>base_saver_ok\<close> states what the base class
  documents. Thread ids, namespaces and checkpoint ids are the texts the runtime stores.
\<close>

section \<open>State\<close>

type_synonym checkpoints = "(string, entry) dict"
type_synonym namespaces = "(string, checkpoints) dict"
type_synonym outer_key = "string \<times> string \<times> string"
type_synonym blob_key = "string \<times> string \<times> string \<times> component"

record saver =
  storage :: "(string, namespaces) dict"
  sv_writes :: "(outer_key, write_group) dict"
  sv_blobs :: "(blob_key, typed) dict"
  sizes :: size_state

definition saver_init :: saver where
  "saver_init = \<lparr>storage = [], sv_writes = [], sv_blobs = [], sizes = size_state_init\<rparr>"

text \<open>The arguments of \<open>put\<close>: the identifying entries of the config, and the rest of it.\<close>

record put_call =
  pc_thread_id :: string
  pc_checkpoint_ns :: string
  pc_checkpoint_id :: string
  pc_parent_id :: "string option"
  pc_configurable :: pdict
  pc_config_metadata :: pdict
  pc_metadata :: pdict
  pc_checkpoint :: pyval
  pc_new_versions :: "(string, component) dict"

record writes_call =
  wc_thread_id :: string
  wc_checkpoint_ns :: string
  wc_checkpoint_id :: string
  wc_writes :: "(string \<times> pyval) list"
  wc_task_id :: string
  wc_task_path :: string

text \<open>The serializer's readings of a stored payload, and the methods of the base class.\<close>

record saver_env =
  loads_versions :: "typed \<Rightarrow> (string, component) dict"
  loads_metadata :: "typed \<Rightarrow> pdict"
  base_put :: "put_call \<Rightarrow> saver \<Rightarrow> saver"
  base_put_writes :: "writes_call \<Rightarrow> saver \<Rightarrow> saver"
  base_delete_thread :: "string \<Rightarrow> saver \<Rightarrow> saver"

definition namespaces_of :: "saver \<Rightarrow> string \<Rightarrow> namespaces" where
  "namespaces_of s tid = dget_default (storage s) tid []"

definition lookup_entry :: "saver \<Rightarrow> string \<Rightarrow> string \<Rightarrow> string \<Rightarrow> entry option" where
  "lookup_entry s tid ns cid = map_of (dget_default (namespaces_of s tid) ns []) cid"

definition store_entry :: "string \<Rightarrow> string \<Rightarrow> string \<Rightarrow> entry \<Rightarrow> saver \<Rightarrow> saver" where
  "store_entry tid ns cid e s =
     s\<lparr>storage := AList.update tid
         (AList.update ns (AList.update cid e (dget_default (namespaces_of s tid) ns []))
           (namespaces_of s tid)) (storage s)\<rparr>"

section \<open>What the base class documents\<close>

text \<open>
  \<open>put\<close> stores one checkpoint entry and one blob per new channel version; \<open>put_writes\<close> changes
  the group of its outer key only; \<open>delete_thread\<close> drops everything keyed by the thread.
\<close>

definition base_put_ok :: "saver_env \<Rightarrow> bool" where
  "base_put_ok E \<longleftrightarrow> (\<forall>c s. \<exists>e nb.
     base_put E c s =
       (store_entry (pc_thread_id c) (pc_checkpoint_ns c) (pc_checkpoint_id c) e s)
         \<lparr>sv_blobs := dict_merge (sv_blobs s) nb\<rparr> \<and>
     dkeys nb = map (\<lambda>(ch, ver). (pc_thread_id c, pc_checkpoint_ns c, ch, ver)) (pc_new_versions c))"

definition base_put_writes_ok :: "saver_env \<Rightarrow> bool" where
  "base_put_writes_ok E \<longleftrightarrow> (\<forall>c s.
     base_put_writes E c s = s \<or>
     (\<exists>g. base_put_writes E c s =
        s\<lparr>sv_writes := AList.update (wc_thread_id c, wc_checkpoint_ns c, wc_checkpoint_id c) g
                        (sv_writes s)\<rparr>))"

definition drop_thread :: "string \<Rightarrow> saver \<Rightarrow> saver" where
  "drop_thread tid s =
     s\<lparr>storage := AList.delete tid (storage s),
       sv_writes := filter (\<lambda>((t, ns, cid), ws). t \<noteq> tid) (sv_writes s),
       sv_blobs := filter (\<lambda>((t, ns, ch, ver), v). t \<noteq> tid) (sv_blobs s)\<rparr>"

definition base_delete_ok :: "saver_env \<Rightarrow> bool" where
  "base_delete_ok E \<longleftrightarrow> (\<forall>tid s. base_delete_thread E tid s = drop_thread tid s)"

definition base_saver_ok :: "saver_env \<Rightarrow> bool" where
  "base_saver_ok E \<longleftrightarrow> base_put_ok E \<and> base_put_writes_ok E \<and> base_delete_ok E"

section \<open>Operations\<close>

definition excluded_keys :: "string list" where
  "excluded_keys = [''checkpoint_ns'', ''checkpoint_id'', ''run_id'', ''thread_id'']"

definition transient_configurable_keys :: "string list" where
  "transient_configurable_keys =
     [''langgraph_request_id'', ''langgraph_auth_user'', ''langgraph_auth_user_id'',
      ''langgraph_auth_permissions'']"

text \<open>The metadata \<open>put\<close> hands to the base class, transient keys filtered from all three sources.\<close>

definition checkpoint_metadata :: "put_call \<Rightarrow> pdict" where
  "checkpoint_metadata c =
     dict_merge
       (dict_merge
         (filter (\<lambda>(k, v). \<not> prefix ''__'' k \<and> k \<notin> set excluded_keys
                    \<and> k \<notin> set transient_configurable_keys) (pc_configurable c))
         (filter (\<lambda>(k, v). k \<notin> set transient_configurable_keys) (pc_config_metadata c)))
       (filter (\<lambda>(k, v). k \<notin> set transient_configurable_keys) (pc_metadata c))"

definition blob_key_of :: "put_call \<Rightarrow> string \<Rightarrow> component \<Rightarrow> blob_key" where
  "blob_key_of c ch ver = (pc_thread_id c, pc_checkpoint_ns c, ch, ver)"

definition present_blob_bytes :: "put_call \<Rightarrow> saver \<Rightarrow> int" where
  "present_blob_bytes c s =
     dsum (\<lambda>ch ver. case map_of (sv_blobs s) (blob_key_of c ch ver) of
                       None \<Rightarrow> 0 | Some v \<Rightarrow> blob_entry_size ch ver v) (pc_new_versions c)"

definition call_entry :: "put_call \<Rightarrow> saver \<Rightarrow> entry option" where
  "call_entry c s = lookup_entry s (pc_thread_id c) (pc_checkpoint_ns c) (pc_checkpoint_id c)"

definition saver_put :: "saver_env \<Rightarrow> put_call \<Rightarrow> saver \<Rightarrow> unit res \<times> saver" where
  "saver_put E c s =
     (let old_entry = call_entry c s;
          old_size = (case old_entry of
                        None \<Rightarrow> 0
                      | Some e \<Rightarrow> checkpoint_entry_size (pc_checkpoint_id c) e)
                     + present_blob_bytes c s;
          s' = base_put E (c\<lparr>pc_metadata := checkpoint_metadata c\<rparr>) s
      in case call_entry c s' of
           None \<Rightarrow> (Inl key_error, s')
         | Some e \<Rightarrow>
             if \<exists>(ch, ver)\<in>set (pc_new_versions c). map_of (sv_blobs s') (blob_key_of c ch ver) = None
             then (Inl key_error, s')
             else (Inr (),
                   s'\<lparr>sizes := adjust (pc_thread_id c)
                        (checkpoint_entry_size (pc_checkpoint_id c) e + present_blob_bytes c s' - old_size)
                        (if old_entry = None then 1 else 0) (sizes s')\<rparr>))"

definition group_bytes :: "outer_key \<Rightarrow> saver \<Rightarrow> int" where
  "group_bytes k s =
     (case map_of (sv_writes s) k of None \<Rightarrow> 0 | Some ws \<Rightarrow> write_group_size (snd (snd k)) ws)"

definition saver_put_writes :: "saver_env \<Rightarrow> writes_call \<Rightarrow> saver \<Rightarrow> saver" where
  "saver_put_writes E c s =
     (let k = (wc_thread_id c, wc_checkpoint_ns c, wc_checkpoint_id c);
          old_size = group_bytes k s;
          s' = base_put_writes E c s
      in s'\<lparr>sizes := adjust (wc_thread_id c) (group_bytes k s' - old_size) 0 (sizes s')\<rparr>)"

definition saver_delete_thread :: "saver_env \<Rightarrow> string \<Rightarrow> saver \<Rightarrow> saver" where
  "saver_delete_thread E tid s =
     (let s' = base_delete_thread E tid s
      in s'\<lparr>sizes := snd (remove_thread tid (sizes s'))\<rparr>)"

definition saver_clear :: "saver \<Rightarrow> saver" where
  "saver_clear s = s\<lparr>storage := [], sv_writes := [], sv_blobs := [], sizes := clear_size_state (sizes s)\<rparr>"

definition rebuild_size_tracking :: "saver \<Rightarrow> saver" where
  "rebuild_size_tracking s =
     (let z0 = clear_size_state (sizes s);
          z1 = fold (\<lambda>(tid, namespaces). fold (\<lambda>(ns, checkpoints).
                 fold (\<lambda>(cid, e). adjust tid (checkpoint_entry_size cid e) 1) checkpoints) namespaces)
                 (storage s) z0;
          z2 = fold (\<lambda>((tid, ns, cid), ws). adjust tid (write_group_size cid ws) 0) (sv_writes s) z1;
          z3 = fold (\<lambda>((tid, ns, ch, ver), v). adjust tid (blob_entry_size ch ver v) 0) (sv_blobs s) z2
      in s\<lparr>sizes := z3\<rparr>)"

text \<open>
  The run branch of \<open>_delete_checkpoints_for_thread\<close>: every checkpoint whose metadata names the
  run is discarded from the ledger and deleted; a namespace emptied that way is deleted too. (With
  \<open>USE_CUSTOM_CHECKPOINTER\<close> the source calls the custom saver instead.)
\<close>

definition of_run :: "saver_env \<Rightarrow> string \<Rightarrow> entry \<Rightarrow> bool" where
  "of_run E run_id e \<longleftrightarrow> map_of (loads_metadata E (fst (snd e))) ''run_id'' = Some (PStr run_id)"

definition discard_checkpoint_size :: "string \<Rightarrow> string \<Rightarrow> entry \<Rightarrow> saver \<Rightarrow> saver" where
  "discard_checkpoint_size tid cid e s =
     s\<lparr>sizes := adjust tid (- checkpoint_entry_size cid e) (-1) (sizes s)\<rparr>"

definition without_run :: "saver_env \<Rightarrow> string \<Rightarrow> checkpoints \<Rightarrow> checkpoints" where
  "without_run E run_id cps = filter (\<lambda>(cid, e). \<not> of_run E run_id e) cps"

definition delete_run_checkpoints :: "saver_env \<Rightarrow> string \<Rightarrow> string \<Rightarrow> saver \<Rightarrow> saver" where
  "delete_run_checkpoints E tid run_id s =
     (case map_of (storage s) tid of
        None \<Rightarrow> s
      | Some nss \<Rightarrow>
          (let doomed = concat (map (\<lambda>(ns, cps). filter (\<lambda>(cid, e). of_run E run_id e) cps) nss);
               s1 = fold (\<lambda>(cid, e). discard_checkpoint_size tid cid e) doomed s;
               kept = filter (\<lambda>(ns, cps). cps = [] \<or> without_run E run_id cps \<noteq> []) nss
           in s1\<lparr>storage := AList.update tid
                  (map (\<lambda>(ns, cps). (ns, without_run E run_id cps)) kept) (storage s1)\<rparr>))"

section \<open>What is stored, measured from scratch\<close>

definition storage_bytes :: "saver \<Rightarrow> string \<Rightarrow> int" where
  "storage_bytes s tid = dsum (\<lambda>_. dsum checkpoint_entry_size) (namespaces_of s tid)"

definition storage_count :: "saver \<Rightarrow> string \<Rightarrow> int" where
  "storage_count s tid = dsum (\<lambda>_ cps. int (length cps)) (namespaces_of s tid)"

definition writes_weight :: "string \<Rightarrow> outer_key \<Rightarrow> write_group \<Rightarrow> int" where
  "writes_weight tid k ws = (if fst k = tid then write_group_size (snd (snd k)) ws else 0)"

definition blob_weight :: "string \<Rightarrow> blob_key \<Rightarrow> typed \<Rightarrow> int" where
  "blob_weight tid k v =
     (if fst k = tid then blob_entry_size (fst (snd (snd k))) (snd (snd (snd k))) v else 0)"

definition stored_bytes :: "saver \<Rightarrow> string \<Rightarrow> int" where
  "stored_bytes s tid =
     storage_bytes s tid + dsum (writes_weight tid) (sv_writes s) + dsum (blob_weight tid) (sv_blobs s)"

definition saver_wf :: "saver \<Rightarrow> bool" where
  "saver_wf s \<longleftrightarrow>
     wf_dict (storage s) \<and>
     (\<forall>(tid, nss)\<in>set (storage s). wf_dict nss \<and> (\<forall>(ns, cps)\<in>set nss. wf_dict cps)) \<and>
     wf_dict (sv_writes s) \<and> wf_dict (sv_blobs s)"

definition ledger_exact :: "saver \<Rightarrow> bool" where
  "ledger_exact s \<longleftrightarrow>
     (\<forall>tid. thread_entry (sizes s) tid = (stored_bytes s tid, storage_count s tid))"

definition saver_inv :: "saver \<Rightarrow> bool" where
  "saver_inv s \<longleftrightarrow> saver_wf s \<and> size_state_inv (sizes s) \<and> ledger_exact s"

section \<open>Well-formedness\<close>

lemma wf_namespaces: "saver_wf s \<Longrightarrow> wf_dict (namespaces_of s tid)"
  by (force simp: saver_wf_def namespaces_of_def dget_default_def split: option.splits dest: map_of_SomeD)

lemma wf_checkpoints:
  assumes "saver_wf s" and "(ns, cps) \<in> set (namespaces_of s tid)"
  shows "wf_dict cps"
proof (cases "map_of (storage s) tid")
  case None
  with assms show ?thesis by (simp add: namespaces_of_def dget_default_def)
next
  case (Some nss)
  then have "(tid, nss) \<in> set (storage s)" by (rule map_of_SomeD)
  with assms Some show ?thesis
    by (auto simp: saver_wf_def namespaces_of_def dget_default_def)
qed

lemma wf_checkpoints_get: "saver_wf s \<Longrightarrow> wf_dict (dget_default (namespaces_of s tid) ns [])"
  by (auto simp: dget_default_def intro: wf_checkpoints split: option.splits dest: map_of_SomeD)

lemma storage_update_wf:
  assumes "saver_wf s" and "wf_dict nss" and "\<And>ns cps. (ns, cps) \<in> set nss \<Longrightarrow> wf_dict cps"
  shows "saver_wf (s\<lparr>storage := AList.update tid nss (storage s)\<rparr>)"
  using assms by (auto simp: saver_wf_def dest!: set_update_mem)

lemma store_entry_wf: "saver_wf s \<Longrightarrow> saver_wf (store_entry tid ns cid e s)"
  unfolding store_entry_def
  by (rule storage_update_wf)
    (auto simp: wf_namespaces wf_checkpoints_get dest!: set_update_mem intro: wf_checkpoints)

lemma drop_thread_wf: "saver_wf s \<Longrightarrow> saver_wf (drop_thread tid s)"
  by (auto simp: saver_wf_def drop_thread_def dest!: set_delete_mem)

lemma namespaces_of_sizes [simp]:
  "namespaces_of (s\<lparr>sizes := z\<rparr>) = namespaces_of s"
  "namespaces_of (s\<lparr>sv_writes := w\<rparr>) = namespaces_of s"
  "namespaces_of (s\<lparr>sv_blobs := b\<rparr>) = namespaces_of s"
  by (simp_all add: namespaces_of_def fun_eq_iff)

lemma saver_wf_parts [simp]:
  "saver_wf (s\<lparr>sizes := z\<rparr>) = saver_wf s"
  by (simp add: saver_wf_def)

lemma saver_wf_writes: "saver_wf s \<Longrightarrow> wf_dict w \<Longrightarrow> saver_wf (s\<lparr>sv_writes := w\<rparr>)"
  by (simp add: saver_wf_def)

lemma saver_wf_blobs: "saver_wf s \<Longrightarrow> wf_dict b \<Longrightarrow> saver_wf (s\<lparr>sv_blobs := b\<rparr>)"
  by (simp add: saver_wf_def)

section \<open>How each update changes what is stored\<close>

lemma namespaces_of_update [simp]:
  "namespaces_of (s\<lparr>storage := AList.update tid nss (storage s)\<rparr>) t =
     (if t = tid then nss else namespaces_of s t)"
  by (simp add: namespaces_of_def dget_default_def dict_simps)

lemma namespaces_of_store_entry:
  "namespaces_of (store_entry tid ns cid e s) t =
     (if t = tid then
        AList.update ns (AList.update cid e (dget_default (namespaces_of s tid) ns [])) (namespaces_of s tid)
      else namespaces_of s t)"
  by (simp add: store_entry_def)

lemma dsum_update_nested:
  assumes "wf_dict nss" and "f [] = 0"
  shows "dsum (\<lambda>_. f) (AList.update ns cps nss) = dsum (\<lambda>_. f) nss + f cps - f (dget_default nss ns [])"
  using assms by (auto simp: dict_simps dget_default_def split: option.splits)

lemma storage_bytes_store_entry:
  assumes "saver_wf s"
  shows "storage_bytes (store_entry tid ns cid e s) t = storage_bytes s t +
    (if t = tid then checkpoint_entry_size cid e
       - (case lookup_entry s tid ns cid of None \<Rightarrow> 0 | Some old \<Rightarrow> checkpoint_entry_size cid old) else 0)"
  using assms wf_checkpoints_get[OF assms, of tid ns]
  by (auto simp: storage_bytes_def namespaces_of_store_entry wf_namespaces lookup_entry_def
      dsum_update_nested[where f = "dsum checkpoint_entry_size"] dsum_update split: option.splits)

lemma storage_count_store_entry:
  assumes "saver_wf s"
  shows "storage_count (store_entry tid ns cid e s) t = storage_count s t +
    (if t = tid \<and> lookup_entry s tid ns cid = None then 1 else 0)"
  using assms wf_checkpoints_get[OF assms, of tid ns]
  by (auto simp: storage_count_def namespaces_of_store_entry wf_namespaces lookup_entry_def
      dsum_update_nested[where f = "\<lambda>cps. int (length cps)"] length_update)

lemma store_entry_same [simp]:
  "sv_writes (store_entry tid ns cid e s) = sv_writes s"
  "sv_blobs (store_entry tid ns cid e s) = sv_blobs s"
  "sizes (store_entry tid ns cid e s) = sizes s"
  by (simp_all add: store_entry_def)

lemma lookup_store_entry [simp]:
  "lookup_entry (store_entry tid ns cid e s) tid ns cid = Some e"
  by (simp add: lookup_entry_def namespaces_of_store_entry dget_default_def dict_simps)

text \<open>Merging fresh values under distinct keys changes a sum by new minus old, key by key.\<close>

lemma dsum_merge:
  "wf_dict d \<Longrightarrow> wf_dict kvs \<Longrightarrow>
   dsum f (dict_merge d kvs) =
     dsum f d + dsum f kvs - dsum (\<lambda>k _. case map_of d k of None \<Rightarrow> 0 | Some w \<Rightarrow> f k w) kvs"
proof (induction kvs arbitrary: d)
  case Nil
  then show ?case by (simp add: dict_merge_def)
next
  case (Cons kv kvs)
  obtain k v where kv: "kv = (k, v)" by (cases kv)
  have step: "dict_merge d ((k, v) # kvs) = dict_merge (AList.update k v d) kvs"
    using kv by (simp add: dict_merge_def)
  have "dsum (\<lambda>j _. case map_of (AList.update k v d) j of None \<Rightarrow> 0 | Some w \<Rightarrow> f j w) kvs
      = dsum (\<lambda>j _. case map_of d j of None \<Rightarrow> 0 | Some w \<Rightarrow> f j w) kvs"
    using Cons.prems kv by (intro dsum_cong) (force simp: dict_simps)
  with Cons kv show ?case
    by (simp add: step Cons.IH[OF wf_dict_update] dsum_update)
qed

section \<open>The ledger stays exact\<close>

lemma adjust_exact:
  assumes "size_state_inv (sizes s)" and "\<forall>t. thread_entry (sizes s) t = (b t, c t)"
    and "0 \<le> b tid + sd" and "0 \<le> c tid + cd"
  shows "thread_entry (adjust tid sd cd (sizes s)) t =
    (if t = tid then (b t + sd, c t + cd) else (b t, c t))"
  using assms by (simp add: thread_entry_adjust thread_bytes_def thread_checkpoints_def)

lemma stored_nonneg: "0 \<le> stored_bytes s tid" and storage_count_nonneg: "0 \<le> storage_count s tid"
  by (auto simp: stored_bytes_def storage_bytes_def storage_count_def writes_weight_def blob_weight_def
      intro!: add_nonneg_nonneg dsum_nonneg)

text \<open>
  The common shape of every accounted operation: the dictionaries change, then the ledger entry of
  one thread is adjusted by exactly the change of that thread's stored bytes and count.
\<close>

lemma saver_inv_adjust:
  assumes inv: "saver_inv s" and wf: "saver_wf s'" and sizes: "sizes s' = sizes s"
    and other: "\<And>t. t \<noteq> tid \<Longrightarrow> stored_bytes s' t = stored_bytes s t \<and> storage_count s' t = storage_count s t"
    and sd: "sd = stored_bytes s' tid - stored_bytes s tid"
    and cd: "cd = storage_count s' tid - storage_count s tid"
  shows "saver_inv (s'\<lparr>sizes := adjust tid sd cd (sizes s')\<rparr>)"
proof -
  have entry: "thread_entry (sizes s) t = (stored_bytes s t, storage_count s t)" for t
    using inv by (simp add: saver_inv_def ledger_exact_def)
  have "thread_entry (adjust tid sd cd (sizes s')) t = (stored_bytes s' t, storage_count s' t)" for t
    using entry other sd cd stored_nonneg[of s' tid] storage_count_nonneg[of s' tid] sizes
    by (simp add: thread_entry_adjust thread_bytes_def thread_checkpoints_def)
  moreover have "stored_bytes (s'\<lparr>sizes := z\<rparr>) = stored_bytes s'"
    "storage_count (s'\<lparr>sizes := z\<rparr>) = storage_count s'" for z
    by (simp_all add: stored_bytes_def storage_bytes_def storage_count_def fun_eq_iff)
  ultimately show ?thesis
    using inv wf sizes by (simp add: saver_inv_def ledger_exact_def adjust_inv)
qed

lemma present_blobs_as_dsum:
  assumes "dkeys nb = map (\<lambda>(ch, ver). (tid, ns, ch, ver)) nv"
  shows "dsum (\<lambda>k _. case map_of d k of None \<Rightarrow> 0 | Some w \<Rightarrow> blob_weight tid k w) nb =
    dsum (\<lambda>ch ver. case map_of d (tid, ns, ch, ver) of
            None \<Rightarrow> 0 | Some v \<Rightarrow> blob_entry_size ch ver v) nv"
  using assms
proof (induction nb arbitrary: nv)
  case Nil
  then show ?case by simp
next
  case (Cons kv nb)
  then obtain ch ver nv' where nv: "nv = (ch, ver) # nv'" and k: "fst kv = (tid, ns, ch, ver)"
    and rest: "dkeys nb = map (\<lambda>(ch, ver). (tid, ns, ch, ver)) nv'"
    by (auto simp: Cons_eq_map_conv)
  obtain v where kv: "kv = ((tid, ns, ch, ver), v)" using k by (cases kv) auto
  have "(case map_of d (tid, ns, ch, ver) of None \<Rightarrow> 0 | Some w \<Rightarrow> blob_weight tid (tid, ns, ch, ver) w)
      = (case map_of d (tid, ns, ch, ver) of None \<Rightarrow> 0 | Some v \<Rightarrow> blob_entry_size ch ver v)"
    by (simp add: blob_weight_def split: option.split)
  with Cons.IH[OF rest] show ?case by (simp only: kv nv dsum_simps)
qed

text \<open>Bytes of a thread's blobs after new values are merged in under the call's keys.\<close>

lemma wf_new_blobs:
  "wf_dict nv \<Longrightarrow> dkeys nb = map (\<lambda>(ch, ver). (tid, ns, ch, ver)) nv \<Longrightarrow> wf_dict nb"
  by (auto simp: wf_dict_def distinct_map inj_on_def)

lemma new_blob_bytes:
  assumes wf: "wf_dict d" "wf_dict nv" and nb: "dkeys nb = map (\<lambda>(ch, ver). (tid, ns, ch, ver)) nv"
  shows "dsum (blob_weight tid) nb =
    dsum (\<lambda>ch ver. case map_of (dict_merge d nb) (tid, ns, ch, ver) of
            None \<Rightarrow> 0 | Some v \<Rightarrow> blob_entry_size ch ver v) nv"
proof -
  have wfn: "wf_dict nb" by (rule wf_new_blobs[OF wf(2) nb])
  have "dsum (blob_weight tid) nb =
    dsum (\<lambda>k _. case map_of (dict_merge d nb) k of None \<Rightarrow> 0 | Some w \<Rightarrow> blob_weight tid k w) nb"
    using wfn by (intro dsum_cong) (simp add: map_of_merge map_add_def wf_dict_get)
  also have "\<dots> = dsum (\<lambda>ch ver. case map_of (dict_merge d nb) (tid, ns, ch, ver) of
            None \<Rightarrow> 0 | Some v \<Rightarrow> blob_entry_size ch ver v) nv"
    by (rule present_blobs_as_dsum[OF nb])
  finally show ?thesis .
qed

lemma blob_bytes_other_thread:
  assumes "dkeys nb = map (\<lambda>(ch, ver). (tid, ns, ch, ver)) nv" and "t \<noteq> tid"
  shows "dsum (blob_weight t) nb = 0"
    and "dsum (\<lambda>k _. case map_of d k of None \<Rightarrow> 0 | Some w \<Rightarrow> blob_weight t k w) nb = 0"
proof -
  have "fst k = tid" if "(k, v) \<in> set nb" for k v
    using that assms(1) by (metis (no_types, lifting) case_prod_beta fst_conv image_iff list.set_map)
  then have weight: "blob_weight t k w = 0" if "(k, v) \<in> set nb" for k v w
    using that assms(2) by (auto simp: blob_weight_def)
  have "dsum (blob_weight t) nb = dsum (\<lambda>_ _. 0) nb"
    by (rule dsum_cong) (rule weight)
  then show "dsum (blob_weight t) nb = 0" by simp
  have "dsum (\<lambda>k _. case map_of d k of None \<Rightarrow> 0 | Some w \<Rightarrow> blob_weight t k w) nb = dsum (\<lambda>_ _. 0) nb"
    by (rule dsum_cong) (simp add: weight split: option.split)
  then show "dsum (\<lambda>k _. case map_of d k of None \<Rightarrow> 0 | Some w \<Rightarrow> blob_weight t k w) nb = 0"
    by simp
qed

text \<open>Storing the call's entry and blobs changes the thread's bytes by new minus old.\<close>

lemma stored_after_put:
  assumes wf: "saver_wf s" "wf_dict nv"
    and nb: "dkeys nb = map (\<lambda>(ch, ver). (tid, ns, ch, ver)) nv"
    and s': "s' = (store_entry tid ns cid e s)\<lparr>sv_blobs := dict_merge (sv_blobs s) nb\<rparr>"
  shows "stored_bytes s' t = stored_bytes s t +
    (if t = tid then
       checkpoint_entry_size cid e
       - (case lookup_entry s tid ns cid of None \<Rightarrow> 0 | Some old \<Rightarrow> checkpoint_entry_size cid old)
       + dsum (\<lambda>ch ver. case map_of (sv_blobs s') (tid, ns, ch, ver) of
            None \<Rightarrow> 0 | Some v \<Rightarrow> blob_entry_size ch ver v) nv
       - dsum (\<lambda>ch ver. case map_of (sv_blobs s) (tid, ns, ch, ver) of
            None \<Rightarrow> 0 | Some v \<Rightarrow> blob_entry_size ch ver v) nv else 0)"
proof -
  have wfb: "wf_dict (sv_blobs s)" using wf(1) by (simp add: saver_wf_def)
  have wfn: "wf_dict nb" by (rule wf_new_blobs[OF wf(2) nb])
  have "stored_bytes s' t = storage_bytes (store_entry tid ns cid e s) t
      + dsum (writes_weight t) (sv_writes s) + dsum (blob_weight t) (dict_merge (sv_blobs s) nb)"
    by (simp add: stored_bytes_def s' storage_bytes_def)
  then show ?thesis
    using wf(1) blob_bytes_other_thread[OF nb] new_blob_bytes[OF wfb wf(2) nb]
      present_blobs_as_dsum[OF nb, of "sv_blobs s"]
    by (cases "t = tid")
      (simp_all add: storage_bytes_store_entry dsum_merge[OF wfb wfn] stored_bytes_def s')
qed

lemma saver_put_inv:
  assumes base: "base_put_ok E" and inv: "saver_inv s" and wf_nv: "wf_dict (pc_new_versions c)"
  shows "saver_inv (snd (saver_put E c s)) \<and> fst (saver_put E c s) = Inr ()"
proof -
  define tid ns cid nv where c: "tid = pc_thread_id c" "ns = pc_checkpoint_ns c"
    "cid = pc_checkpoint_id c" "nv = pc_new_versions c"
  from base[unfolded base_put_ok_def, rule_format, of "c\<lparr>pc_metadata := checkpoint_metadata c\<rparr>" s]
  obtain e nb where put: "base_put E (c\<lparr>pc_metadata := checkpoint_metadata c\<rparr>) s =
      (store_entry tid ns cid e s)\<lparr>sv_blobs := dict_merge (sv_blobs s) nb\<rparr>"
    and nb: "dkeys nb = map (\<lambda>(ch, ver). (tid, ns, ch, ver)) nv"
    by (auto simp: c)
  define s' where s': "s' = (store_entry tid ns cid e s)\<lparr>sv_blobs := dict_merge (sv_blobs s) nb\<rparr>"
  have wfs: "saver_wf s" using inv by (simp add: saver_inv_def)
  then have wfs': "saver_wf s'"
    unfolding s' by (intro saver_wf_blobs store_entry_wf) (auto simp: saver_wf_def)
  have wfn: "wf_dict nb" using wf_nv wf_new_blobs nb by (simp add: c)
  have look: "call_entry c s' = Some e"
    by (simp add: call_entry_def s' lookup_entry_def flip: c)
      (simp add: lookup_store_entry[unfolded lookup_entry_def])
  have keyin: "(tid, ns, ch, ver) \<in> fst ` set nb" if "(ch, ver) \<in> set nv" for ch ver
    using that arg_cong[OF nb, of set] by (auto simp: image_iff)
  have present: "\<not> (\<exists>(ch, ver)\<in>set nv. map_of (sv_blobs s') (blob_key_of c ch ver) = None)"
    using keyin wfn
    by (auto simp: s' map_of_merge blob_key_of_def map_add_None map_of_eq_None_iff simp flip: c)
  note bytes = stored_after_put[OF wfs wf_nv[folded c] nb s']
  have count: "storage_count s' t = storage_count s t +
      (if t = tid \<and> lookup_entry s tid ns cid = None then 1 else 0)" for t
    using storage_count_store_entry[OF wfs, of tid ns cid e t] by (simp add: s' storage_count_def)
  have same: "sizes s' = sizes s" by (simp add: s')
  have "saver_inv (s'\<lparr>sizes := adjust tid
      (checkpoint_entry_size cid e + present_blob_bytes c s' -
        ((case call_entry c s of None \<Rightarrow> 0 | Some e \<Rightarrow> checkpoint_entry_size cid e) + present_blob_bytes c s))
      (if call_entry c s = None then 1 else 0) (sizes s')\<rparr>)"
    by (rule saver_inv_adjust[OF inv wfs' same])
      (auto simp: bytes count call_entry_def present_blob_bytes_def blob_key_of_def simp flip: c
        split: option.splits)
  then show ?thesis
    using look present unfolding saver_put_def Let_def put[folded s']
    by (cases "call_entry c s") (simp_all add: c)
qed

lemma stored_writes_update:
  assumes "saver_wf s"
  shows "stored_bytes (s\<lparr>sv_writes := AList.update k g (sv_writes s)\<rparr>) t = stored_bytes s t +
    (if t = fst k then write_group_size (snd (snd k)) g - group_bytes k s else 0)"
  using assms
  by (auto simp: stored_bytes_def storage_bytes_def dsum_update saver_wf_def writes_weight_def
      group_bytes_def split: option.splits)

lemma saver_put_writes_inv:
  assumes base: "base_put_writes_ok E" and inv: "saver_inv s"
  shows "saver_inv (saver_put_writes E c s)"
proof -
  define k where k: "k = (wc_thread_id c, wc_checkpoint_ns c, wc_checkpoint_id c)"
  define s' where s': "s' = base_put_writes E c s"
  have wfs: "saver_wf s" using inv by (simp add: saver_inv_def)
  have cases: "s' = s \<or> (\<exists>g. s' = s\<lparr>sv_writes := AList.update k g (sv_writes s)\<rparr>)"
    using base by (simp add: base_put_writes_ok_def s' k)
  then have same: "sizes s' = sizes s" and count: "storage_count s' = storage_count s"
    by (auto simp: storage_count_def fun_eq_iff)
  from cases wfs have wfs': "saver_wf s'"
    by (auto intro!: saver_wf_writes simp: saver_wf_def[THEN iffD1, OF wfs])
  have bytes: "stored_bytes s' t = stored_bytes s t +
      (if t = fst k then group_bytes k s' - group_bytes k s else 0)" for t
    using cases stored_writes_update[OF wfs, of k]
    by (auto simp: group_bytes_def dict_simps)
  have "saver_inv (s'\<lparr>sizes := adjust (fst k) (group_bytes k s' - group_bytes k s) 0 (sizes s')\<rparr>)"
    by (rule saver_inv_adjust[OF inv wfs' same]) (simp_all add: bytes count)
  then show ?thesis
    by (simp add: saver_put_writes_def Let_def flip: k s') (simp add: k)
qed

lemma drop_thread_stored:
  assumes "saver_wf s"
  shows "stored_bytes (drop_thread tid s) t = (if t = tid then 0 else stored_bytes s t)"
    and "storage_count (drop_thread tid s) t = (if t = tid then 0 else storage_count s t)"
proof -
  have "namespaces_of (drop_thread tid s) t = (if t = tid then [] else namespaces_of s t)"
    by (simp add: namespaces_of_def drop_thread_def dget_default_def dict_simps)
  moreover have "dsum (writes_weight t) (sv_writes (drop_thread tid s)) =
      (if t = tid then 0 else dsum (writes_weight t) (sv_writes s))"
    by (cases "t = tid")
      (auto simp: drop_thread_def writes_weight_def intro!: dsum_filter_keep dsum_filter_zero)
  moreover have "dsum (blob_weight t) (sv_blobs (drop_thread tid s)) =
      (if t = tid then 0 else dsum (blob_weight t) (sv_blobs s))"
    by (cases "t = tid")
      (auto simp: drop_thread_def blob_weight_def intro!: dsum_filter_keep dsum_filter_zero)
  ultimately show "stored_bytes (drop_thread tid s) t = (if t = tid then 0 else stored_bytes s t)"
    and "storage_count (drop_thread tid s) t = (if t = tid then 0 else storage_count s t)"
    by (simp_all add: stored_bytes_def storage_bytes_def storage_count_def)
qed

lemma saver_delete_thread_inv:
  assumes "base_delete_ok E" and "saver_inv s"
  shows "saver_inv (saver_delete_thread E tid s)"
proof -
  have wf: "saver_wf s" and led: "size_state_inv (sizes s)"
    and ex: "\<And>t. thread_entry (sizes s) t = (stored_bytes s t, storage_count s t)"
    using assms(2) by (auto simp: saver_inv_def ledger_exact_def)
  have "saver_delete_thread E tid s =
      (drop_thread tid s)\<lparr>sizes := snd (remove_thread tid (sizes s))\<rparr>"
    using assms(1) by (simp add: saver_delete_thread_def base_delete_ok_def drop_thread_def)
  moreover have "stored_bytes (s'\<lparr>sizes := z\<rparr>) = stored_bytes s'"
    "storage_count (s'\<lparr>sizes := z\<rparr>) = storage_count s'" for s' z
    by (simp_all add: stored_bytes_def storage_bytes_def storage_count_def fun_eq_iff)
  ultimately show ?thesis
    using led ex drop_thread_stored[OF wf, of tid] drop_thread_wf[OF wf]
    by (simp add: saver_inv_def ledger_exact_def remove_thread_inv thread_entry_remove)
qed

lemma saver_clear_inv: "saver_inv (saver_clear s)"
  by (auto simp: saver_inv_def saver_clear_def saver_wf_def ledger_exact_def size_state_inv_clear
      stored_bytes_def storage_bytes_def storage_count_def namespaces_of_def dget_default_def)

section \<open>Rebuilding the ledger\<close>

text \<open>\<open>z'\<close> is the ledger \<open>z\<close> with \<open>b t\<close> bytes and \<open>c t\<close> checkpoints added to every thread \<open>t\<close>.\<close>

definition ledger_adds :: "(string \<Rightarrow> int) \<Rightarrow> (string \<Rightarrow> int) \<Rightarrow> size_state \<Rightarrow> size_state \<Rightarrow> bool" where
  "ledger_adds b c z z' \<longleftrightarrow> size_state_inv z \<longrightarrow> size_state_inv z' \<and>
     (\<forall>t. thread_bytes z' t = thread_bytes z t + b t \<and>
          thread_checkpoints z' t = thread_checkpoints z t + c t)"

lemma ledger_adds_adjust:
  "0 \<le> sd \<Longrightarrow> 0 \<le> cd \<Longrightarrow>
   ledger_adds (\<lambda>t. if t = tid then sd else 0) (\<lambda>t. if t = tid then cd else 0) z (adjust tid sd cd z)"
  using thread_entry_nonneg
  by (simp add: ledger_adds_def adjust_inv thread_bytes_def[of "adjust tid sd cd z"]
      thread_checkpoints_def[of "adjust tid sd cd z"] thread_entry_adjust)
    (simp add: thread_bytes_def thread_checkpoints_def)

lemma ledger_adds_fold:
  assumes "\<And>k v z. (k, v) \<in> set d \<Longrightarrow> ledger_adds (\<lambda>t. f t k v) (\<lambda>t. g t k v) z (step (k, v) z)"
  shows "ledger_adds (\<lambda>t. dsum (f t) d) (\<lambda>t. dsum (g t) d) z (fold step d z)"
  using assms
proof (induction d arbitrary: z)
  case Nil
  then show ?case by (simp add: ledger_adds_def)
next
  case (Cons kv d)
  obtain k v where kv: "kv = (k, v)" by (cases kv)
  have "ledger_adds (\<lambda>t. f t k v) (\<lambda>t. g t k v) z (step (k, v) z)"
    using Cons.prems kv by simp
  moreover have "ledger_adds (\<lambda>t. dsum (f t) d) (\<lambda>t. dsum (g t) d) (step (k, v) z) (fold step d (step (k, v) z))"
    using Cons by simp
  ultimately show ?case using kv by (simp add: ledger_adds_def)
qed

lemma ledger_adds_cong:
  "ledger_adds b c z z' \<Longrightarrow> (\<And>t. b t = b' t) \<Longrightarrow> (\<And>t. c t = c' t) \<Longrightarrow> ledger_adds b' c' z z'"
  by (simp add: ledger_adds_def)

lemma rebuild_checkpoints_adds:
  "ledger_adds (\<lambda>t. if t = tid then dsum checkpoint_entry_size cps else 0)
     (\<lambda>t. if t = tid then int (length cps) else 0) z
     (fold (\<lambda>(cid, e). adjust tid (checkpoint_entry_size cid e) 1) cps z)"
  by (rule ledger_adds_cong[OF ledger_adds_fold[where
      f = "\<lambda>t cid e. if t = tid then checkpoint_entry_size cid e else 0" and
      g = "\<lambda>t cid e. if t = tid then 1 else 0"]])
    (auto intro: ledger_adds_adjust[of _ 1 tid] simp: dsum_one)

lemma rebuild_namespaces_adds:
  "ledger_adds (\<lambda>t. if t = tid then dsum (\<lambda>_. dsum checkpoint_entry_size) nss else 0)
     (\<lambda>t. if t = tid then dsum (\<lambda>_ cps. int (length cps)) nss else 0) z
     (fold (\<lambda>(ns, cps). fold (\<lambda>(cid, e). adjust tid (checkpoint_entry_size cid e) 1) cps) nss z)"
  by (rule ledger_adds_cong[OF ledger_adds_fold[where
      f = "\<lambda>t ns cps. if t = tid then dsum checkpoint_entry_size cps else 0" and
      g = "\<lambda>t ns cps. if t = tid then int (length cps) else 0"]])
    (auto intro: rebuild_checkpoints_adds)

lemma rebuild_storage_adds:
  "ledger_adds
     (\<lambda>t. dsum (\<lambda>tid nss. if t = tid then dsum (\<lambda>_. dsum checkpoint_entry_size) nss else 0) st)
     (\<lambda>t. dsum (\<lambda>tid nss. if t = tid then dsum (\<lambda>_ cps. int (length cps)) nss else 0) st)
     z (fold (\<lambda>(tid, nss). fold (\<lambda>(ns, cps).
          fold (\<lambda>(cid, e). adjust tid (checkpoint_entry_size cid e) 1) cps) nss) st z)"
  by (rule ledger_adds_fold) (simp only: prod.case rebuild_namespaces_adds)

lemma rebuild_writes_adds:
  "ledger_adds (\<lambda>t. dsum (writes_weight t) ws) (\<lambda>t. 0) z
     (fold (\<lambda>((tid, ns, cid), ws). adjust tid (write_group_size cid ws) 0) ws z)"
proof -
  have step: "ledger_adds (\<lambda>t. writes_weight t k w) (\<lambda>t. 0) z
      ((\<lambda>((tid, ns, cid), ws). adjust tid (write_group_size cid ws) 0) (k, w) z)" for k w z
    by (cases k)
      (auto simp: writes_weight_def intro: ledger_adds_cong[OF ledger_adds_adjust[where cd = 0]])
  show ?thesis
    by (rule ledger_adds_cong[OF ledger_adds_fold[where f = writes_weight and g = "\<lambda>_ _ _. 0"
        and step = "(\<lambda>((tid, ns, cid), ws). adjust tid (write_group_size cid ws) 0)", OF step]]) simp_all
qed

lemma rebuild_blobs_adds:
  "ledger_adds (\<lambda>t. dsum (blob_weight t) bs) (\<lambda>t. 0) z
     (fold (\<lambda>((tid, ns, ch, ver), v). adjust tid (blob_entry_size ch ver v) 0) bs z)"
proof -
  have step: "ledger_adds (\<lambda>t. blob_weight t k w) (\<lambda>t. 0) z
      ((\<lambda>((tid, ns, ch, ver), v). adjust tid (blob_entry_size ch ver v) 0) (k, w) z)" for k w z
    by (cases k)
      (auto simp: blob_weight_def intro: ledger_adds_cong[OF ledger_adds_adjust[where cd = 0]])
  show ?thesis
    by (rule ledger_adds_cong[OF ledger_adds_fold[where f = blob_weight and g = "\<lambda>_ _ _. 0"
        and step = "(\<lambda>((tid, ns, ch, ver), v). adjust tid (blob_entry_size ch ver v) 0)", OF step]]) simp_all
qed

lemma storage_as_dsum:
  assumes "wf_dict (storage s)" and "f [] = 0"
  shows "dsum (\<lambda>tid nss. if t = tid then f nss else 0) (storage s) = f (namespaces_of s t)"
  using assms dsum_pick[OF assms(1), of t f]
  by (simp add: namespaces_of_def dget_default_def eq_commute[of t] split: option.splits)

lemma rebuild_adds:
  assumes "saver_wf s"
  shows "ledger_adds (stored_bytes s) (storage_count s) (clear_size_state (sizes s))
    (sizes (rebuild_size_tracking s))"
proof -
  let ?z0 = "clear_size_state (sizes s)"
  define z1 where z1: "z1 = fold (\<lambda>(tid, namespaces). fold (\<lambda>(ns, checkpoints).
      fold (\<lambda>(cid, e). adjust tid (checkpoint_entry_size cid e) 1) checkpoints) namespaces) (storage s) ?z0"
  define z2 where z2: "z2 = fold (\<lambda>((tid, ns, cid), ws). adjust tid (write_group_size cid ws) 0) (sv_writes s) z1"
  have wf: "wf_dict (storage s)" using assms by (simp add: saver_wf_def)
  have a1: "ledger_adds (storage_bytes s) (storage_count s) ?z0 z1"
    unfolding z1
    by (rule ledger_adds_cong[OF rebuild_storage_adds])
      (simp_all add: storage_as_dsum[OF wf] storage_bytes_def storage_count_def)
  have a2: "ledger_adds (\<lambda>t. dsum (writes_weight t) (sv_writes s)) (\<lambda>t. 0) z1 z2"
    unfolding z2 by (rule rebuild_writes_adds)
  have a3: "ledger_adds (\<lambda>t. dsum (blob_weight t) (sv_blobs s)) (\<lambda>t. 0) z2
      (fold (\<lambda>((tid, ns, ch, ver), v). adjust tid (blob_entry_size ch ver v) 0) (sv_blobs s) z2)"
    by (rule rebuild_blobs_adds)
  have "sizes (rebuild_size_tracking s) =
      fold (\<lambda>((tid, ns, ch, ver), v). adjust tid (blob_entry_size ch ver v) 0) (sv_blobs s) z2"
    by (simp add: rebuild_size_tracking_def Let_def z1 z2)
  with a1 a2 a3 show ?thesis by (simp add: ledger_adds_def stored_bytes_def)
qed

lemma rebuild_inv:
  assumes "saver_wf s"
  shows "saver_inv (rebuild_size_tracking s)"
proof -
  have same: "stored_bytes (rebuild_size_tracking s) = stored_bytes s"
    "storage_count (rebuild_size_tracking s) = storage_count s"
    by (simp_all add: rebuild_size_tracking_def Let_def stored_bytes_def storage_bytes_def
        storage_count_def fun_eq_iff)
  have wf: "saver_wf (rebuild_size_tracking s)"
    using assms by (simp add: rebuild_size_tracking_def Let_def)
  have "thread_bytes (clear_size_state (sizes s)) t = 0 \<and> thread_checkpoints (clear_size_state (sizes s)) t = 0" for t
    by (simp add: thread_bytes_def thread_checkpoints_def)
  with rebuild_adds[OF assms] wf show ?thesis
    by (auto simp: saver_inv_def ledger_exact_def ledger_adds_def size_state_inv_clear same
        thread_bytes_def thread_checkpoints_def prod_eq_iff)
qed

section \<open>Deleting the checkpoints of a run\<close>

lemma fold_discard:
  "size_state_inv (sizes s) \<Longrightarrow> dsum checkpoint_entry_size doomed \<le> thread_bytes (sizes s) tid \<Longrightarrow>
   int (length doomed) \<le> thread_checkpoints (sizes s) tid \<Longrightarrow>
   let s' = fold (\<lambda>(cid, e). discard_checkpoint_size tid cid e) doomed s
   in size_state_inv (sizes s') \<and> s' = s\<lparr>sizes := sizes s'\<rparr> \<and>
      (\<forall>t. thread_entry (sizes s') t =
        (if t = tid then (thread_bytes (sizes s) tid - dsum checkpoint_entry_size doomed,
                          thread_checkpoints (sizes s) tid - int (length doomed))
         else thread_entry (sizes s) t))"
proof (induction doomed arbitrary: s)
  case Nil
  then show ?case by (simp add: thread_bytes_def thread_checkpoints_def)
next
  case (Cons ce doomed)
  obtain cid e where ce: "ce = (cid, e)" by (cases ce)
  define s1 where s1: "s1 = discard_checkpoint_size tid cid e s"
  have nn: "0 \<le> dsum checkpoint_entry_size doomed" by (rule dsum_nonneg) simp
  have entry: "thread_entry (sizes s1) t =
      (if t = tid then (thread_bytes (sizes s) tid - checkpoint_entry_size cid e,
                        thread_checkpoints (sizes s) tid - 1) else thread_entry (sizes s) t)" for t
    using Cons.prems ce nn by (simp add: s1 discard_checkpoint_size_def thread_entry_adjust)
  have inv1: "size_state_inv (sizes s1)"
    using Cons.prems by (simp add: s1 discard_checkpoint_size_def adjust_inv)
  have b1: "thread_bytes (sizes s1) tid = thread_bytes (sizes s) tid - checkpoint_entry_size cid e"
    and c1: "thread_checkpoints (sizes s1) tid = thread_checkpoints (sizes s) tid - 1"
    using entry[of tid] by (simp_all add: thread_bytes_def thread_checkpoints_def)
  have same: "s1\<lparr>sizes := z\<rparr> = s\<lparr>sizes := z\<rparr>" for z
    by (simp add: s1 discard_checkpoint_size_def)
  show ?case
    using Cons.IH[OF inv1] Cons.prems ce entry
    by (simp add: Let_def b1 c1 same flip: s1)
qed

lemma run_bytes_split:
  "dsum (\<lambda>_. dsum checkpoint_entry_size) nss =
     dsum checkpoint_entry_size (concat (map (\<lambda>(ns, cps). filter (\<lambda>(cid, e). P e) cps) nss))
     + dsum (\<lambda>_. dsum checkpoint_entry_size)
         (map (\<lambda>(ns, cps). (ns, filter (\<lambda>(cid, e). \<not> P e) cps))
           (filter (\<lambda>(ns, cps). cps = [] \<or> filter (\<lambda>(cid, e). \<not> P e) cps \<noteq> []) nss))"
proof (induction nss)
  case Nil
  then show ?case by simp
next
  case (Cons x nss)
  obtain ns cps where x: "x = (ns, cps)" by (cases x)
  have "dsum checkpoint_entry_size cps = dsum checkpoint_entry_size (filter (\<lambda>(cid, e). P e) cps)
      + dsum checkpoint_entry_size (filter (\<lambda>(cid, e). \<not> P e) cps)"
    using dsum_filter_split[of checkpoint_entry_size cps "\<lambda>(cid, e). P e"]
    by (simp add: case_prod_unfold)
  with Cons x show ?case by auto
qed

lemma run_count_split:
  "dsum (\<lambda>_ cps. int (length cps)) nss =
     int (length (concat (map (\<lambda>(ns, cps). filter (\<lambda>(cid, e). P e) cps) nss)))
     + dsum (\<lambda>_ cps. int (length cps))
         (map (\<lambda>(ns, cps). (ns, filter (\<lambda>(cid, e). \<not> P e) cps))
           (filter (\<lambda>(ns, cps). cps = [] \<or> filter (\<lambda>(cid, e). \<not> P e) cps \<noteq> []) nss))"
proof (induction nss)
  case Nil
  then show ?case by simp
next
  case (Cons x nss)
  obtain ns cps where x: "x = (ns, cps)" by (cases x)
  have "int (length cps) = int (length (filter (\<lambda>(cid, e). P e) cps))
      + int (length (filter (\<lambda>(cid, e). \<not> P e) cps))"
    using sum_length_filter_compl[of "\<lambda>(cid, e). P e" cps] by (simp add: case_prod_unfold flip: of_nat_add)
  with Cons x show ?case by auto
qed

lemma delete_run_inv:
  assumes inv: "saver_inv s"
  shows "saver_inv (delete_run_checkpoints E tid rid s)"
proof (cases "map_of (storage s) tid")
  case None
  with inv show ?thesis by (simp add: delete_run_checkpoints_def)
next
  case (Some nss)
  have wf: "saver_wf s" and led: "size_state_inv (sizes s)"
    and ex: "\<And>t. thread_entry (sizes s) t = (stored_bytes s t, storage_count s t)"
    using inv by (auto simp: saver_inv_def ledger_exact_def)
  have ns: "namespaces_of s tid = nss" using Some by (simp add: namespaces_of_def dget_default_def)
  define doomed where d: "doomed = concat (map (\<lambda>(ns, cps). filter (\<lambda>(cid, e). of_run E rid e) cps) nss)"
  define rest where r: "rest = map (\<lambda>(ns, cps). (ns, without_run E rid cps))
      (filter (\<lambda>(ns, cps). cps = [] \<or> without_run E rid cps \<noteq> []) nss)"
  define s1 where s1: "s1 = fold (\<lambda>(cid, e). discard_checkpoint_size tid cid e) doomed s"
  define s2 where s2: "s2 = s\<lparr>storage := AList.update tid rest (storage s)\<rparr>"
  have bytes: "dsum (\<lambda>_. dsum checkpoint_entry_size) nss =
      dsum checkpoint_entry_size doomed + dsum (\<lambda>_. dsum checkpoint_entry_size) rest"
    unfolding d r without_run_def by (rule run_bytes_split)
  have count: "dsum (\<lambda>_ cps. int (length cps)) nss =
      int (length doomed) + dsum (\<lambda>_ cps. int (length cps)) rest"
    unfolding d r without_run_def by (rule run_count_split)
  have nnb: "0 \<le> dsum (\<lambda>_. dsum checkpoint_entry_size) rest"
    and nnc: "0 \<le> dsum (\<lambda>_ cps. int (length cps)) rest"
    by (auto intro!: dsum_nonneg)
  have nnw: "0 \<le> dsum (writes_weight tid) (sv_writes s)" "0 \<le> dsum (blob_weight tid) (sv_blobs s)"
    by (auto intro!: dsum_nonneg simp: writes_weight_def blob_weight_def)
  have "dsum checkpoint_entry_size doomed \<le> thread_bytes (sizes s) tid"
    and "int (length doomed) \<le> thread_checkpoints (sizes s) tid"
    using bytes count nnb nnc nnw ex[of tid]
    by (simp_all add: thread_bytes_def thread_checkpoints_def stored_bytes_def storage_bytes_def
        storage_count_def ns)
  note fd = fold_discard[OF led this, folded s1, unfolded Let_def]
  have wfr: "wf_dict rest" "\<And>ns cps. (ns, cps) \<in> set rest \<Longrightarrow> wf_dict cps"
  proof -
    have "wf_dict nss" using wf_namespaces[OF wf, of tid] ns by simp
    then have "wf_dict (filter (\<lambda>(ns, cps). cps = [] \<or> without_run E rid cps \<noteq> []) nss)" by blast
    then show "wf_dict rest" by (simp add: r wf_dict_def case_prod_unfold comp_def)
    show "wf_dict cps" if "(ns', cps) \<in> set rest" for ns' cps
      using that wf_checkpoints[OF wf, of _ _ tid] ns by (auto simp: r without_run_def)
  qed
  have "saver_wf s2" unfolding s2 by (rule storage_update_wf[OF wf wfr])
  moreover have "stored_bytes s2 t = (if t = tid then stored_bytes s t - dsum checkpoint_entry_size doomed
      else stored_bytes s t)" for t
    using bytes by (auto simp: s2 stored_bytes_def storage_bytes_def ns)
  moreover have "storage_count s2 t = (if t = tid then storage_count s t - int (length doomed)
      else storage_count s t)" for t
    using count by (auto simp: s2 storage_count_def ns)
  moreover have "stored_bytes (s2\<lparr>sizes := z\<rparr>) = stored_bytes s2"
    "storage_count (s2\<lparr>sizes := z\<rparr>) = storage_count s2" for z
    by (simp_all add: stored_bytes_def storage_bytes_def storage_count_def fun_eq_iff)
  moreover have "delete_run_checkpoints E tid rid s = s2\<lparr>sizes := sizes s1\<rparr>"
  proof -
    have "delete_run_checkpoints E tid rid s = s1\<lparr>storage := AList.update tid rest (storage s1)\<rparr>"
      using Some by (simp add: delete_run_checkpoints_def Let_def s1 d r)
    moreover obtain z where "s1 = s\<lparr>sizes := z\<rparr>"
      using fd[THEN conjunct2, THEN conjunct1] by (rule that)
    ultimately show ?thesis by (simp add: s2)
  qed
  ultimately show ?thesis
    using fd[THEN conjunct1] fd[THEN conjunct2, THEN conjunct2] ex
    by (simp add: saver_inv_def ledger_exact_def thread_bytes_def thread_checkpoints_def)
qed

text \<open>No value of a transient key is ever handed to the base class.\<close>

lemma wf_dict_filter_keys: "wf_dict d \<Longrightarrow> wf_dict (filter (\<lambda>(k, v). P k v) d)"
  by simp

lemma map_of_checkpoint_metadata:
  assumes "wf_dict (pc_config_metadata c)" and "wf_dict (pc_metadata c)"
  shows "map_of (checkpoint_metadata c) k =
    (if k \<in> set transient_configurable_keys then None
     else case map_of (pc_metadata c) k of Some v \<Rightarrow> Some v
     | None \<Rightarrow> (case map_of (pc_config_metadata c) k of Some v \<Rightarrow> Some v
       | None \<Rightarrow> (if prefix ''__'' k \<or> k \<in> set excluded_keys then None else map_of (pc_configurable c) k)))"
  using assms
  by (simp add: checkpoint_metadata_def map_of_merge map_add_def map_of_filter_key
      map_of_filter_key[where P = "\<lambda>k. \<not> prefix ''__'' k \<and> k \<notin> set excluded_keys \<and> k \<notin> set transient_configurable_keys"]
      split: option.split)

end
