(* ===== verification/Checkpoint_Prune.thy ===== *)
theory Checkpoint_Prune
  imports Checkpoint_Saver
begin

text \<open>
  \<open>InMemorySaver.prune\<close> of \<open>checkpoint.py\<close>: the newest checkpoint of every namespace is kept,
  and, for the channels it does not materialise, the parent chain up to the nearest checkpoint that
  does. The walk over parents is a \<open>partial_function\<close> (the loop in the source does not return on a
  cyclic parent chain), specified by the inductive predicate \<open>chain\<close>; it is proved to return
  whenever parents have smaller ids than their children, the order the source relies on.
\<close>

section \<open>Operations\<close>

definition entry_versions :: "saver_env \<Rightarrow> entry \<Rightarrow> (string, component) dict" where
  "entry_versions E e = loads_versions E (fst e)"

definition entry_parent :: "entry \<Rightarrow> string option" where
  "entry_parent e = snd (snd e)"

text \<open>The blob of a channel at a version is present and not the marker \<open>("empty", b"")\<close>.\<close>

definition blob_present :: "saver \<Rightarrow> blob_key \<Rightarrow> bool" where
  "blob_present s k = (case map_of (sv_blobs s) k of None \<Rightarrow> False | Some b \<Rightarrow> fst b \<noteq> ''empty'')"

text \<open>Whether an ancestor materialises a channel: its version is set and the blob is present.\<close>

definition materialised :: "saver_env \<Rightarrow> saver \<Rightarrow> string \<Rightarrow> string \<Rightarrow> entry \<Rightarrow> string \<Rightarrow> bool" where
  "materialised E s tid ns e ch =
     (case map_of (entry_versions E e) ch of
        None \<Rightarrow> False
      | Some version \<Rightarrow> version \<noteq> CNone \<and> blob_present s (tid, ns, ch, version))"

definition needed_channels :: "saver_env \<Rightarrow> saver \<Rightarrow> string \<Rightarrow> string \<Rightarrow> entry \<Rightarrow> string list" where
  "needed_channels E s tid ns e =
     dkeys (filter (\<lambda>(ch, version). \<not> blob_present s (tid, ns, ch, version)) (entry_versions E e))"

definition latest_id :: "checkpoints \<Rightarrow> string" where
  "latest_id cps = fold max (dkeys (tl cps)) (fst (hd cps))"

partial_function (option) walk_parents ::
  "(entry \<Rightarrow> string \<Rightarrow> bool) \<Rightarrow> checkpoints \<Rightarrow> string option \<Rightarrow> string list \<Rightarrow> string list \<Rightarrow> string list option"
where
  [code]: "walk_parents mat cps parent needed keep =
     (case parent of
        None \<Rightarrow> Some keep
      | Some p \<Rightarrow>
          (if needed = [] then Some keep
           else case map_of cps p of
                  None \<Rightarrow> Some keep
                | Some e \<Rightarrow> walk_parents mat cps (entry_parent e)
                              (filter (\<lambda>ch. \<not> mat e ch) needed) (List.insert p keep)))"

definition keep_ids :: "saver_env \<Rightarrow> saver \<Rightarrow> string \<Rightarrow> string \<Rightarrow> checkpoints \<Rightarrow> string list option" where
  "keep_ids E s tid ns cps =
     (case map_of cps (latest_id cps) of
        None \<Rightarrow> Some []
      | Some e \<Rightarrow> walk_parents (materialised E s tid ns) cps (entry_parent e)
                    (needed_channels E s tid ns e) [latest_id cps])"

text \<open>What the loop over the namespaces accumulates.\<close>

record pruned =
  pr_namespaces :: namespaces
  pr_writes :: "outer_key list"
  pr_blobs :: "blob_key list"
  pr_size :: int
  pr_count :: int

definition keep_namespace ::
  "saver_env \<Rightarrow> string \<Rightarrow> string \<Rightarrow> checkpoints \<Rightarrow> string list \<Rightarrow> pruned \<Rightarrow> pruned" where
  "keep_namespace E tid ns cps ids r =
     (let kept = filter (\<lambda>(cid, e). cid \<in> set ids) cps;
          gone = filter (\<lambda>(cid, e). cid \<notin> set ids) cps
      in r\<lparr>pr_namespaces := (ns, kept) # pr_namespaces r,
           pr_writes := map (\<lambda>cid. (tid, ns, cid)) ids @ pr_writes r,
           pr_blobs := concat (map (\<lambda>(cid, e). map (\<lambda>(ch, version). (tid, ns, ch, version))
                                      (entry_versions E e)) kept) @ pr_blobs r,
           pr_size := pr_size r + dsum checkpoint_entry_size gone,
           pr_count := pr_count r + int (length gone)\<rparr>)"

primrec prune_namespaces :: "saver_env \<Rightarrow> saver \<Rightarrow> string \<Rightarrow> namespaces \<Rightarrow> pruned option" where
  "prune_namespaces E s tid [] =
     Some \<lparr>pr_namespaces = [], pr_writes = [], pr_blobs = [], pr_size = 0, pr_count = 0\<rparr>"
| "prune_namespaces E s tid (x # nss) =
     (case x of (ns, cps) \<Rightarrow>
        if cps = [] then prune_namespaces E s tid nss
        else case keep_ids E s tid ns cps of
               None \<Rightarrow> None
             | Some ids \<Rightarrow> map_option (keep_namespace E tid ns cps ids) (prune_namespaces E s tid nss))"

definition prune_thread :: "saver_env \<Rightarrow> string \<Rightarrow> saver \<Rightarrow> saver option" where
  "prune_thread E tid s =
     (if namespaces_of s tid = [] then Some s
      else case prune_namespaces E s tid (namespaces_of s tid) of
             None \<Rightarrow> None
           | Some r \<Rightarrow>
               (let gone_writes = filter (\<lambda>(k, ws). fst k = tid \<and> k \<notin> set (pr_writes r)) (sv_writes s);
                    gone_blobs = filter (\<lambda>(k, v). fst k = tid \<and> k \<notin> set (pr_blobs r)) (sv_blobs s);
                    removed_size = pr_size r + dsum (writes_weight tid) gone_writes
                                   + dsum (blob_weight tid) gone_blobs
                in Some (s\<lparr>storage := AList.update tid (pr_namespaces r) (storage s),
                           sv_writes := filter (\<lambda>(k, ws). \<not> (fst k = tid \<and> k \<notin> set (pr_writes r))) (sv_writes s),
                           sv_blobs := filter (\<lambda>(k, v). \<not> (fst k = tid \<and> k \<notin> set (pr_blobs r))) (sv_blobs s),
                           sizes := adjust tid (- removed_size) (- pr_count r) (sizes s)\<rparr>)))"

primrec prune_threads :: "saver_env \<Rightarrow> string list \<Rightarrow> saver \<Rightarrow> saver option" where
  "prune_threads E [] s = Some s"
| "prune_threads E (tid # tids) s =
     (case prune_thread E tid s of None \<Rightarrow> None | Some s' \<Rightarrow> prune_threads E tids s')"

text \<open>\<open>None\<close> is a call that does not return.\<close>

definition saver_prune :: "saver_env \<Rightarrow> string list \<Rightarrow> string \<Rightarrow> saver \<Rightarrow> (unit res \<times> saver) option" where
  "saver_prune E tids strategy s =
     (if strategy \<in> {''delete'', ''delete_all''}
      then Some (Inr (), fold (saver_delete_thread E) tids s)
      else if strategy \<noteq> ''keep_latest'' then Some (Inl value_error, s)
      else map_option (Pair (Inr ())) (prune_threads E tids s))"

section \<open>The retained chain\<close>

inductive chain :: "(entry \<Rightarrow> bool) \<Rightarrow> checkpoints \<Rightarrow> string option \<Rightarrow> string \<Rightarrow> bool"
  for mat :: "entry \<Rightarrow> bool" and cps :: checkpoints where
  here: "map_of cps p = Some e \<Longrightarrow> chain mat cps (Some p) p"
| there: "map_of cps p = Some e \<Longrightarrow> \<not> mat e \<Longrightarrow> chain mat cps (entry_parent e) c \<Longrightarrow> chain mat cps (Some p) c"

inductive_cases chain_NoneE: "chain mat cps None c"
inductive_cases chain_SomeE: "chain mat cps (Some p) c"

lemma chain_None [simp]: "\<not> chain mat cps None c"
  by (auto elim: chain_NoneE)

lemma chain_Some:
  "map_of cps p = Some e \<Longrightarrow>
   chain mat cps (Some p) c \<longleftrightarrow> c = p \<or> (\<not> mat e \<and> chain mat cps (entry_parent e) c)"
  by (auto elim: chain_SomeE intro: chain.intros)

lemma chain_missing: "map_of cps p = None \<Longrightarrow> \<not> chain mat cps (Some p) c"
  by (auto elim: chain_SomeE)

lemma chain_stored: "chain mat cps p c \<Longrightarrow> map_of cps c \<noteq> None"
  by (induction rule: chain.induct) auto

lemmas walk_induct = walk_parents.raw_induct[rotated, consumes 1, case_names step]

lemma walk_parents_exact:
  assumes "walk_parents mat cps parent needed keep = Some ks"
  shows "set ks = set keep \<union> {c. \<exists>ch\<in>set needed. chain (\<lambda>e. mat e ch) cps parent c}"
  using assms
proof (induction mat cps parent needed keep ks rule: walk_induct)
  case (step walk mat cps parent needed keep ks)
  show ?case
  proof (cases parent)
    case None
    with step(2) show ?thesis by simp
  next
    case (Some p)
    show ?thesis
    proof (cases "needed = []")
      case True
      with step(2) Some show ?thesis by simp
    next
      case False
      show ?thesis
      proof (cases "map_of cps p")
        case None
        with step(2) Some False show ?thesis by (simp add: chain_missing)
      next
        case e: (Some e)
        have "walk mat cps (entry_parent e) (filter (\<lambda>ch. \<not> mat e ch) needed) (List.insert p keep) = Some ks"
          using step(2) Some False e by simp
        from step(1)[OF this] have "set ks = insert p (set keep) \<union>
            {c. \<exists>ch\<in>set needed. \<not> mat e ch \<and> chain (\<lambda>e. mat e ch) cps (entry_parent e) c}"
          by auto
        moreover have "{c. \<exists>ch\<in>set needed. chain (\<lambda>e. mat e ch) cps (Some p) c} =
            insert p {c. \<exists>ch\<in>set needed. \<not> mat e ch \<and> chain (\<lambda>e. mat e ch) cps (entry_parent e) c}"
          using False by (auto simp: chain_Some[OF e] neq_Nil_conv)
        ultimately show ?thesis using Some by auto
      qed
    qed
  qed
qed

section \<open>Termination\<close>

text \<open>Checkpoint ids are monotonic: a parent's id sorts before the id of its child.\<close>

definition parents_decrease :: "checkpoints \<Rightarrow> bool" where
  "parents_decrease cps \<longleftrightarrow> (\<forall>(cid, e)\<in>set cps. case entry_parent e of None \<Rightarrow> True | Some p \<Rightarrow> p < cid)"

lemma walk_parents_returns:
  assumes dec: "parents_decrease cps"
  shows "\<exists>ks. walk_parents mat cps parent needed keep = Some ks"
proof (induction "card {k \<in> fst ` set cps. \<exists>p. parent = Some p \<and> k \<le> p}"
    arbitrary: parent needed keep rule: less_induct)
  case less
  show ?case
  proof (cases "\<exists>p e. parent = Some p \<and> needed \<noteq> [] \<and> map_of cps p = Some e")
    case False
    then show ?thesis
      by (auto simp: walk_parents.simps[of mat cps parent needed keep] split: option.split)
  next
    case True
    then obtain p e where p: "parent = Some p" "needed \<noteq> []" and e: "map_of cps p = Some e" by blast
    have mem: "(p, e) \<in> set cps" using e by (rule map_of_SomeD)
    have lt: "q < p" if "entry_parent e = Some q" for q
      using dec mem that by (fastforce simp: parents_decrease_def)
    have "{k \<in> fst ` set cps. \<exists>q. entry_parent e = Some q \<and> k \<le> q}
        \<subset> {k \<in> fst ` set cps. \<exists>q. parent = Some q \<and> k \<le> q}"
    proof
      show "{k \<in> fst ` set cps. \<exists>q. entry_parent e = Some q \<and> k \<le> q}
          \<subseteq> {k \<in> fst ` set cps. \<exists>q. parent = Some q \<and> k \<le> q}"
        using lt p by (fastforce intro: order.trans)
      have "p \<in> {k \<in> fst ` set cps. \<exists>q. parent = Some q \<and> k \<le> q}"
        using mem p by force
      moreover have "p \<notin> {k \<in> fst ` set cps. \<exists>q. entry_parent e = Some q \<and> k \<le> q}"
        using lt by (auto simp: not_le)
      ultimately show "{k \<in> fst ` set cps. \<exists>q. entry_parent e = Some q \<and> k \<le> q}
          \<noteq> {k \<in> fst ` set cps. \<exists>q. parent = Some q \<and> k \<le> q}" by blast
    qed
    then have "card {k \<in> fst ` set cps. \<exists>q. entry_parent e = Some q \<and> k \<le> q}
        < card {k \<in> fst ` set cps. \<exists>q. parent = Some q \<and> k \<le> q}"
      by (rule psubset_card_mono[rotated]) simp
    from less[OF this, of "filter (\<lambda>ch. \<not> mat e ch) needed" "List.insert p keep"]
    have "\<exists>ks. walk_parents mat cps (entry_parent e) (filter (\<lambda>ch. \<not> mat e ch) needed) (List.insert p keep) = Some ks" .
    then show ?thesis using p e by (simp add: walk_parents.simps[of mat cps "Some p" needed keep])
  qed
qed

lemma latest_id_Max: "cps \<noteq> [] \<Longrightarrow> latest_id cps = Max (set (dkeys cps))"
  by (cases cps) (simp_all add: latest_id_def Max.set_eq_fold del: Max_insert flip: list.set(2))

lemma latest_id_stored: "cps \<noteq> [] \<Longrightarrow> \<exists>e. map_of cps (latest_id cps) = Some e"
  using Max_in[of "fst ` set cps"]
  by (metis latest_id_Max set_map map_of_eq_None_iff option.exhaust set_empty finite_set finite_imageI image_is_empty)

lemma keep_ids_exact:
  assumes "keep_ids E s tid ns cps = Some ids" and "map_of cps (latest_id cps) = Some e"
  shows "set ids = insert (latest_id cps)
    {c. \<exists>ch\<in>set (needed_channels E s tid ns e). chain (\<lambda>e. materialised E s tid ns e ch) cps (entry_parent e) c}"
  using assms walk_parents_exact[of "materialised E s tid ns" cps "entry_parent e"
      "needed_channels E s tid ns e" "[latest_id cps]" ids]
  by (simp add: keep_ids_def)

lemma keep_ids_returns: "parents_decrease cps \<Longrightarrow> \<exists>ids. keep_ids E s tid ns cps = Some ids"
  using walk_parents_returns by (auto simp: keep_ids_def split: option.split)

lemma walk_parents_distinct:
  assumes "walk_parents mat cps parent needed keep = Some ks" and "distinct keep"
  shows "distinct ks"
  using assms
proof (induction mat cps parent needed keep ks rule: walk_induct)
  case (step walk mat cps parent needed keep ks)
  from step(2,3) show ?case
    by (auto split: option.splits if_splits dest!: step(1))
qed

section \<open>What pruning keeps\<close>

definition retained_in :: "saver_env \<Rightarrow> saver \<Rightarrow> string \<Rightarrow> string \<Rightarrow> checkpoints \<Rightarrow> string \<Rightarrow> bool" where
  "retained_in E s tid ns cps cid \<longleftrightarrow> cps \<noteq> [] \<and>
     (case map_of cps (latest_id cps) of
        None \<Rightarrow> False
      | Some e \<Rightarrow> cid = latest_id cps \<or>
          (\<exists>ch\<in>set (needed_channels E s tid ns e).
             chain (\<lambda>e. materialised E s tid ns e ch) cps (entry_parent e) cid))"

definition retained :: "saver_env \<Rightarrow> saver \<Rightarrow> string \<Rightarrow> string \<Rightarrow> string \<Rightarrow> bool" where
  "retained E s tid ns cid \<longleftrightarrow> retained_in E s tid ns (dget_default (namespaces_of s tid) ns []) cid"

lemma keep_ids_retained:
  "cps \<noteq> [] \<Longrightarrow> keep_ids E s tid ns cps = Some ids \<Longrightarrow> cid \<in> set ids \<longleftrightarrow> retained_in E s tid ns cps cid"
  using latest_id_stored[of cps] keep_ids_exact[of E s tid ns cps ids]
  by (auto simp: retained_in_def)

lemma retained_in_stored: "retained_in E s tid ns cps cid \<Longrightarrow> \<exists>e. map_of cps cid = Some e"
  by (auto simp: retained_in_def split: option.splits dest: chain_stored)

lemma retained_in_Nil [simp]: "\<not> retained_in E s tid ns [] cid"
  by (simp add: retained_in_def)

lemma prune_namespaces_entries:
  "wf_dict nss \<Longrightarrow> prune_namespaces E s tid nss = Some r \<Longrightarrow>
   dget_default (pr_namespaces r) ns [] =
     filter (\<lambda>(cid, e). retained_in E s tid ns (dget_default nss ns []) cid) (dget_default nss ns [])"
proof (induction nss arbitrary: r)
  case Nil
  then show ?case by (auto simp: dget_default_def)
next
  case (Cons x nss)
  obtain ns' cps where x: "x = (ns', cps)" by (cases x)
  have other: "dget_default nss ns' [] = []" if "ns' \<notin> fst ` set nss"
    using that by (simp add: dget_default_def map_of_eq_None_iff[THEN iffD2])
  show ?case
  proof (cases "cps = []")
    case True
    with Cons x show ?thesis by (auto simp: dget_default_def map_of_eq_None_iff[THEN iffD2])
  next
    case False
    with Cons.prems x obtain ids r' where
      ids: "keep_ids E s tid ns' cps = Some ids" and r': "prune_namespaces E s tid nss = Some r'"
      and r: "r = keep_namespace E tid ns' cps ids r'"
      by (auto split: option.splits)
    have "dget_default (pr_namespaces r) ns [] =
        (if ns = ns' then filter (\<lambda>(cid, e). cid \<in> set ids) cps else dget_default (pr_namespaces r') ns [])"
      by (simp add: r keep_namespace_def Let_def dget_default_def)
    moreover have "dget_default (x # nss) ns [] = (if ns = ns' then cps else dget_default nss ns [])"
      by (simp add: x dget_default_def)
    ultimately show ?thesis
      using Cons r' x keep_ids_retained[OF False ids] by simp
  qed
qed

lemma prune_namespaces_writes:
  "wf_dict nss \<Longrightarrow> prune_namespaces E s tid nss = Some r \<Longrightarrow>
   (t, ns, cid) \<in> set (pr_writes r) \<longleftrightarrow> t = tid \<and> retained_in E s tid ns (dget_default nss ns []) cid"
proof (induction nss arbitrary: r)
  case Nil
  then show ?case by (auto simp: dget_default_def)
next
  case (Cons x nss)
  obtain ns' cps where x: "x = (ns', cps)" by (cases x)
  have get: "dget_default (x # nss) ns [] = (if ns = ns' then cps else dget_default nss ns [])"
    by (simp add: x dget_default_def)
  have other: "dget_default nss ns' [] = []"
    using Cons.prems x by (simp add: dget_default_def map_of_eq_None_iff[THEN iffD2])
  show ?case
  proof (cases "cps = []")
    case True
    with Cons x get other show ?thesis by auto
  next
    case False
    with Cons.prems x obtain ids r' where
      ids: "keep_ids E s tid ns' cps = Some ids" and r': "prune_namespaces E s tid nss = Some r'"
      and r: "r = keep_namespace E tid ns' cps ids r'"
      by (auto split: option.splits)
    have "(t, ns, cid) \<in> set (pr_writes r) \<longleftrightarrow>
        (t = tid \<and> ns = ns' \<and> cid \<in> set ids) \<or> (t, ns, cid) \<in> set (pr_writes r')"
      by (auto simp: r keep_namespace_def Let_def)
    then show ?thesis
      using Cons r' x keep_ids_retained[OF False ids] get other by auto
  qed
qed

lemma prune_namespaces_blobs:
  "wf_dict nss \<Longrightarrow> prune_namespaces E s tid nss = Some r \<Longrightarrow>
   (t, ns, ch, ver) \<in> set (pr_blobs r) \<longleftrightarrow> t = tid \<and>
     (\<exists>(cid, e)\<in>set (dget_default nss ns []).
        retained_in E s tid ns (dget_default nss ns []) cid \<and> (ch, ver) \<in> set (entry_versions E e))"
proof (induction nss arbitrary: r)
  case Nil
  then show ?case by (auto simp: dget_default_def)
next
  case (Cons x nss)
  obtain ns' cps where x: "x = (ns', cps)" by (cases x)
  have get: "dget_default (x # nss) ns [] = (if ns = ns' then cps else dget_default nss ns [])"
    by (simp add: x dget_default_def)
  have other: "dget_default nss ns' [] = []"
    using Cons.prems x by (simp add: dget_default_def map_of_eq_None_iff[THEN iffD2])
  show ?case
  proof (cases "cps = []")
    case True
    with Cons x get other show ?thesis by auto
  next
    case False
    with Cons.prems x obtain ids r' where
      ids: "keep_ids E s tid ns' cps = Some ids" and r': "prune_namespaces E s tid nss = Some r'"
      and r: "r = keep_namespace E tid ns' cps ids r'"
      by (auto split: option.splits)
    have "(t, ns, ch, ver) \<in> set (pr_blobs r) \<longleftrightarrow>
        (t = tid \<and> ns = ns' \<and> (\<exists>(cid, e)\<in>set cps. cid \<in> set ids \<and> (ch, ver) \<in> set (entry_versions E e)))
        \<or> (t, ns, ch, ver) \<in> set (pr_blobs r')"
      by (simp add: r keep_namespace_def Let_def image_iff split_beta) force
    then show ?thesis
      using Cons r' x keep_ids_retained[OF False ids] get other by auto
  qed
qed

lemma prune_namespaces_sizes:
  "prune_namespaces E s tid nss = Some r \<Longrightarrow>
   dsum (\<lambda>_. dsum checkpoint_entry_size) nss =
     pr_size r + dsum (\<lambda>_. dsum checkpoint_entry_size) (pr_namespaces r) \<and>
   dsum (\<lambda>_ cps. int (length cps)) nss =
     pr_count r + dsum (\<lambda>_ cps. int (length cps)) (pr_namespaces r)"
proof (induction nss arbitrary: r)
  case Nil
  then show ?case by auto
next
  case (Cons x nss)
  obtain ns cps where x: "x = (ns, cps)" by (cases x)
  show ?case
  proof (cases "cps = []")
    case True
    with Cons x show ?thesis by auto
  next
    case False
    with Cons.prems x obtain ids r' where
      r': "prune_namespaces E s tid nss = Some r'" and r: "r = keep_namespace E tid ns cps ids r'"
      by (auto split: option.splits)
    have "dsum f cps = dsum f (filter (\<lambda>(cid, e). cid \<in> set ids) cps)
        + dsum f (filter (\<lambda>(cid, e). cid \<notin> set ids) cps)" for f :: "string \<Rightarrow> entry \<Rightarrow> int"
      using dsum_filter_split[of f cps "\<lambda>(cid, e). cid \<in> set ids"] by (simp add: case_prod_unfold)
    from this[of checkpoint_entry_size] this[of "\<lambda>_ _. 1"] Cons.IH[OF r'] show ?thesis
      by (simp add: r x keep_namespace_def Let_def dsum_one)
  qed
qed

lemma prune_namespaces_wf:
  "wf_dict nss \<Longrightarrow> (\<forall>(ns, cps)\<in>set nss. wf_dict cps) \<Longrightarrow> prune_namespaces E s tid nss = Some r \<Longrightarrow>
   wf_dict (pr_namespaces r) \<and> fst ` set (pr_namespaces r) \<subseteq> fst ` set nss \<and>
   (\<forall>(ns, cps)\<in>set (pr_namespaces r). wf_dict cps)"
proof (induction nss arbitrary: r)
  case Nil
  then show ?case by auto
next
  case (Cons x nss)
  obtain ns cps where x: "x = (ns, cps)" by (cases x)
  show ?case
  proof (cases "cps = []")
    case True
    with Cons x show ?thesis by auto
  next
    case False
    with Cons.prems x obtain ids r' where
      r': "prune_namespaces E s tid nss = Some r'" and r: "r = keep_namespace E tid ns cps ids r'"
      by (auto split: option.splits)
    from Cons.IH[OF _ _ r'] Cons.prems x show ?thesis
      by (auto simp: r keep_namespace_def Let_def)
  qed
qed

section \<open>The pruned saver\<close>

lemma prune_namespaces_returns:
  "\<forall>(ns, cps)\<in>set nss. parents_decrease cps \<Longrightarrow> \<exists>r. prune_namespaces E s tid nss = Some r"
proof (induction nss)
  case Nil
  then show ?case by simp
next
  case (Cons x nss)
  then obtain r where r: "prune_namespaces E s tid nss = Some r" by auto
  obtain ns cps where x: "x = (ns, cps)" by (cases x)
  with Cons.prems obtain ids where "keep_ids E s tid ns cps = Some ids"
    using keep_ids_returns by fastforce
  with r x show ?case by simp
qed

lemma prune_thread_returns:
  assumes "\<forall>(ns, cps)\<in>set (namespaces_of s tid). parents_decrease cps"
  shows "\<exists>s'. prune_thread E tid s = Some s'"
  using prune_namespaces_returns[OF assms, of E s tid] by (auto simp: prune_thread_def Let_def split: option.split)

text \<open>What a returning call leaves behind, stated over the state before it.\<close>

lemma prune_thread_storage:
  assumes wf: "saver_wf s" and ret: "prune_thread E tid s = Some s'"
  shows "dget_default (namespaces_of s' t) ns [] =
    (if t = tid then filter (\<lambda>(cid, e). retained E s tid ns cid) (dget_default (namespaces_of s tid) ns [])
     else dget_default (namespaces_of s t) ns [])"
proof (cases "namespaces_of s tid = []")
  case True
  with ret show ?thesis by (simp add: prune_thread_def dget_default_def)
next
  case False
  with ret obtain r where r: "prune_namespaces E s tid (namespaces_of s tid) = Some r"
    and ns: "namespaces_of s' t = (if t = tid then pr_namespaces r else namespaces_of s t)"
    by (auto simp: prune_thread_def Let_def namespaces_of_def dget_default_def dict_simps split: option.splits)
  show ?thesis
    using prune_namespaces_entries[OF wf_namespaces[OF wf] r] ns by (simp add: retained_def)
qed

lemma prune_thread_entry:
  assumes "saver_wf s" and "prune_thread E tid s = Some s'"
  shows "lookup_entry s' t ns cid =
    (if t = tid \<and> \<not> retained E s tid ns cid then None else lookup_entry s t ns cid)"
  using prune_thread_storage[OF assms] by (simp add: lookup_entry_def map_of_filter_key)

lemma no_namespaces_not_retained: "namespaces_of s tid = [] \<Longrightarrow> \<not> retained E s tid ns cid"
  by (simp add: retained_def dget_default_def)

lemma prune_thread_writes:
  assumes wf: "saver_wf s" and ret: "prune_thread E tid s = Some s'" and ne: "namespaces_of s tid \<noteq> []"
  shows "map_of (sv_writes s') (t, ns, cid) =
    (if t = tid \<and> \<not> retained E s tid ns cid then None else map_of (sv_writes s) (t, ns, cid))"
proof -
  from ret ne obtain r where r: "prune_namespaces E s tid (namespaces_of s tid) = Some r"
    and w: "sv_writes s' = filter (\<lambda>(k, ws). \<not> (fst k = tid \<and> k \<notin> set (pr_writes r))) (sv_writes s)"
    by (auto simp: prune_thread_def Let_def split: option.splits)
  show ?thesis
    using prune_namespaces_writes[OF wf_namespaces[OF wf] r]
    by (auto simp: w map_of_filter_key retained_def)
qed

lemma prune_thread_blobs:
  assumes wf: "saver_wf s" and ret: "prune_thread E tid s = Some s'" and ne: "namespaces_of s tid \<noteq> []"
  shows "map_of (sv_blobs s') (t, ns, ch, ver) =
    (if t = tid \<and> \<not> (\<exists>(cid, e)\<in>set (dget_default (namespaces_of s tid) ns []).
          retained E s tid ns cid \<and> (ch, ver) \<in> set (entry_versions E e))
     then None else map_of (sv_blobs s) (t, ns, ch, ver))"
proof -
  from ret ne obtain r where r: "prune_namespaces E s tid (namespaces_of s tid) = Some r"
    and b: "sv_blobs s' = filter (\<lambda>(k, v). \<not> (fst k = tid \<and> k \<notin> set (pr_blobs r))) (sv_blobs s)"
    by (auto simp: prune_thread_def Let_def split: option.splits)
  have "map_of (sv_blobs s') (t, ns, ch, ver) =
      (if t = tid \<and> (t, ns, ch, ver) \<notin> set (pr_blobs r) then None else map_of (sv_blobs s) (t, ns, ch, ver))"
    by (cases "t = tid") (simp_all add: b map_of_filter_key)
  then show ?thesis
    using prune_namespaces_blobs[OF wf_namespaces[OF wf] r, of tid ns ch ver]
    unfolding retained_def by auto
qed

lemma prune_thread_inv:
  assumes inv: "saver_inv s" and ret: "prune_thread E tid s = Some s'"
  shows "saver_inv s'"
proof (cases "namespaces_of s tid = []")
  case True
  with inv ret show ?thesis by (simp add: prune_thread_def)
next
  case False
  with ret obtain r where r: "prune_namespaces E s tid (namespaces_of s tid) = Some r"
    by (auto simp: prune_thread_def split: option.splits)
  define gw where gw: "gw = filter (\<lambda>(k, ws). fst k = tid \<and> k \<notin> set (pr_writes r)) (sv_writes s)"
  define kw where kw: "kw = filter (\<lambda>(k, ws). \<not> (fst k = tid \<and> k \<notin> set (pr_writes r))) (sv_writes s)"
  define gb where gb: "gb = filter (\<lambda>(k, v). fst k = tid \<and> k \<notin> set (pr_blobs r)) (sv_blobs s)"
  define kb where kb: "kb = filter (\<lambda>(k, v). \<not> (fst k = tid \<and> k \<notin> set (pr_blobs r))) (sv_blobs s)"
  define s1 where s1: "s1 = s\<lparr>storage := AList.update tid (pr_namespaces r) (storage s), sv_writes := kw, sv_blobs := kb\<rparr>"
  have s': "s' = s1\<lparr>sizes := adjust tid (- (pr_size r + dsum (writes_weight tid) gw + dsum (blob_weight tid) gb))
      (- pr_count r) (sizes s1)\<rparr>"
    using ret False r by (simp add: prune_thread_def Let_def s1 gw kw gb kb)
  have wf: "saver_wf s" using inv by (simp add: saver_inv_def)
  have sp: "dsum f (sv_writes s) = dsum f gw + dsum f kw" for f
    using dsum_filter_split[of f "sv_writes s" "\<lambda>(k, ws). fst k = tid \<and> k \<notin> set (pr_writes r)"]
    by (simp add: gw kw case_prod_unfold)
  have sb: "dsum f (sv_blobs s) = dsum f gb + dsum f kb" for f
    using dsum_filter_split[of f "sv_blobs s" "\<lambda>(k, v). fst k = tid \<and> k \<notin> set (pr_blobs r)"]
    by (simp add: gb kb case_prod_unfold)
  have ow: "dsum (writes_weight t) gw = 0" "dsum (blob_weight t) gb = 0" if "t \<noteq> tid" for t
    using that by (auto simp: gw gb writes_weight_def blob_weight_def intro!: dsum_filter_zero)
  have wfn: "\<forall>(ns, cps)\<in>set (namespaces_of s tid). wf_dict cps"
    using wf_checkpoints[OF wf] by blast
  have "saver_wf s1"
    using prune_namespaces_wf[OF wf_namespaces[OF wf] wfn r] wf
    by (auto simp: s1 saver_wf_def kw kb dest!: set_update_mem)
  moreover have "namespaces_of s1 t = (if t = tid then pr_namespaces r else namespaces_of s t)" for t
    by (simp add: s1 namespaces_of_def dget_default_def dict_simps)
  ultimately show ?thesis
    unfolding s'
    using prune_namespaces_sizes[OF r]
    by (intro saver_inv_adjust[OF inv])
      (auto simp: s1 stored_bytes_def storage_bytes_def storage_count_def sp sb ow)
qed

lemma prune_threads_inv: "saver_inv s \<Longrightarrow> prune_threads E tids s = Some s' \<Longrightarrow> saver_inv s'"
  by (induction tids arbitrary: s) (auto intro: prune_thread_inv split: option.splits)

lemma saver_prune_inv:
  "base_delete_ok E \<Longrightarrow> saver_inv s \<Longrightarrow> saver_prune E tids strategy s = Some (u, s') \<Longrightarrow> saver_inv s'"
proof -
  assume base: "base_delete_ok E" and inv: "saver_inv s" and ret: "saver_prune E tids strategy s = Some (u, s')"
  have "saver_inv (fold (saver_delete_thread E) tids s)"
    using inv by (induction tids arbitrary: s) (auto intro: saver_delete_thread_inv[OF base])
  with inv ret show ?thesis
    by (auto simp: saver_prune_def split: if_splits intro: prune_threads_inv)
qed

end
