(* ===== verification/Checkpoint_Ledger.thy ===== *)
theory Checkpoint_Ledger
  imports Checkpoint_Prune
begin

text \<open>
  The checkpoint part of \<open>Threads.copy\<close> (\<open>ops.py\<close>, with \<open>_replace_thread_id\<close>), and the
  properties of the saver as a whole: whatever sequence of operations runs, the size ledger holds
  exactly what is stored; pruning keeps exactly the retained chains and returns.
\<close>

section \<open>Copying a thread\<close>

text \<open>
  \<open>text.replace(old, new)\<close> for a non-empty \<open>old\<close>: leftmost matches, without overlap. The source
  applies it to the JSON text of the data, in which UUIDs stand for themselves.
\<close>

function replace_text :: "string \<Rightarrow> string \<Rightarrow> string \<Rightarrow> string" where
  "replace_text old new [] = []"
| "replace_text old new (c # cs) =
     (if old \<noteq> [] \<and> prefix old (c # cs)
      then new @ replace_text old new (drop (length old) (c # cs))
      else c # replace_text old new cs)"
  by pat_completeness auto
termination
  by (relation "measure (\<lambda>(old, new, s). length s)") auto

definition replace_typed :: "string \<Rightarrow> string \<Rightarrow> typed \<Rightarrow> typed" where
  "replace_typed old new v = (replace_text old new (fst v), replace_text old new (snd v))"

definition replace_entry :: "string \<Rightarrow> string \<Rightarrow> entry \<Rightarrow> entry" where
  "replace_entry old new e =
     (case e of (checkpoint, metadata, parent) \<Rightarrow>
        (replace_typed old new checkpoint, replace_typed old new metadata,
         map_option (replace_text old new) parent))"

definition replace_write :: "string \<Rightarrow> string \<Rightarrow> pending_write \<Rightarrow> pending_write" where
  "replace_write old new w =
     (case w of (task_id, channel, v, task_path) \<Rightarrow>
        (replace_text old new task_id, replace_text old new channel, replace_typed old new v,
         replace_text old new task_path))"

definition replace_checkpoints :: "string \<Rightarrow> string \<Rightarrow> checkpoints \<Rightarrow> checkpoints" where
  "replace_checkpoints old new cps =
     dict_merge [] (map (\<lambda>(cid, e). (replace_text old new cid, replace_entry old new e)) cps)"

definition replace_namespaces :: "string \<Rightarrow> string \<Rightarrow> namespaces \<Rightarrow> namespaces" where
  "replace_namespaces old new nss =
     dict_merge [] (map (\<lambda>(ns, cps). (replace_text old new ns, replace_checkpoints old new cps)) nss)"

text \<open>
  The dictionaries are copied through JSON, which makes plain dictionaries of \<open>defaultdict\<close>s and lists of
  tuples; a dictionary here has its entries only, so that the copy does not create missing namespaces on
  reading is not visible.
\<close>

definition copy_checkpoints :: "string \<Rightarrow> string \<Rightarrow> saver \<Rightarrow> saver" where
  "copy_checkpoints old new s =
     s\<lparr>storage := AList.update new (replace_namespaces old new (namespaces_of s old))
                   (if map_of (storage s) old = None then AList.update old [] (storage s) else storage s),
       sv_writes := dict_merge (sv_writes s)
         (map (\<lambda>((t, ns, cid), g). ((new, ns, cid), map (\<lambda>(k, w). (k, replace_write old new w)) g))
           (filter (\<lambda>(k, g). fst k = old) (sv_writes s))),
       sv_blobs := dict_merge (sv_blobs s)
         (map (\<lambda>((t, k), v). ((new, k), v)) (filter (\<lambda>(k, v). fst k = old) (sv_blobs s))),
       sizes := copy_thread old new (sizes s)\<rparr>"

lemma length_replace_text [simp]: "length new = length old \<Longrightarrow> length (replace_text old new s) = length s"
proof (induction old new s rule: replace_text.induct)
  case (2 old new c cs)
  then show ?case by (auto dest: prefix_length_le)
qed simp

lemma replaced_sizes [simp]:
  assumes len: "length new = length old"
  shows "typed_payload_size (replace_typed old new v) = typed_payload_size v"
    and "checkpoint_entry_size (replace_text old new cid) (replace_entry old new e) = checkpoint_entry_size cid e"
    and "write_size k (replace_write old new w) = write_size k w"
    and "write_group_size cid (map (\<lambda>(k, w). (k, replace_write old new w)) g) = write_group_size cid g"
proof -
  show typed: "typed_payload_size (replace_typed old new v) = typed_payload_size v" for v
    using len by (simp add: typed_payload_size_def replace_typed_def)
  show "checkpoint_entry_size (replace_text old new cid) (replace_entry old new e) = checkpoint_entry_size cid e"
    using len typed
    by (simp add: checkpoint_entry_size_def replace_entry_def opt_component_def split: prod.split option.split)
  show w: "write_size k (replace_write old new w) = write_size k w" for k w
    using len typed by (simp add: write_size_def replace_write_def split: prod.split)
  have "dsum write_size (map (\<lambda>(k, w). (k, replace_write old new w)) g) = dsum write_size g"
    by (induction g) (auto simp: w)
  then show "write_group_size cid (map (\<lambda>(k, w). (k, replace_write old new w)) g) = write_group_size cid g"
    by (simp add: write_group_size_def)
qed

lemma dict_merge_fresh:
  "wf_dict kvs \<Longrightarrow> fst ` set d \<inter> fst ` set kvs = {} \<Longrightarrow> dict_merge d kvs = d @ kvs"
proof (induction kvs arbitrary: d)
  case Nil
  then show ?case by (simp add: dict_merge_def)
next
  case (Cons kv kvs)
  obtain k v where kv: "kv = (k, v)" by (cases kv)
  have "dict_merge d (kv # kvs) = dict_merge (d @ [(k, v)]) kvs"
    using Cons.prems kv by (simp add: dict_merge_def update_new)
  with Cons kv show ?case by auto
qed

text \<open>Replacing the id does not make two namespaces, or two checkpoints of one, collide.\<close>

definition keys_stay_distinct :: "string \<Rightarrow> string \<Rightarrow> namespaces \<Rightarrow> bool" where
  "keys_stay_distinct old new nss \<longleftrightarrow>
     distinct (map (replace_text old new) (dkeys nss)) \<and>
     (\<forall>(ns, cps)\<in>set nss. distinct (map (replace_text old new) (dkeys cps)))"

definition unused_thread :: "saver \<Rightarrow> string \<Rightarrow> bool" where
  "unused_thread s tid \<longleftrightarrow> map_of (storage s) tid = None \<and>
     (\<forall>(k, g)\<in>set (sv_writes s). fst k \<noteq> tid) \<and> (\<forall>(k, v)\<in>set (sv_blobs s). fst k \<noteq> tid)"

lemma replace_checkpoints_eq:
  "distinct (map (replace_text old new) (dkeys cps)) \<Longrightarrow>
   replace_checkpoints old new cps = map (\<lambda>(cid, e). (replace_text old new cid, replace_entry old new e)) cps"
  unfolding replace_checkpoints_def
  by (subst dict_merge_fresh) (simp_all add: wf_dict_def case_prod_unfold comp_def)

lemma replace_namespaces_eq:
  "keys_stay_distinct old new nss \<Longrightarrow>
   replace_namespaces old new nss = map (\<lambda>(ns, cps). (replace_text old new ns, replace_checkpoints old new cps)) nss"
  unfolding replace_namespaces_def keys_stay_distinct_def
  by (subst dict_merge_fresh) (simp_all add: wf_dict_def case_prod_unfold comp_def)

lemma replace_checkpoints_size:
  assumes "length new = length old" and "distinct (map (replace_text old new) (dkeys cps))"
  shows "dsum checkpoint_entry_size (replace_checkpoints old new cps) = dsum checkpoint_entry_size cps"
    and "length (replace_checkpoints old new cps) = length cps"
proof -
  have "dsum checkpoint_entry_size (map (\<lambda>(cid, e). (replace_text old new cid, replace_entry old new e)) cps)
      = dsum checkpoint_entry_size cps"
    using assms(1) by (induction cps) auto
  with replace_checkpoints_eq[OF assms(2)]
  show "dsum checkpoint_entry_size (replace_checkpoints old new cps) = dsum checkpoint_entry_size cps"
    and "length (replace_checkpoints old new cps) = length cps" by simp_all
qed

lemma replace_namespaces_size:
  assumes len: "length new = length old" and "keys_stay_distinct old new nss"
  shows "dsum (\<lambda>_. dsum checkpoint_entry_size) (replace_namespaces old new nss) =
      dsum (\<lambda>_. dsum checkpoint_entry_size) nss"
    and "dsum (\<lambda>_ cps. int (length cps)) (replace_namespaces old new nss) = dsum (\<lambda>_ cps. int (length cps)) nss"
proof -
  have "\<forall>(ns, cps)\<in>set nss. distinct (map (replace_text old new) (dkeys cps))"
    using assms(2) by (simp add: keys_stay_distinct_def)
  then have "dsum (\<lambda>_. dsum checkpoint_entry_size)
      (map (\<lambda>(ns, cps). (replace_text old new ns, replace_checkpoints old new cps)) nss) =
      dsum (\<lambda>_. dsum checkpoint_entry_size) nss \<and>
    dsum (\<lambda>_ cps. int (length cps))
      (map (\<lambda>(ns, cps). (replace_text old new ns, replace_checkpoints old new cps)) nss) =
      dsum (\<lambda>_ cps. int (length cps)) nss"
    by (induction nss) (auto simp: replace_checkpoints_size[OF len])
  with replace_namespaces_eq[OF assms(2)]
  show "dsum (\<lambda>_. dsum checkpoint_entry_size) (replace_namespaces old new nss) =
      dsum (\<lambda>_. dsum checkpoint_entry_size) nss"
    and "dsum (\<lambda>_ cps. int (length cps)) (replace_namespaces old new nss) = dsum (\<lambda>_ cps. int (length cps)) nss"
    by simp_all
qed

text \<open>The copied part of a dictionary keyed by thread: all keys new, the same weight.\<close>

lemma copied_writes:
  assumes wf: "wf_dict d" and fresh: "\<forall>(k, g)\<in>set d. fst k \<noteq> new" and len: "length new = length old"
  defines "cp \<equiv> map (\<lambda>((t, ns, cid), g). ((new, ns, cid), map (\<lambda>(k, w). (k, replace_write old new w)) g))
      (filter (\<lambda>(k, g). fst k = old) d)"
  shows "wf_dict cp" and "dict_merge d cp = d @ cp"
    and "dsum (writes_weight t) cp = (if t = new then dsum (writes_weight old) d else 0)"
proof -
  have "distinct (map ((\<lambda>(t, ns, cid). (new, ns, cid)) \<circ> fst) (filter (\<lambda>(k, g). fst k = old) d))"
    using wf by (induction d) (auto simp: wf_dict_def image_iff)
  then show w: "wf_dict cp"
    by (simp add: cp_def wf_dict_def comp_def case_prod_unfold)
  show "dict_merge d cp = d @ cp"
    using fresh by (intro dict_merge_fresh[OF w]) (fastforce simp: cp_def)
  show "dsum (writes_weight t) cp = (if t = new then dsum (writes_weight old) d else 0)"
    unfolding cp_def by (induction d) (auto simp: writes_weight_def[abs_def] len)
qed

lemma copied_blobs:
  fixes d :: "(blob_key, typed) dict" and old new :: string
  assumes wf: "wf_dict d" and fresh: "\<forall>(k, v)\<in>set d. fst k \<noteq> new"
  defines "cp \<equiv> map (\<lambda>((t, k), v). ((new, k), v)) (filter (\<lambda>(k, v). fst k = old) d)"
  shows "wf_dict cp" and "dict_merge d cp = d @ cp"
    and "dsum (blob_weight t) cp = (if t = new then dsum (blob_weight old) d else 0)"
proof -
  have "distinct (map ((\<lambda>(t, k). (new, k)) \<circ> fst) (filter (\<lambda>(k, g). fst k = old) d))"
    using wf by (induction d) (auto simp: wf_dict_def image_iff)
  then show w: "wf_dict cp"
    by (simp add: cp_def wf_dict_def comp_def case_prod_unfold)
  show "dict_merge d cp = d @ cp"
    using fresh by (intro dict_merge_fresh[OF w]) (fastforce simp: cp_def)
  show "dsum (blob_weight t) cp = (if t = new then dsum (blob_weight old) d else 0)"
    unfolding cp_def by (induction d) (auto simp: blob_weight_def[abs_def])
qed

lemma unused_weights:
  "\<forall>(k, g)\<in>set (sv_writes s). fst k \<noteq> tid \<Longrightarrow> dsum (writes_weight tid) (sv_writes s) = 0"
  "\<forall>(k, v)\<in>set (sv_blobs s). fst k \<noteq> tid \<Longrightarrow> dsum (blob_weight tid) (sv_blobs s) = 0"
  by (rule trans[OF dsum_cong[where g = "\<lambda>_ _. 0"]]; force simp: writes_weight_def blob_weight_def)+

lemma copy_stored:
  assumes wf: "saver_wf s" and unused: "unused_thread s new" and ne: "new \<noteq> old"
    and len: "length new = length old" and dist: "keys_stay_distinct old new (namespaces_of s old)"
  shows "stored_bytes (copy_checkpoints old new s) t = (if t = new then stored_bytes s old else stored_bytes s t)"
    and "storage_count (copy_checkpoints old new s) t = (if t = new then storage_count s old else storage_count s t)"
    and "saver_wf (copy_checkpoints old new s)"
proof -
  let ?s' = "copy_checkpoints old new s"
  have wfd: "wf_dict (sv_writes s)" "wf_dict (sv_blobs s)" using wf by (simp_all add: saver_wf_def)
  have fw: "\<forall>(k, g)\<in>set (sv_writes s). fst k \<noteq> new" and fb: "\<forall>(k, v)\<in>set (sv_blobs s). fst k \<noteq> new"
    and st: "map_of (storage s) new = None"
    using unused by (auto simp: unused_thread_def)
  note cw = copied_writes[OF wfd(1) fw len] and cb = copied_blobs[OF wfd(2) fb, where old = old]
  have ns: "namespaces_of ?s' t = (if t = new then replace_namespaces old new (namespaces_of s old)
      else namespaces_of s t)" for t
    using ne by (simp add: copy_checkpoints_def namespaces_of_def dget_default_def dict_simps)
  have w: "dsum (writes_weight t) (sv_writes ?s') = dsum (writes_weight (if t = new then old else t)) (sv_writes s)" for t
    using cw unused_weights(1)[OF fw] by (simp add: copy_checkpoints_def)
  have b: "dsum (blob_weight t) (sv_blobs ?s') = dsum (blob_weight (if t = new then old else t)) (sv_blobs s)" for t
    using cb unused_weights(2)[OF fb] by (simp add: copy_checkpoints_def)
  show "stored_bytes ?s' t = (if t = new then stored_bytes s old else stored_bytes s t)"
    using replace_namespaces_size(1)[OF len dist] by (simp add: stored_bytes_def storage_bytes_def ns w b)
  show "storage_count ?s' t = (if t = new then storage_count s old else storage_count s t)"
    using replace_namespaces_size(2)[OF len dist] by (simp add: storage_count_def ns)
  have rc: "wf_dict (replace_checkpoints old new cps)" for cps
    by (simp add: replace_checkpoints_def wf_dict_merge)
  have rn: "wf_dict (replace_namespaces old new nss)" for nss
    by (simp add: replace_namespaces_def wf_dict_merge)
  have rns: "\<forall>(ns, cps)\<in>set (replace_namespaces old new (namespaces_of s old)). wf_dict cps"
    using rc by (auto simp: replace_namespaces_eq[OF dist])
  have wfs: "wf_dict (storage s)" "\<forall>(tid, nss)\<in>set (storage s). wf_dict nss \<and> (\<forall>(ns, cps)\<in>set nss. wf_dict cps)"
    using wf by (simp_all add: saver_wf_def)
  show "saver_wf ?s'"
    unfolding saver_wf_def copy_checkpoints_def
    using wfs wfd rn rns by (auto dest!: set_update_mem)
qed

lemma copy_inv:
  assumes inv: "saver_inv s" and unused: "unused_thread s new" and ne: "new \<noteq> old"
    and len: "length new = length old" and dist: "keys_stay_distinct old new (namespaces_of s old)"
  shows "saver_inv (copy_checkpoints old new s)"
proof -
  have wf: "saver_wf s" and led: "size_state_inv (sizes s)"
    and ex: "\<And>t. thread_entry (sizes s) t = (stored_bytes s t, storage_count s t)"
    using inv by (auto simp: saver_inv_def ledger_exact_def)
  have sz: "sizes (copy_checkpoints old new s) = copy_thread old new (sizes s)"
    by (simp add: copy_checkpoints_def)
  show ?thesis
    using copy_stored[OF wf unused ne len dist] led ex
    by (simp add: saver_inv_def ledger_exact_def sz copy_thread_inv thread_entry_copy)
qed

section \<open>Sequences of operations\<close>

datatype saver_op =
    SPut put_call
  | SPutWrites writes_call
  | SDeleteThread string
  | SDeleteRun string string
  | SPrune "string list" string
  | SCopy string string
  | SRebuild
  | SClear

text \<open>One operation on the saver; \<open>None\<close> is a call that does not return.\<close>

fun saver_step :: "saver_env \<Rightarrow> saver_op \<Rightarrow> saver \<Rightarrow> saver option" where
  "saver_step E (SPut c) s = Some (snd (saver_put E c s))"
| "saver_step E (SPutWrites c) s = Some (saver_put_writes E c s)"
| "saver_step E (SDeleteThread tid) s = Some (saver_delete_thread E tid s)"
| "saver_step E (SDeleteRun tid rid) s = Some (delete_run_checkpoints E tid rid s)"
| "saver_step E (SPrune tids strategy) s = map_option snd (saver_prune E tids strategy s)"
| "saver_step E (SCopy old new) s = Some (copy_checkpoints old new s)"
| "saver_step E SRebuild s = Some (rebuild_size_tracking s)"
| "saver_step E SClear s = Some (saver_clear s)"

text \<open>
  When an operation is called the way the runtime calls it: \<open>new_versions\<close> is a dictionary, a
  thread is copied under a fresh id of the same length.
\<close>

fun op_allowed :: "saver_op \<Rightarrow> saver \<Rightarrow> bool" where
  "op_allowed (SPut c) s = wf_dict (pc_new_versions c)"
| "op_allowed (SCopy old new) s =
     (unused_thread s new \<and> new \<noteq> old \<and> length new = length old \<and>
      keys_stay_distinct old new (namespaces_of s old))"
| "op_allowed _ s = True"

fun run_saver :: "saver_env \<Rightarrow> saver_op list \<Rightarrow> saver \<Rightarrow> saver option" where
  "run_saver E [] s = Some s"
| "run_saver E (x # xs) s =
     (case saver_step E x s of None \<Rightarrow> None | Some s' \<Rightarrow> run_saver E xs s')"

fun all_allowed :: "saver_env \<Rightarrow> saver_op list \<Rightarrow> saver \<Rightarrow> bool" where
  "all_allowed E [] s = True"
| "all_allowed E (x # xs) s =
     (op_allowed x s \<and> (case saver_step E x s of None \<Rightarrow> True | Some s' \<Rightarrow> all_allowed E xs s'))"

lemma saver_inv_init: "saver_inv saver_init"
  using size_state_inv_init
  by (simp add: saver_inv_def saver_init_def saver_wf_def ledger_exact_def
      stored_bytes_def storage_bytes_def storage_count_def namespaces_of_def dget_default_def
      thread_entry_def size_state_init_def)

lemma saver_step_inv:
  assumes base: "base_saver_ok E" and "saver_inv s" and "op_allowed x s" and "saver_step E x s = Some s'"
  shows "saver_inv s'"
proof (cases x)
  case (SPut c)
  with assms show ?thesis using saver_put_inv by (fastforce simp: base_saver_ok_def)
next
  case (SPrune tids strategy)
  with assms show ?thesis by (auto simp: base_saver_ok_def intro: saver_prune_inv)
next
  case SRebuild
  with assms rebuild_inv[of s] show ?thesis by (simp add: saver_inv_def)
qed (use assms in \<open>auto simp: base_saver_ok_def intro: saver_put_writes_inv saver_delete_thread_inv
      delete_run_inv copy_inv saver_clear_inv\<close>)

lemma run_saver_inv:
  "base_saver_ok E \<Longrightarrow> saver_inv s \<Longrightarrow> all_allowed E xs s \<Longrightarrow> run_saver E xs s = Some s' \<Longrightarrow> saver_inv s'"
  by (induction xs arbitrary: s) (auto split: option.splits intro: saver_step_inv)

lemma filter_parents_decrease: "parents_decrease cps \<Longrightarrow> parents_decrease (filter P cps)"
  by (simp add: parents_decrease_def)

text \<open>Every stored checkpoint has a smaller parent id: no walk over parents can cycle.\<close>

definition saver_acyclic :: "saver \<Rightarrow> bool" where
  "saver_acyclic s \<longleftrightarrow> (\<forall>(tid, nss)\<in>set (storage s). \<forall>(ns, cps)\<in>set nss. parents_decrease cps)"

lemma saver_acyclic_mem:
  "saver_acyclic s \<Longrightarrow> \<forall>(ns, cps)\<in>set (namespaces_of s tid). parents_decrease cps"
  using bspec[of "set (storage s)" "\<lambda>(tid, nss). \<forall>(ns, cps)\<in>set nss. parents_decrease cps"]
  by (cases "map_of (storage s) tid")
    (auto simp: saver_acyclic_def namespaces_of_def dget_default_def dest!: map_of_SomeD)

lemma prune_namespaces_acyclic:
  "prune_namespaces E s tid nss = Some r \<Longrightarrow> \<forall>(ns, cps)\<in>set nss. parents_decrease cps \<Longrightarrow>
   \<forall>(ns, cps)\<in>set (pr_namespaces r). parents_decrease cps"
proof (induction nss arbitrary: r)
  case Nil
  then show ?case by auto
next
  case (Cons x nss)
  obtain ns cps where x: "x = (ns, cps)" by (cases x)
  show ?case
  proof (cases "cps = []")
    case True
    with Cons x show ?thesis by simp
  next
    case False
    with Cons.prems x obtain ids r' where
      "prune_namespaces E s tid nss = Some r'" and "r = keep_namespace E tid ns cps ids r'"
      by (auto split: option.splits)
    with Cons x show ?thesis by (simp add: keep_namespace_def Let_def filter_parents_decrease)
  qed
qed
lemma prune_thread_acyclic:
  assumes "saver_acyclic s" and "prune_thread E tid s = Some s'"
  shows "saver_acyclic s'"
proof (cases "namespaces_of s tid = []")
  case True
  with assms show ?thesis by (simp add: prune_thread_def)
next
  case False
  with assms(2) obtain r where r: "prune_namespaces E s tid (namespaces_of s tid) = Some r"
    and st: "storage s' = AList.update tid (pr_namespaces r) (storage s)"
    by (auto simp: prune_thread_def Let_def split: option.splits)
  note kept = prune_namespaces_acyclic[OF r saver_acyclic_mem[OF assms(1)]]
  show ?thesis
    unfolding saver_acyclic_def
  proof (intro ballI, clarify)
    fix t nss ns cps
    assume "(t, nss) \<in> set (storage s')" and cps: "(ns, cps) \<in> set nss"
    then have "(t, nss) \<in> set (storage s) \<or> nss = pr_namespaces r"
      unfolding st by (auto dest!: set_update_mem)
    then show "parents_decrease cps" using kept assms(1) cps by (auto simp: saver_acyclic_def)
  qed
qed

lemma prune_threads_returns:
  "saver_acyclic s \<Longrightarrow> \<exists>s'. prune_threads E tids s = Some s'"
proof (induction tids arbitrary: s)
  case Nil
  then show ?case by simp
next
  case (Cons tid tids)
  obtain s1 where s1: "prune_thread E tid s = Some s1"
    using prune_thread_returns[OF saver_acyclic_mem[OF Cons.prems]] by blast
  then show ?case using Cons.IH[OF prune_thread_acyclic[OF Cons.prems s1]] by simp
qed

section \<open>A concrete saver\<close>

text \<open>
  An instance of the third-party interface, used to show that the hypotheses can hold: a payload is
  its own channel version for the single channel \<open>x\<close>, and checkpoint payloads are the ids.
\<close>

definition demo_env :: saver_env where
  "demo_env = \<lparr>
     loads_versions = (\<lambda>v. [(''x'', CStr (snd v))]),
     loads_metadata = (\<lambda>v. [(''run_id'', PStr (snd v))]),
     base_put = (\<lambda>c s.
       (store_entry (pc_thread_id c) (pc_checkpoint_ns c) (pc_checkpoint_id c)
          ((''j'', pc_checkpoint_id c), (''j'', ''r''), pc_parent_id c) s)
         \<lparr>sv_blobs := dict_merge (sv_blobs s)
            (map (\<lambda>(ch, ver). ((pc_thread_id c, pc_checkpoint_ns c, ch, ver), (''m'', ''abc'')))
              (pc_new_versions c))\<rparr>),
     base_put_writes = (\<lambda>c s.
       s\<lparr>sv_writes := AList.update (wc_thread_id c, wc_checkpoint_ns c, wc_checkpoint_id c)
           [((wc_task_id c, 0), (wc_task_id c, ''x'', (''m'', ''w''), wc_task_path c))] (sv_writes s)\<rparr>),
     base_delete_thread = drop_thread\<rparr>"

lemma demo_env_ok: "base_saver_ok demo_env"
proof -
  have keys: "dkeys (map (\<lambda>(ch, ver). ((t, ns, ch, ver), v)) nv) = map (\<lambda>(ch, ver). (t, ns, ch, ver)) nv"
    for t ns :: string and v :: typed and nv :: "(string, component) dict"
    by (induction nv) auto
  have "base_put_ok demo_env"
    unfolding base_put_ok_def demo_env_def saver_env.simps using keys by blast
  moreover have "base_put_writes_ok demo_env"
    unfolding base_put_writes_ok_def demo_env_def saver_env.simps by blast
  ultimately show ?thesis
    by (simp add: base_saver_ok_def base_delete_ok_def demo_env_def)
qed

definition demo_put :: "string \<Rightarrow> string \<Rightarrow> string option \<Rightarrow> (string, component) dict \<Rightarrow> put_call" where
  "demo_put tid cid parent versions =
     \<lparr>pc_thread_id = tid, pc_checkpoint_ns = '''', pc_checkpoint_id = cid, pc_parent_id = parent,
      pc_configurable = [], pc_config_metadata = [], pc_metadata = [], pc_checkpoint = PNone,
      pc_new_versions = versions\<rparr>"

definition demo_ops :: "saver_op list" where
  "demo_ops = [SPut (demo_put ''t'' ''1'' None [(''x'', CStr ''1'')]),
               SPut (demo_put ''t'' ''2'' (Some ''1'') [(''x'', CStr ''2'')]),
               SPut (demo_put ''t'' ''3'' (Some ''2'') []),
               SPutWrites \<lparr>wc_thread_id = ''t'', wc_checkpoint_ns = '''', wc_checkpoint_id = ''3'',
                           wc_writes = [], wc_task_id = ''k'', wc_task_path = ''''\<rparr>,
               SPrune [''t''] ''keep_latest'']"

section \<open>Properties\<close>

text \<open>
  C8. The size ledger is exact. After any sequence of saver operations from an empty saver, the
  ledger of a thread holds exactly the bytes stored under it (checkpoint entries, pending writes and
  blobs) and the number of its checkpoints, and the total is the sum over the recorded threads.
\<close>

theorem saver_ledger_exact:
  assumes "base_saver_ok E" and "all_allowed E ops saver_init" and "run_saver E ops saver_init = Some s"
  shows "thread_entry (sizes s) tid = (stored_bytes s tid, storage_count s tid) \<and>
    ss_total_bytes (sizes s) = (\<Sum>t\<in>fst ` set (by_thread (sizes s)). stored_bytes s t)"
proof -
  have inv: "saver_inv s" by (rule run_saver_inv[OF assms(1) saver_inv_init assms(2,3)])
  then have entry: "thread_entry (sizes s) t = (stored_bytes s t, storage_count s t)" for t
    by (simp add: saver_inv_def ledger_exact_def)
  have "size_state_inv (sizes s)" using inv by (simp add: saver_inv_def)
  from ckpt.total_sum[OF this] entry show ?thesis by (simp add: thread_bytes_def)
qed

theorem saver_ledger_exact_witness:
  "\<exists>s. run_saver demo_env demo_ops saver_init = Some s \<and> thread_entry (sizes s) ''t'' = (25, 2) \<and>
     thread_entry (sizes s) ''t'' = (stored_bytes s ''t'', storage_count s ''t'')"
proof -
  have allowed: "all_allowed demo_env demo_ops saver_init" by code_simp
  have val: "map_option (\<lambda>s. thread_entry (sizes s) ''t'') (run_saver demo_env demo_ops saver_init) = Some (25, 2)"
    by code_simp
  then obtain s where run: "run_saver demo_env demo_ops saver_init = Some s"
    and entry: "thread_entry (sizes s) ''t'' = (25, 2)" by auto
  from saver_ledger_exact[OF demo_env_ok allowed run, of "''t''"] run entry show ?thesis by blast
qed

text \<open>
  C9. Pruning keeps exactly the retained chain. After \<open>keep_latest\<close> on a thread, a checkpoint entry
  and its writes survive unchanged exactly when it is the newest of its namespace or lies on the
  parent chain of a channel the newest one does not materialise, up to the first checkpoint that
  does; the blobs those checkpoints name survive with them, and no other thread changes.
\<close>

theorem prune_keeps_exactly_the_chain:
  assumes "saver_wf s" and "prune_thread E tid s = Some s'" and "namespaces_of s tid \<noteq> []"
  shows "lookup_entry s' t ns cid =
      (if t = tid \<and> \<not> retained E s tid ns cid then None else lookup_entry s t ns cid) \<and>
    map_of (sv_writes s') (t, ns, cid) =
      (if t = tid \<and> \<not> retained E s tid ns cid then None else map_of (sv_writes s) (t, ns, cid)) \<and>
    map_of (sv_blobs s') (t, ns, ch, ver) =
      (if t = tid \<and> \<not> (\<exists>(cid, e)\<in>set (dget_default (namespaces_of s tid) ns []).
            retained E s tid ns cid \<and> (ch, ver) \<in> set (entry_versions E e))
       then None else map_of (sv_blobs s) (t, ns, ch, ver))"
  using prune_thread_entry[OF assms(1,2)] prune_thread_writes[OF assms] prune_thread_blobs[OF assms] by blast

definition demo_saver :: saver where
  "demo_saver = (case run_saver demo_env (take 4 demo_ops) saver_init of None \<Rightarrow> saver_init | Some s \<Rightarrow> s)"

lemma demo_saver_wf: "saver_wf demo_saver"
proof -
  have "all_allowed demo_env (take 4 demo_ops) saver_init" by code_simp
  then have "run_saver demo_env (take 4 demo_ops) saver_init = Some s \<Longrightarrow> saver_inv s" for s
    by (rule run_saver_inv[OF demo_env_ok saver_inv_init])
  then show ?thesis
    using saver_inv_init by (auto simp: demo_saver_def saver_inv_def split: option.split)
qed

theorem prune_keeps_exactly_the_chain_witness:
  "\<exists>s'. prune_thread demo_env ''t'' demo_saver = Some s' \<and> lookup_entry s' ''t'' '''' ''1'' = None \<and>
     \<not> retained demo_env demo_saver ''t'' '''' ''1''"
proof -
  have val: "map_option (\<lambda>s. lookup_entry s ''t'' '''' ''1'') (prune_thread demo_env ''t'' demo_saver) = Some None"
    by code_simp
  then obtain s' where run: "prune_thread demo_env ''t'' demo_saver = Some s'"
    and gone: "lookup_entry s' ''t'' '''' ''1'' = None" by auto
  have ne: "namespaces_of demo_saver ''t'' \<noteq> []" by code_simp
  have "lookup_entry demo_saver ''t'' '''' ''1'' \<noteq> None" by code_simp
  with prune_keeps_exactly_the_chain[OF demo_saver_wf run ne, of "''t''" "''''" "''1''"] gone run
  show ?thesis by (metis)
qed

text \<open>
  C21. Pruning returns. When every stored checkpoint has a smaller id than its children (the order
  the source relies on), \<open>prune\<close> returns for every list of threads and every strategy: it raises
  \<open>ValueError\<close> and changes nothing for an unknown strategy, and succeeds otherwise.
\<close>

theorem prune_returns:
  assumes "saver_acyclic s"
  shows "\<exists>s'. saver_prune E tids strategy s =
    (if strategy \<in> {''delete'', ''delete_all'', ''keep_latest''} then Some (Inr (), s') else Some (Inl value_error, s))"
  using prune_threads_returns[OF assms, of E tids] by (auto simp: saver_prune_def)

theorem prune_returns_witness:
  "saver_acyclic demo_saver \<and> (\<exists>s'. saver_prune demo_env [''t''] ''keep_latest'' demo_saver = Some (Inr (), s'))"
proof -
  have acyclic: "saver_acyclic demo_saver" by code_simp
  from prune_returns[OF this, of demo_env "[''t'']" "''keep_latest''"] acyclic show ?thesis by simp
qed

text \<open>
  Transient keys are never persisted. The metadata handed to the base class holds, for a key of
  \<open>_TRANSIENT_CONFIGURABLE_KEYS\<close>, nothing; for any other key the value of the last of
  configurable, config metadata and metadata that has it, where configurable loses its private and
  identifying keys.
\<close>

theorem checkpoint_metadata_exact:
  assumes "wf_dict (pc_config_metadata c)" and "wf_dict (pc_metadata c)"
  shows "map_of (checkpoint_metadata c) k =
    (if k \<in> set transient_configurable_keys then None
     else case map_of (pc_metadata c) k of Some v \<Rightarrow> Some v
     | None \<Rightarrow> (case map_of (pc_config_metadata c) k of Some v \<Rightarrow> Some v
       | None \<Rightarrow> (if prefix ''__'' k \<or> k \<in> set excluded_keys then None else map_of (pc_configurable c) k)))"
  by (rule map_of_checkpoint_metadata[OF assms])

theorem checkpoint_metadata_exact_witness:
  "map_of (checkpoint_metadata ((demo_put ''t'' ''1'' None [])
     \<lparr>pc_metadata := [(''langgraph_auth_user'', PNone), (''step'', PInt 1)]\<rparr>)) ''langgraph_auth_user'' = None"
proof -
  let ?c = "(demo_put ''t'' ''1'' None [])
     \<lparr>pc_metadata := [(''langgraph_auth_user'', PNone), (''step'', PInt 1)]\<rparr>"
  have 1: "wf_dict (pc_config_metadata ?c)" by (simp add: demo_put_def)
  have 2: "wf_dict (pc_metadata ?c)" by (simp add: demo_put_def)
  show ?thesis
    using checkpoint_metadata_exact[OF 1 2, of "''langgraph_auth_user''"]
    by (simp add: transient_configurable_keys_def)
qed

lemma copy_namespaces_eq:
  assumes "new \<noteq> old" and "keys_stay_distinct old new (namespaces_of s old)"
  shows "namespaces_of (copy_checkpoints old new s) new =
    map (\<lambda>(ns, cps). (replace_text old new ns,
           map (\<lambda>(cid, e). (replace_text old new cid, replace_entry old new e)) cps)) (namespaces_of s old)"
proof -
  have "namespaces_of (copy_checkpoints old new s) new = replace_namespaces old new (namespaces_of s old)"
    using assms(1) by (simp add: copy_checkpoints_def namespaces_of_def dget_default_def dict_simps)
  then show ?thesis
    using assms(2) replace_namespaces_eq[OF assms(2)]
    by (auto simp: keys_stay_distinct_def intro!: replace_checkpoints_eq)
qed

text \<open>
  C20. A copied thread is a renamed copy, accounted in full. Copying a thread's checkpoints under a
  fresh id of the same length stores its namespaces and entries with the id replaced throughout,
  gives the copy the ledger entry of its source, leaves every other thread's entry alone, and keeps
  the ledger exact.
\<close>

theorem copy_checkpoints_exact:
  assumes "saver_inv s" and "unused_thread s new" and "new \<noteq> old" and "length new = length old"
    and "keys_stay_distinct old new (namespaces_of s old)"
  shows "saver_inv (copy_checkpoints old new s) \<and>
    namespaces_of (copy_checkpoints old new s) new =
      map (\<lambda>(ns, cps). (replace_text old new ns,
             map (\<lambda>(cid, e). (replace_text old new cid, replace_entry old new e)) cps)) (namespaces_of s old) \<and>
    thread_entry (sizes (copy_checkpoints old new s)) t =
      thread_entry (sizes s) (if t = new then old else t)"
  using copy_inv[OF assms] copy_namespaces_eq[OF assms(3,5)]
  by (simp add: copy_checkpoints_def thread_entry_copy)

lemma demo_saver_inv: "saver_inv demo_saver"
proof -
  have "all_allowed demo_env (take 4 demo_ops) saver_init" by code_simp
  then have "run_saver demo_env (take 4 demo_ops) saver_init = Some s \<Longrightarrow> saver_inv s" for s
    by (rule run_saver_inv[OF demo_env_ok saver_inv_init])
  then show ?thesis
    using saver_inv_init by (auto simp: demo_saver_def split: option.split)
qed

theorem copy_checkpoints_exact_witness:
  "thread_entry (sizes (copy_checkpoints ''t'' ''u'' demo_saver)) ''u'' = (36, 3)"
proof -
  have 1: "unused_thread demo_saver ''u''" by code_simp
  have 2: "keys_stay_distinct ''t'' ''u'' (namespaces_of demo_saver ''t'')" by code_simp
  have 3: "thread_entry (sizes demo_saver) ''t'' = (36, 3)" by code_simp
  show ?thesis
    using copy_checkpoints_exact[OF demo_saver_inv 1 _ _ 2, of "''u''"] 3 by simp
qed

lemma lookup_without_run:
  "wf_dict nss \<Longrightarrow>
   map_of (dget_default
     (map (\<lambda>(ns, cps). (ns, without_run E rid cps))
       (filter (\<lambda>(ns, cps). cps = [] \<or> without_run E rid cps \<noteq> []) nss)) ns []) cid =
   map_of (without_run E rid (dget_default nss ns [])) cid"
proof (induction nss)
  case Nil
  then show ?case by (simp add: dget_default_def without_run_def)
next
  case (Cons x nss)
  obtain ns' cps where x: "x = (ns', cps)" by (cases x)
  have none: "dget_default nss ns' [] = []" if "ns' \<notin> fst ` set nss"
    using that by (simp add: dget_default_def map_of_eq_None_iff[THEN iffD2])
  show ?case using Cons x none by (auto simp: dget_default_def without_run_def)
qed


lemma fold_discard_parts:
  "storage (fold (\<lambda>(cid, e). discard_checkpoint_size tid cid e) d s) = storage s"
  "sv_writes (fold (\<lambda>(cid, e). discard_checkpoint_size tid cid e) d s) = sv_writes s"
  "sv_blobs (fold (\<lambda>(cid, e). discard_checkpoint_size tid cid e) d s) = sv_blobs s"
  by (induction d arbitrary: s) (auto simp: discard_checkpoint_size_def)

lemma map_of_without_run:
  "wf_dict cps \<Longrightarrow> map_of (without_run E rid cps) cid =
     (case map_of cps cid of None \<Rightarrow> None | Some e \<Rightarrow> if of_run E rid e then None else Some e)"
proof (induction cps)
  case Nil
  then show ?case by (simp add: without_run_def)
next
  case (Cons x cps)
  obtain k e where x: "x = (k, e)" by (cases x)
  have "map_of cps k = None" using Cons.prems x by (simp add: map_of_eq_None_iff)
  with Cons x show ?case by (auto simp: without_run_def split: option.splits)
qed

text \<open>
  Deleting a run's checkpoints removes all of them and nothing else: an entry of the thread is
  gone exactly when its metadata names the run, other threads keep theirs, writes and blobs are not
  touched, and the ledger stays exact.
\<close>

theorem delete_run_checkpoints_exact:
  assumes "saver_inv s"
  shows "saver_inv (delete_run_checkpoints E tid rid s) \<and>
    lookup_entry (delete_run_checkpoints E tid rid s) t ns cid =
      (case lookup_entry s t ns cid of
         None \<Rightarrow> None
       | Some e \<Rightarrow> if t = tid \<and> of_run E rid e then None else Some e) \<and>
    sv_writes (delete_run_checkpoints E tid rid s) = sv_writes s \<and>
    sv_blobs (delete_run_checkpoints E tid rid s) = sv_blobs s"
proof -
  have wf: "saver_wf s" using assms by (simp add: saver_inv_def)
  have "lookup_entry (delete_run_checkpoints E tid rid s) t ns cid =
      (case lookup_entry s t ns cid of
         None \<Rightarrow> None | Some e \<Rightarrow> if t = tid \<and> of_run E rid e then None else Some e)"
  proof (cases "t = tid \<and> map_of (storage s) tid \<noteq> None")
    case False
    then show ?thesis
      by (auto simp: delete_run_checkpoints_def lookup_entry_def namespaces_of_def dget_default_def Let_def
          dict_simps fold_discard_parts split: option.splits)
  next
    case True
    then obtain nss where nss: "map_of (storage s) tid = Some nss" by blast
    then have ns: "namespaces_of s tid = nss" by (simp add: namespaces_of_def dget_default_def)
    have "namespaces_of (delete_run_checkpoints E tid rid s) tid =
        map (\<lambda>(ns, cps). (ns, without_run E rid cps))
          (filter (\<lambda>(ns, cps). cps = [] \<or> without_run E rid cps \<noteq> []) nss)"
      using nss by (simp add: delete_run_checkpoints_def namespaces_of_def dget_default_def Let_def dict_simps)
    moreover have "t = tid" using True by simp
    ultimately show ?thesis
      using lookup_without_run[of nss E rid ns cid] wf_namespaces[OF wf, of tid]
        map_of_without_run[OF wf_checkpoints_get[OF wf], of E rid tid ns cid]
      by (simp add: lookup_entry_def ns split: option.split)
  qed
  then show ?thesis
    using delete_run_inv[OF assms]
    by (auto simp: delete_run_checkpoints_def Let_def fold_discard_parts split: option.split)
qed

theorem delete_run_checkpoints_exact_witness:
  "lookup_entry (delete_run_checkpoints demo_env ''t'' ''r'' demo_saver) ''t'' '''' ''1'' = None"
proof -
  have stored: "lookup_entry demo_saver ''t'' '''' ''1'' = Some ((''j'', ''1''), (''j'', ''r''), None)"
    by code_simp
  have named: "of_run demo_env ''r'' ((''j'', ''1''), (''j'', ''r''), None)" by code_simp
  show ?thesis
    using delete_run_checkpoints_exact[OF demo_saver_inv, of demo_env "''t''" "''r''" "''t''" "''''" "''1''"]
      stored named by simp
qed

end
