(* ===== verification/Filters.thy ===== *)
theory Filters
  imports Values
begin

text \<open>
  The authorization filters of \<open>ops.py\<close>: \<open>_validate_filter_structure\<close> and
  \<open>_check_filter_match\<close>, with the nesting limit, the validation of every group before any is
  evaluated, the short-circuiting of \<open>$or\<close> and \<open>$and\<close> and every way they raise. The abstract
  specification \<open>filter_sat\<close> reads a filter as a formula, with no levels and no order of
  evaluation; the lemmas show that the code computes it whenever it returns.

  The source counts a nesting level up from 0 and raises above 2; the definitions carry the
  remaining depth down from 3 and raise at 0, so level \<open>l\<close> is depth \<open>3 - l\<close>.
\<close>

section \<open>The code\<close>

definition max_filter_depth :: nat where
  "max_filter_depth = 3"

text \<open>The Python expressions \<open>key in filters\<close>, \<open>filters[key]\<close> and the dictionary without one key.\<close>

definition key_in :: "string \<Rightarrow> pyval \<Rightarrow> bool res" where
  "key_in k f =
     (case f of
        PDict d \<Rightarrow> Inr (k \<in> fst ` set d)
      | PList xs \<Rightarrow> Inr (\<exists>x\<in>set xs. py_eq x (PStr k))
      | PStr s \<Rightarrow> Inr (sublist k s)
      | _ \<Rightarrow> Inl type_error)"

definition get_item :: "pyval \<Rightarrow> string \<Rightarrow> pyval res" where
  "get_item f k =
     (case f of
        PDict d \<Rightarrow> (case map_of d k of None \<Rightarrow> Inl key_error | Some v \<Rightarrow> Inr v)
      | _ \<Rightarrow> Inl type_error)"

definition without_key :: "string \<Rightarrow> pyval \<Rightarrow> pyval" where
  "without_key k f = (case f of PDict d \<Rightarrow> PDict (filter (\<lambda>(k', v). k' \<noteq> k) d) | _ \<Rightarrow> PDict [])"

text \<open>The operand of \<open>$or\<close> and \<open>$and\<close>: a list of at least two groups, or a 500 response.\<close>

definition group_list :: "pyval \<Rightarrow> pyval list res" where
  "group_list v =
     (case v of
        PList gs \<Rightarrow> if length gs \<ge> 2 then Inr gs else Inl (HTTPException 500)
      | _ \<Rightarrow> Inl (HTTPException 500))"

text \<open>One of the two operator blocks of \<open>_validate_filter_structure\<close>.\<close>

definition validate_operator :: "(pyval \<Rightarrow> unit res) \<Rightarrow> string \<Rightarrow> pyval \<Rightarrow> unit res" where
  "validate_operator recurse k f =
     bind_res (key_in k f) (\<lambda>present.
       if \<not> present then Inr ()
       else bind_res (bind_res (get_item f k) group_list) (\<lambda>groups.
         bind_res (iter_res recurse groups) (\<lambda>_.
           let rest = without_key k f
           in if truthy rest then recurse rest else Inr ())))"

primrec validate_filter :: "nat \<Rightarrow> pyval \<Rightarrow> unit res" where
  "validate_filter 0 f = Inl (HTTPException 500)"
| "validate_filter (Suc depth) f =
     (if \<not> truthy f then Inr ()
      else bind_res (validate_operator (validate_filter depth) ''$or'' f) (\<lambda>_.
             validate_operator (validate_filter depth) ''$and'' f))"

text \<open>One entry of a plain filter: \<open>$eq\<close>, \<open>$contains\<close> or direct equality.\<close>

definition match_entry :: "pdict \<Rightarrow> string \<Rightarrow> pyval \<Rightarrow> bool res" where
  "match_entry metadata key v =
     (case v of
        PDict [] \<Rightarrow> Inl (PyError ''StopIteration'')
      | PDict ((op, arg) # more) \<Rightarrow>
          Inr (if op = ''$eq'' then
                 (case map_of metadata key of None \<Rightarrow> False | Some w \<Rightarrow> py_eq w arg)
               else if op = ''$contains'' then
                 (case map_of metadata key of
                    Some (PList ws) \<Rightarrow>
                      (case arg of
                         PList elements \<Rightarrow> \<forall>e\<in>set elements. \<exists>w\<in>set ws. py_eq e w
                       | _ \<Rightarrow> \<exists>w\<in>set ws. py_eq arg w)
                  | _ \<Rightarrow> False)
               else True)
      | _ \<Rightarrow> Inr (case map_of metadata key of None \<Rightarrow> False | Some w \<Rightarrow> py_eq w v))"

definition match_plain :: "pdict \<Rightarrow> pyval \<Rightarrow> bool res" where
  "match_plain metadata f =
     (case f of
        PDict d \<Rightarrow> all_res (\<lambda>(key, v). match_entry metadata key v) d
      | _ \<Rightarrow> Inl attribute_error)"

text \<open>The \<open>$or\<close> and \<open>$and\<close> branches: validate all groups, match them, then the remaining keys.\<close>

definition match_groups ::
  "(pyval \<Rightarrow> unit res) \<Rightarrow> (pyval \<Rightarrow> bool res) \<Rightarrow>
   ((pyval \<Rightarrow> bool res) \<Rightarrow> pyval list \<Rightarrow> bool res) \<Rightarrow> string \<Rightarrow> pyval \<Rightarrow> bool res" where
  "match_groups validate check quantify k f =
     bind_res (bind_res (get_item f k) group_list) (\<lambda>groups.
     bind_res (iter_res validate groups) (\<lambda>_.
     bind_res (quantify check groups) (\<lambda>matched.
       if \<not> matched then Inr False
       else (let rest = without_key k f
             in if truthy rest then check rest else Inr True))))"

primrec check_filter :: "nat \<Rightarrow> pdict \<Rightarrow> pyval \<Rightarrow> bool res" where
  "check_filter 0 metadata f = Inl (HTTPException 500)"
| "check_filter (Suc depth) metadata f =
     (if \<not> truthy f then Inr True
      else bind_res (key_in ''$or'' f) (\<lambda>has_or.
        if has_or then
          match_groups (validate_filter depth) (check_filter depth metadata) any_res ''$or'' f
        else bind_res (key_in ''$and'' f) (\<lambda>has_and.
          if has_and then
            match_groups (validate_filter depth) (check_filter depth metadata) all_res ''$and'' f
          else match_plain metadata f)))"

definition check_filter_match :: "pdict \<Rightarrow> pyval \<Rightarrow> bool res" where
  "check_filter_match metadata filters = check_filter max_filter_depth metadata filters"

section \<open>The specification\<close>

definition entry_sat :: "pdict \<Rightarrow> string \<Rightarrow> pyval \<Rightarrow> bool" where
  "entry_sat metadata key v \<longleftrightarrow> match_entry metadata key v = Inr True"

text \<open>
  A filter as a formula: a dictionary is the conjunction of its entries, \<open>$or\<close> a disjunction,
  \<open>$and\<close> a conjunction, anything falsy is true.
\<close>

fun filter_sat :: "pdict \<Rightarrow> pyval \<Rightarrow> bool"
  and entries_sat :: "pdict \<Rightarrow> (string \<times> pyval) list \<Rightarrow> bool"
  and some_sat :: "pdict \<Rightarrow> pyval list \<Rightarrow> bool"
  and every_sat :: "pdict \<Rightarrow> pyval list \<Rightarrow> bool" where
  "filter_sat m (PDict d) = entries_sat m d"
| "filter_sat m f = (\<not> truthy f)"
| "entries_sat m [] = True"
| "entries_sat m (kv # d) =
     ((if fst kv = ''$or'' then (case snd kv of PList gs \<Rightarrow> some_sat m gs | _ \<Rightarrow> False)
       else if fst kv = ''$and'' then (case snd kv of PList gs \<Rightarrow> every_sat m gs | _ \<Rightarrow> False)
       else entry_sat m (fst kv) (snd kv))
      \<and> entries_sat m d)"
| "some_sat m [] = False"
| "some_sat m (g # gs) = (filter_sat m g \<or> some_sat m gs)"
| "every_sat m [] = True"
| "every_sat m (g # gs) = (filter_sat m g \<and> every_sat m gs)"

definition item_sat :: "pdict \<Rightarrow> string \<times> pyval \<Rightarrow> bool" where
  "item_sat m kv = entries_sat m [kv]"

lemma some_sat_iff: "some_sat m gs \<longleftrightarrow> (\<exists>g\<in>set gs. filter_sat m g)"
  by (induction gs) auto

lemma every_sat_iff: "every_sat m gs \<longleftrightarrow> (\<forall>g\<in>set gs. filter_sat m g)"
  by (induction gs) auto

lemma entries_sat_iff: "entries_sat m d \<longleftrightarrow> (\<forall>kv\<in>set d. item_sat m kv)"
  by (induction d) (auto simp: item_sat_def)

lemma filter_sat_falsy: "\<not> truthy f \<Longrightarrow> filter_sat m f"
  by (cases f) auto

lemma item_sat_simps [simp]:
  "item_sat m (''$or'', PList gs) = (\<exists>g\<in>set gs. filter_sat m g)"
  "item_sat m (''$and'', PList gs) = (\<forall>g\<in>set gs. filter_sat m g)"
  by (simp_all add: item_sat_def some_sat_iff every_sat_iff)

text \<open>Splitting one key off a dictionary splits the conjunction.\<close>

lemma filter_sat_without:
  "wf_dict d \<Longrightarrow> map_of d k = Some v \<Longrightarrow>
   filter_sat m (PDict d) \<longleftrightarrow> item_sat m (k, v) \<and> filter_sat m (without_key k (PDict d))"
  by (auto simp: entries_sat_iff without_key_def dest: map_of_SomeD wf_dict_get) (metis old.prod.exhaust wf_dict_get option.inject)

section \<open>The code computes the specification\<close>

lemma any_res_spec:
  assumes "any_res f xs = Inr b" and "\<And>x c. x \<in> set xs \<Longrightarrow> f x = Inr c \<Longrightarrow> c = p x"
  shows "b \<longleftrightarrow> (\<exists>x\<in>set xs. p x)"
  using assms
proof (induction xs arbitrary: b)
  case Nil
  then show ?case by simp
next
  case (Cons x xs)
  from Cons.prems(1) obtain c where c: "f x = Inr c"
    and b: "(if c then Inr True else any_res f xs) = Inr b"
    by (auto simp: res_simps)
  have "c = p x" using Cons.prems(2)[of x c] c by simp
  with b Cons.IH[of b] Cons.prems(2) show ?case by (auto split: if_splits)
qed

lemma all_res_spec:
  assumes "all_res f xs = Inr b" and "\<And>x c. x \<in> set xs \<Longrightarrow> f x = Inr c \<Longrightarrow> c = p x"
  shows "b \<longleftrightarrow> (\<forall>x\<in>set xs. p x)"
  using assms
proof (induction xs arbitrary: b)
  case Nil
  then show ?case by simp
next
  case (Cons x xs)
  from Cons.prems(1) obtain c where c: "f x = Inr c"
    and b: "(if c then all_res f xs else Inr False) = Inr b"
    by (auto simp: res_simps)
  have "c = p x" using Cons.prems(2)[of x c] c by simp
  with b Cons.IH[of b] Cons.prems(2) show ?case by (auto split: if_splits)
qed

lemma group_list_Inr [res_simps]: "group_list v = Inr gs \<longleftrightarrow> v = PList gs \<and> 2 \<le> length gs"
  by (cases v) (auto simp: group_list_def)

lemma get_item_Inr [res_simps]:
  "get_item f k = Inr v \<longleftrightarrow> (\<exists>d. f = PDict d \<and> map_of d k = Some v)"
  by (cases f) (auto simp: get_item_def split: option.splits)

lemma key_in_dict: "key_in k (PDict d) = Inr (map_of d k \<noteq> None)"
  by (simp add: key_in_def map_of_eq_None_iff)

lemma wf_without: "wf_val (PDict d) \<Longrightarrow> wf_val (without_key k (PDict d))"
  by (auto simp: without_key_def)

lemma wf_group: "wf_val (PDict d) \<Longrightarrow> map_of d k = Some (PList gs) \<Longrightarrow> g \<in> set gs \<Longrightarrow> wf_val g"
  by (force dest: map_of_SomeD)

text \<open>A plain entry is its own formula.\<close>

lemma match_plain_sat:
  assumes "match_plain m (PDict d) = Inr b"
    and "map_of d ''$or'' = None" and "map_of d ''$and'' = None"
  shows "b \<longleftrightarrow> filter_sat m (PDict d)"
proof -
  have plain: "item_sat m (k, v) = entry_sat m k v" if "(k, v) \<in> set d" for k v
    using that assms(2,3) by (force simp: item_sat_def map_of_eq_None_iff)
  from assms(1) have "all_res (\<lambda>(key, v). match_entry m key v) d = Inr b"
    by (simp add: match_plain_def)
  from all_res_Inr[OF this] have "b \<longleftrightarrow> (\<forall>kv\<in>set d. entry_sat m (fst kv) (snd kv))"
    by (simp add: entry_sat_def case_prod_beta)
  with plain show ?thesis by (auto simp: entries_sat_iff)
qed

lemma match_groups_sat:
  assumes run: "match_groups validate check quant k (PDict d) = Inr b"
    and wf: "wf_val (PDict d)"
    and check: "\<And>f c. wf_val f \<Longrightarrow> check f = Inr c \<Longrightarrow> c \<longleftrightarrow> filter_sat m f"
    and quant: "k = ''$or'' \<and> quant = any_res \<or> k = ''$and'' \<and> quant = all_res"
  shows "b \<longleftrightarrow> filter_sat m (PDict d)"
proof -
  from run obtain gs matched where gs: "map_of d k = Some (PList gs)"
    and q: "quant check gs = Inr matched"
    and rest: "(if \<not> matched then Inr False
       else let rest = without_key k (PDict d) in if truthy rest then check rest else Inr True) = Inr b"
    by (auto simp: match_groups_def res_simps)
  have "matched \<longleftrightarrow> item_sat m (k, PList gs)"
    using quant q check wf_group[OF wf gs]
    by (auto dest!: any_res_spec[where p = "filter_sat m"] all_res_spec[where p = "filter_sat m"])
  moreover have "filter_sat m (PDict d) \<longleftrightarrow> item_sat m (k, PList gs) \<and> filter_sat m (without_key k (PDict d))"
    using filter_sat_without wf gs by simp
  moreover have "matched \<Longrightarrow> b \<longleftrightarrow> filter_sat m (without_key k (PDict d))"
    using rest check[OF wf_without[OF wf]] filter_sat_falsy
    by (auto simp: Let_def split: if_splits)
  moreover have "\<not> matched \<Longrightarrow> \<not> b" using rest by simp
  ultimately show ?thesis by blast
qed

lemma check_filter_sat: "wf_val f \<Longrightarrow> check_filter depth m f = Inr b \<Longrightarrow> b \<longleftrightarrow> filter_sat m f"
proof (induction depth arbitrary: f b)
  case 0
  then show ?case by simp
next
  case (Suc depth)
  show ?case
  proof (cases "truthy f")
    case False
    with Suc.prems show ?thesis by (simp add: filter_sat_falsy)
  next
    case True
    then obtain d where f: "f = PDict d"
      using Suc.prems(2)
      by (cases f) (auto simp: key_in_def match_groups_def get_item_def match_plain_def split: if_splits)
    note IH = Suc.IH
    show ?thesis
    proof (cases "map_of d ''$or'' = None")
      case False
      with Suc.prems(2) True f have
        "match_groups (validate_filter depth) (check_filter depth m) any_res ''$or'' (PDict d) = Inr b"
        by (auto simp: key_in_dict)
      from match_groups_sat[OF this _ IH] Suc.prems(1) f show ?thesis by auto
    next
      case no_or: True
      show ?thesis
      proof (cases "map_of d ''$and'' = None")
        case False
        with Suc.prems(2) True f no_or have
          "match_groups (validate_filter depth) (check_filter depth m) all_res ''$and'' (PDict d) = Inr b"
          by (auto simp: key_in_dict)
        from match_groups_sat[OF this _ IH] Suc.prems(1) f show ?thesis by auto
      next
        case no_and: True
        with Suc.prems(2) True f no_or have "match_plain m (PDict d) = Inr b"
          by (simp add: key_in_dict)
        with match_plain_sat no_or no_and f show ?thesis by blast
      qed
    qed
  qed
qed

section \<open>Validated filters never raise\<close>

text \<open>The shape of the filters an auth handler returns: dictionaries of entries, groups of such.\<close>

fun filter_shape :: "pyval \<Rightarrow> bool"
  and entries_shape :: "(string \<times> pyval) list \<Rightarrow> bool"
  and groups_shape :: "pyval list \<Rightarrow> bool" where
  "filter_shape (PDict d) = entries_shape d"
| "filter_shape f = (\<not> truthy f)"
| "entries_shape [] = True"
| "entries_shape (kv # d) =
     ((if fst kv = ''$or'' \<or> fst kv = ''$and''
       then (case snd kv of PList gs \<Rightarrow> groups_shape gs | _ \<Rightarrow> True) else snd kv \<noteq> PDict [])
      \<and> entries_shape d)"
| "groups_shape [] = True"
| "groups_shape (g # gs) = (filter_shape g \<and> groups_shape gs)"

lemma groups_shape_iff: "groups_shape gs \<longleftrightarrow> (\<forall>g\<in>set gs. filter_shape g)"
  by (induction gs) auto

lemma entries_shape_iff: "entries_shape d \<longleftrightarrow> (\<forall>kv\<in>set d. entries_shape [kv])"
  by (induction d) auto

lemma shape_group:
  "entries_shape d \<Longrightarrow> map_of d k = Some (PList gs) \<Longrightarrow> k = ''$or'' \<or> k = ''$and'' \<Longrightarrow>
   g \<in> set gs \<Longrightarrow> filter_shape g"
  using entries_shape_iff[of d] by (fastforce simp: groups_shape_iff dest: map_of_SomeD)

lemma shape_without: "filter_shape (PDict d) \<Longrightarrow> filter_shape (without_key k (PDict d))"
  using entries_shape_iff[of d] entries_shape_iff[of "filter (\<lambda>(k', v). k' \<noteq> k) d"]
  by (auto simp: without_key_def)

lemma match_plain_total:
  assumes "entries_shape d" and "map_of d ''$or'' = None" and "map_of d ''$and'' = None"
  shows "\<exists>b. match_plain m (PDict d) = Inr b"
proof -
  have "\<exists>b. match_entry m k v = Inr b" if kv: "(k, v) \<in> set d" for k v
  proof -
    have "k \<noteq> ''$or'' \<and> k \<noteq> ''$and''"
      using assms(2,3) kv by (force simp: map_of_eq_None_iff)
    then have "v \<noteq> PDict []"
      using assms(1) kv entries_shape_iff[of d] by auto
    then show ?thesis by (auto simp: match_entry_def split: pyval.splits list.splits)
  qed
  then have "\<exists>b. all_res (\<lambda>(key, v). match_entry m key v) d = Inr b"
    by (induction d) (fastforce split: prod.splits if_splits)+
  then show ?thesis by (simp add: match_plain_def)
qed

lemma any_res_total: "(\<And>x. x \<in> set xs \<Longrightarrow> \<exists>b. f x = Inr b) \<Longrightarrow> \<exists>b. any_res f xs = Inr b"
  by (induction xs) fastforce+

lemma all_res_total: "(\<And>x. x \<in> set xs \<Longrightarrow> \<exists>b. f x = Inr b) \<Longrightarrow> \<exists>b. all_res f xs = Inr b"
  by (induction xs) fastforce+

lemma match_groups_total:
  assumes valid: "validate_operator validate k (PDict d) = Inr ()" and present: "map_of d k \<noteq> None"
    and shape: "filter_shape (PDict d)" and k: "k = ''$or'' \<or> k = ''$and''"
    and total: "\<And>f. filter_shape f \<Longrightarrow> validate f = Inr () \<Longrightarrow> \<exists>b. check f = Inr b"
    and quant: "quant = any_res \<or> quant = all_res"
  shows "\<exists>b. match_groups validate check quant k (PDict d) = Inr b"
proof -
  from valid present obtain gs where gs: "map_of d k = Some (PList gs)" "2 \<le> length gs"
    and groups: "\<forall>g\<in>set gs. validate g = Inr ()"
    and rest: "truthy (without_key k (PDict d)) \<Longrightarrow> validate (without_key k (PDict d)) = Inr ()"
    by (auto simp: validate_operator_def key_in_dict res_simps Let_def split: if_splits)
  have each: "\<exists>b. check g = Inr b" if "g \<in> set gs" for g
    using total shape_group[OF _ gs(1) k that] groups that shape by auto
  from quant obtain matched where "quant check gs = Inr matched"
    using any_res_total[of gs check] all_res_total[of gs check] each by blast
  moreover have "iter_res validate gs = Inr ()" using groups by (simp add: res_simps)
  moreover have "bind_res (get_item (PDict d) k) group_list = Inr gs"
    using gs by (simp add: get_item_def group_list_def)
  moreover have "\<exists>b. (let rest = without_key k (PDict d)
      in if truthy rest then check rest else Inr True) = Inr b"
    using total[OF shape_without[OF shape], of k] rest by (simp add: Let_def)
  ultimately show ?thesis by (auto simp: match_groups_def)
qed

lemma check_filter_total:
  "filter_shape f \<Longrightarrow> validate_filter depth f = Inr () \<Longrightarrow> \<exists>b. check_filter depth m f = Inr b"
proof (induction depth arbitrary: f)
  case 0
  then show ?case by simp
next
  case (Suc depth)
  show ?case
  proof (cases "truthy f")
    case False
    then show ?thesis by simp
  next
    case True
    with Suc.prems(1) obtain d where f: "f = PDict d" by (cases f) auto
    from Suc.prems(2) True f have
      v: "validate_operator (validate_filter depth) ''$or'' (PDict d) = Inr ()"
         "validate_operator (validate_filter depth) ''$and'' (PDict d) = Inr ()"
      by (auto simp: res_simps)
    note groups = match_groups_total[OF _ _ _ _ Suc.IH]
    have "\<exists>b. match_groups (validate_filter depth) (check_filter depth m) any_res ''$or'' (PDict d) = Inr b"
      if "map_of d ''$or'' \<noteq> None"
      by (rule groups[OF v(1) that]) (use Suc.prems(1) f in auto)
    moreover have "\<exists>b. match_groups (validate_filter depth) (check_filter depth m) all_res ''$and'' (PDict d) = Inr b"
      if "map_of d ''$and'' \<noteq> None"
      by (rule groups[OF v(2) that]) (use Suc.prems(1) f in auto)
    ultimately show ?thesis
      using match_plain_total[of d m] Suc.prems(1) f True
      by (auto simp: key_in_dict)
  qed
qed

text \<open>
  C12. A filter that passes \<open>_validate_filter_structure\<close> (and whose groups and operators are the
  dictionaries an auth handler returns) is decided by \<open>_check_filter_match\<close> without raising,
  and the answer is the value of the filter read as a formula: entries conjoined, \<open>$or\<close> a
  disjunction, \<open>$and\<close> a conjunction, at every nesting level.
\<close>

theorem check_filter_match_correct:
  assumes "validate_filter max_filter_depth f = Inr ()" and "filter_shape f" and "wf_val f"
  shows "check_filter_match m f = Inr (filter_sat m f)"
proof -
  obtain b where b: "check_filter max_filter_depth m f = Inr b"
    using check_filter_total[OF assms(2,1)] by blast
  with check_filter_sat[OF assms(3) b] show ?thesis
    by (simp add: check_filter_match_def)
qed

theorem check_filter_match_correct_witness:
  "check_filter_match [(''owner'', PStr ''bob'')]
     (PDict [(''$or'', PList [PDict [(''owner'', PStr ''al'')], PDict [(''owner'', PStr ''bob'')]])])
   = Inr True"
  using check_filter_match_correct[of
     "PDict [(''$or'', PList [PDict [(''owner'', PStr ''al'')], PDict [(''owner'', PStr ''bob'')]])]"
     "[(''owner'', PStr ''bob'')]"]
  by (simp add: max_filter_depth_def numeral_3_eq_3 validate_operator_def key_in_def get_item_def
      group_list_def without_key_def entry_sat_def match_entry_def)

lemma check_or_validates:
  assumes "check_filter (Suc depth) m (PDict d) = Inr True" and "map_of d ''$or'' = Some v"
  shows "\<exists>gs. v = PList gs \<and> 2 \<le> length gs \<and> (\<forall>g\<in>set gs. validate_filter depth g = Inr ())"
proof -
  have "d \<noteq> []" using assms(2) by auto
  with assms show ?thesis
    by (auto simp: key_in_dict match_groups_def res_simps)
qed

text \<open>
  C13. Access is never granted by a filter that is nested too deeply or malformed: when
  \<open>_check_filter_match\<close> answers \<open>True\<close> on a filter with an \<open>$or\<close>, every group of it passed the
  structural validation of the next level, even the groups after the one that matched.
\<close>

theorem check_filter_match_fails_closed:
  assumes "check_filter_match m (PDict d) = Inr True" and "map_of d ''$or'' = Some v"
  shows "\<exists>gs. v = PList gs \<and> 2 \<le> length gs \<and>
    (\<forall>g\<in>set gs. validate_filter (max_filter_depth - 1) g = Inr ())"
  using check_or_validates[of "max_filter_depth - 1" m d v] assms
  by (simp add: check_filter_match_def max_filter_depth_def numeral_3_eq_3 numeral_2_eq_2 del: check_filter.simps validate_filter.simps)

theorem check_filter_match_fails_closed_witness:
  "\<exists>gs. PList [PDict [(''a'', PInt 1)], PDict [(''b'', PInt 2)]] = PList gs \<and> 2 \<le> length gs \<and>
    (\<forall>g\<in>set gs. validate_filter (max_filter_depth - 1) g = Inr ())"
  by (rule check_filter_match_fails_closed[of "[(''a'', PInt 1)]"
        "[(''$or'', PList [PDict [(''a'', PInt 1)], PDict [(''b'', PInt 2)]])]"])
    (simp_all add: check_filter_match_def max_filter_depth_def numeral_3_eq_3 validate_operator_def
      key_in_def get_item_def group_list_def without_key_def match_entry_def match_groups_def
      match_plain_def)

text \<open>
  An operator the matcher does not know is ignored: an entry whose value is a dictionary with a
  first key other than \<open>$eq\<close> and \<open>$contains\<close> holds of every row, present or absent.
\<close>

theorem unknown_operator_matches_everything:
  assumes "key \<noteq> ''$or''" and "key \<noteq> ''$and''" and "op \<noteq> ''$eq''" and "op \<noteq> ''$contains''"
  shows "check_filter_match m (PDict [(key, PDict [(op, arg)])]) = Inr True"
  using assms
  by (simp add: check_filter_match_def max_filter_depth_def numeral_3_eq_3 key_in_dict
      match_plain_def match_entry_def)

theorem unknown_operator_matches_everything_witness:
  "check_filter_match [(''owner'', PStr ''bob'')]
     (PDict [(''owner'', PDict [(''$ne'', PStr ''bob'')])]) = Inr True"
  by (rule unknown_operator_matches_everything) simp_all

end
