(* ===== verification/Streams.thy ===== *)
theory Streams
  imports Values
begin

text \<open>
  \<open>inmem_stream.py\<close> and the stream operations of \<open>ops.py\<close>: the \<open>StreamManager\<close> with its queues
  per thread and run, publication, subscription, resumption from stored messages, the join loop of
  a run stream and the listener for cancellations.

  Queue objects have identity: a queue is a number, and \<open>contents\<close> maps it to the messages waiting
  in it. The clock is an argument (\<open>ms\<close>, milliseconds since the epoch). The codec of the API server
  (\<open>decode_stream_message\<close>) is third-party: it is a function argument.
\<close>

section \<open>Queues\<close>

text \<open>
  What the runtime relies on in an \<open>asyncio.Queue\<close> without bound: \<open>put\<close> appends, \<open>get_nowait\<close>
  takes the oldest message or raises \<open>QueueEmpty\<close> (here \<open>None\<close>).
\<close>

datatype 'm queue_event = Enq 'm | Deq

fun run_queue :: "('m \<Rightarrow> 'q \<Rightarrow> 'q) \<Rightarrow> ('q \<Rightarrow> ('m \<times> 'q) option) \<Rightarrow> 'm queue_event list \<Rightarrow> 'q \<Rightarrow> 'm list \<times> 'q" where
  "run_queue enq deq [] q = ([], q)"
| "run_queue enq deq (Enq m # es) q = run_queue enq deq es (enq m q)"
| "run_queue enq deq (Deq # es) q =
     (case deq q of
        None \<Rightarrow> run_queue enq deq es q
      | Some (m, q') \<Rightarrow> (case run_queue enq deq es q' of (out, q'') \<Rightarrow> (m # out, q'')))"

fun enqueued :: "'m queue_event list \<Rightarrow> 'm list" where
  "enqueued [] = []"
| "enqueued (Enq m # es) = m # enqueued es"
| "enqueued (Deq # es) = enqueued es"

locale fifo =
  fixes enq :: "'m \<Rightarrow> 'q \<Rightarrow> 'q" and deq :: "'q \<Rightarrow> ('m \<times> 'q) option" and content :: "'q \<Rightarrow> 'm list"
  assumes content_enq: "content (enq m q) = content q @ [m]"
    and deq_empty: "deq q = None \<longleftrightarrow> content q = []"
    and deq_oldest: "deq q = Some (m, q') \<Longrightarrow> content q = m # content q'"
begin

text \<open>No message is lost, duplicated or reordered, however puts and gets interleave.\<close>

lemma delivery:
  "fst (run_queue enq deq es q) @ content (snd (run_queue enq deq es q)) = content q @ enqueued es"
proof (induction es arbitrary: q)
  case Nil
  then show ?case by simp
next
  case (Cons e es)
  show ?case
  proof (cases e)
    case (Enq m)
    with Cons show ?thesis by (simp add: content_enq)
  next
    case Deq
    show ?thesis
    proof (cases "deq q")
      case None
      with Deq Cons show ?thesis by simp
    next
      case (Some mq)
      obtain m q' where mq: "mq = (m, q')" by (cases mq)
      with Some have "content q = m # content q'" using deq_oldest by simp
      with Deq Some mq Cons[of q'] show ?thesis by (simp add: case_prod_unfold)
    qed
  qed
qed

lemma enq_fold: "content (fold enq ms q) = content q @ ms"
  by (induction ms arbitrary: q) (simp_all add: content_enq)

end

section \<open>State\<close>

datatype thread_key = NoThread | ThreadKey uuid

definition thread_key :: "uuid option \<Rightarrow> thread_key" where
  "thread_key tid = (case tid of None \<Rightarrow> NoThread | Some t \<Rightarrow> ThreadKey t)"

record message =
  m_topic :: string
  m_data :: string
  m_id :: "string option"

type_synonym 'v per_run = "(thread_key, (uuid, 'v) dict) dict"

record stream_manager =
  sm_queues :: "nat list per_run"
  sm_control_keys :: "message per_run"
  sm_control_queues :: "nat list per_run"
  sm_thread_streams :: "(uuid, nat list) dict"
  sm_message_stores :: "message list per_run"
  contents :: "nat \<Rightarrow> message list"
  next_queue :: nat

definition stream_manager_init :: stream_manager where
  "stream_manager_init =
     \<lparr>sm_queues = [], sm_control_keys = [], sm_control_queues = [], sm_thread_streams = [],
      sm_message_stores = [], contents = (\<lambda>_. []), next_queue = 0\<rparr>"

text \<open>\<open>d[t][r]\<close> on nested \<open>defaultdict\<close>s: reading a missing entry stores the default.\<close>

definition dd_get :: "'v list per_run \<Rightarrow> thread_key \<Rightarrow> uuid \<Rightarrow> 'v list" where
  "dd_get d t r = dget_default (dget_default d t []) r []"

definition dd_set :: "'v per_run \<Rightarrow> thread_key \<Rightarrow> uuid \<Rightarrow> 'v \<Rightarrow> 'v per_run" where
  "dd_set d t r v = AList.update t (AList.update r v (dget_default d t [])) d"

definition dd_touch :: "'v list per_run \<Rightarrow> thread_key \<Rightarrow> uuid \<Rightarrow> 'v list per_run" where
  "dd_touch d t r = dd_set d t r (dd_get d t r)"

definition dd_mem :: "'v per_run \<Rightarrow> thread_key \<Rightarrow> uuid \<Rightarrow> bool" where
  "dd_mem d t r \<longleftrightarrow> (case map_of d t of None \<Rightarrow> False | Some e \<Rightarrow> map_of e r \<noteq> None)"

lemma dd_get_set [simp]:
  "dd_get (dd_set d t r v) t' r' = (if t' = t \<and> r' = r then v else dd_get d t' r')"
  by (auto simp: dd_get_def dd_set_def dget_default_def dict_simps split: option.splits)

lemma dd_get_touch [simp]: "dd_get (dd_touch d t r) = dd_get d"
  by (auto simp: dd_touch_def fun_eq_iff)

section \<open>Operations of the manager\<close>

definition generate_ms_seq_id :: "nat \<Rightarrow> string" where
  "generate_ms_seq_id ms = nat_str ms @ ''-0''"

definition push :: "nat \<Rightarrow> message \<Rightarrow> stream_manager \<Rightarrow> stream_manager" where
  "push q m sm = sm\<lparr>contents := (contents sm)(q := contents sm q @ [m])\<rparr>"

definition get_nowait :: "nat \<Rightarrow> stream_manager \<Rightarrow> (message \<times> stream_manager) option" where
  "get_nowait q sm =
     (case contents sm q of
        [] \<Rightarrow> None
      | m # ms \<Rightarrow> Some (m, sm\<lparr>contents := (contents sm)(q := ms)\<rparr>))"

definition new_queue :: "stream_manager \<Rightarrow> nat \<times> stream_manager" where
  "new_queue sm =
     (next_queue sm, sm\<lparr>contents := (contents sm)(next_queue sm := []), next_queue := next_queue sm + 1\<rparr>)"

text \<open>\<open>"control" in topic\<close>, a substring test.\<close>

definition is_control_topic :: "string \<Rightarrow> bool" where
  "is_control_topic topic = list_ex (prefix ''control'') (suffixes topic)"

definition get_queues :: "uuid \<Rightarrow> uuid option \<Rightarrow> stream_manager \<Rightarrow> nat list \<times> stream_manager" where
  "get_queues run_id tid sm =
     (dd_get (sm_queues sm) (thread_key tid) run_id,
      sm\<lparr>sm_queues := dd_touch (sm_queues sm) (thread_key tid) run_id\<rparr>)"

definition get_control_queues :: "uuid \<Rightarrow> uuid option \<Rightarrow> stream_manager \<Rightarrow> nat list \<times> stream_manager" where
  "get_control_queues run_id tid sm =
     (dd_get (sm_control_queues sm) (thread_key tid) run_id,
      sm\<lparr>sm_control_queues := dd_touch (sm_control_queues sm) (thread_key tid) run_id\<rparr>)"

definition get_control_key :: "uuid \<Rightarrow> uuid option \<Rightarrow> stream_manager \<Rightarrow> message option" where
  "get_control_key run_id tid sm = map_of (dget_default (sm_control_keys sm) (thread_key tid) []) run_id"

definition stream_put ::
  "nat \<Rightarrow> uuid \<Rightarrow> uuid option \<Rightarrow> message \<Rightarrow> bool \<Rightarrow> stream_manager \<Rightarrow> stream_manager" where
  "stream_put ms run_id tid msg resumable sm =
     (let t = thread_key tid;
          m = msg\<lparr>m_id := Some (generate_ms_seq_id ms)\<rparr>;
          sm1 = (if resumable
                 then sm\<lparr>sm_message_stores :=
                        dd_set (sm_message_stores sm) t run_id (dd_get (sm_message_stores sm) t run_id @ [m])\<rparr>
                 else sm);
          (queues, sm2) =
            (if is_control_topic (m_topic m)
             then get_control_queues run_id tid
                    (sm1\<lparr>sm_control_keys := dd_set (sm_control_keys sm1) t run_id m\<rparr>)
             else get_queues run_id tid sm1)
      in fold (\<lambda>q. push q m) queues sm2)"

definition put_thread :: "nat \<Rightarrow> uuid \<Rightarrow> message \<Rightarrow> stream_manager \<Rightarrow> stream_manager" where
  "put_thread ms tid msg sm =
     (let m = msg\<lparr>m_id := Some (generate_ms_seq_id ms)\<rparr>;
          queues = dget_default (sm_thread_streams sm) tid []
      in fold (\<lambda>q. push q m) queues
           (sm\<lparr>sm_thread_streams := AList.update tid queues (sm_thread_streams sm)\<rparr>))"

definition add_queue :: "uuid \<Rightarrow> uuid option \<Rightarrow> stream_manager \<Rightarrow> nat \<times> stream_manager" where
  "add_queue run_id tid sm =
     (let (q, sm1) = new_queue sm; t = thread_key tid
      in (q, sm1\<lparr>sm_queues := dd_set (sm_queues sm1) t run_id (dd_get (sm_queues sm1) t run_id @ [q])\<rparr>))"

definition add_control_queue :: "uuid \<Rightarrow> uuid option \<Rightarrow> stream_manager \<Rightarrow> nat \<times> stream_manager" where
  "add_control_queue run_id tid sm =
     (let (q, sm1) = new_queue sm; t = thread_key tid
      in (q, sm1\<lparr>sm_control_queues :=
                 dd_set (sm_control_queues sm1) t run_id (dd_get (sm_control_queues sm1) t run_id @ [q])\<rparr>))"

definition add_thread_stream :: "uuid \<Rightarrow> stream_manager \<Rightarrow> nat \<times> stream_manager" where
  "add_thread_stream tid sm =
     (let (q, sm1) = new_queue sm
      in (q, sm1\<lparr>sm_thread_streams :=
                 AList.update tid (dget_default (sm_thread_streams sm1) tid [] @ [q]) (sm_thread_streams sm1)\<rparr>))"

text \<open>
  \<open>del d[t][r]\<close> when the list became empty. \<open>list.remove\<close> raises \<open>ValueError\<close> when the queue is
  not in the list.
\<close>

definition dd_remove :: "nat list per_run \<Rightarrow> thread_key \<Rightarrow> uuid \<Rightarrow> nat \<Rightarrow> nat list per_run res" where
  "dd_remove d t r q =
     (if \<not> dd_mem d t r then Inr d
      else if q \<notin> set (dd_get d t r) then Inl value_error
      else if remove1 q (dd_get d t r) = []
           then Inr (AList.update t (AList.delete r (dget_default d t [])) d)
           else Inr (dd_set d t r (remove1 q (dd_get d t r))))"

definition remove_queue :: "uuid \<Rightarrow> uuid option \<Rightarrow> nat \<Rightarrow> stream_manager \<Rightarrow> unit res \<times> stream_manager" where
  "remove_queue run_id tid q sm =
     (case dd_remove (sm_queues sm) (thread_key tid) run_id q of
        Inl e \<Rightarrow> (Inl e, sm) | Inr d \<Rightarrow> (Inr (), sm\<lparr>sm_queues := d\<rparr>))"

definition remove_control_queue :: "uuid \<Rightarrow> uuid option \<Rightarrow> nat \<Rightarrow> stream_manager \<Rightarrow> unit res \<times> stream_manager" where
  "remove_control_queue run_id tid q sm =
     (case dd_remove (sm_control_queues sm) (thread_key tid) run_id q of
        Inl e \<Rightarrow> (Inl e, sm) | Inr d \<Rightarrow> (Inr (), sm\<lparr>sm_control_queues := d\<rparr>))"

text \<open>Stored messages always have an id (\<open>put\<close> sets it), so the comparison is on texts.\<close>

definition restore_messages :: "uuid \<Rightarrow> uuid option \<Rightarrow> string option \<Rightarrow> stream_manager \<Rightarrow> message list" where
  "restore_messages run_id tid message_id sm =
     (case message_id of
        None \<Rightarrow> []
      | Some i \<Rightarrow> filter (\<lambda>m. case m_id m of None \<Rightarrow> False | Some j \<Rightarrow> i < j)
                    (dd_get (sm_message_stores sm) (thread_key tid) run_id))"

definition get_queues_by_thread_id :: "uuid \<Rightarrow> stream_manager \<Rightarrow> nat list" where
  "get_queues_by_thread_id tid sm =
     concat (map snd (dget_default (sm_queues sm) (ThreadKey tid) []))"

text \<open>
  \<open>stop_stream\<close>. The loop meant to send \<open>done\<close> iterates over the run ids of each thread instead of
  its queues; every \<open>put\<close> raises \<open>AttributeError\<close>, which is swallowed: no queue receives anything.
\<close>

definition stop_stream :: "stream_manager \<Rightarrow> stream_manager" where
  "stop_stream sm = sm\<lparr>sm_queues := [], sm_control_queues := [], sm_message_stores := []\<rparr>"

text \<open>Leaving a queue's context: \<open>get_nowait\<close> until the queue is empty.\<close>

function drain :: "nat \<Rightarrow> stream_manager \<Rightarrow> message list \<times> stream_manager" where
  "drain q sm =
     (case get_nowait q sm of
        None \<Rightarrow> ([], sm)
      | Some (m, sm') \<Rightarrow> (case drain q sm' of (ms, sm'') \<Rightarrow> (m # ms, sm'')))"
  by pat_completeness auto
termination
  by (relation "measure (\<lambda>(q, sm). length (contents sm q))") (auto simp: get_nowait_def split: list.splits)

declare drain.simps [simp del]

text \<open>\<open>Runs.Stream.subscribe\<close>: what waits in the run's control queues moves to the new queue.\<close>

definition stream_subscribe :: "uuid \<Rightarrow> uuid option \<Rightarrow> stream_manager \<Rightarrow> nat \<times> stream_manager" where
  "stream_subscribe run_id tid sm =
     (let (q, sm1) = add_queue run_id tid sm;
          control_queues = dd_get (sm_control_queues sm1) (thread_key tid) run_id
      in (q, fold (\<lambda>c s. case drain c s of (ms, s') \<Rightarrow> fold (push q) ms s') control_queues sm1))"

definition stream_publish ::
  "(string \<Rightarrow> string \<Rightarrow> string) \<Rightarrow> nat \<Rightarrow> uuid \<Rightarrow> string \<Rightarrow> string \<Rightarrow> uuid option \<Rightarrow> bool \<Rightarrow>
   stream_manager \<Rightarrow> stream_manager" where
  "stream_publish encode ms run_id event msg tid resumable sm =
     stream_put ms run_id tid
       \<lparr>m_topic = ''run:'' @ run_id @ '':stream'', m_data = encode event msg, m_id = None\<rparr> resumable sm"

definition thread_publish ::
  "(string \<Rightarrow> string \<Rightarrow> string) \<Rightarrow> nat \<Rightarrow> uuid \<Rightarrow> string \<Rightarrow> string \<Rightarrow> stream_manager \<Rightarrow> stream_manager" where
  "thread_publish encode ms tid event msg sm =
     put_thread ms tid \<lparr>m_topic = ''thread:'' @ tid @ '':stream'', m_data = encode event msg, m_id = None\<rparr> sm"

interpretation chan: fifo "push q" "get_nowait q" "\<lambda>sm. contents sm q" for q
  by unfold_locales (auto simp: push_def get_nowait_def split: list.splits)

section \<open>What each operation does to the queues\<close>

lemma push_fields [simp]:
  "sm_queues (push q m sm) = sm_queues sm" "sm_control_queues (push q m sm) = sm_control_queues sm"
  "sm_thread_streams (push q m sm) = sm_thread_streams sm" "next_queue (push q m sm) = next_queue sm"
  "sm_message_stores (push q m sm) = sm_message_stores sm"
  "contents (push q m sm) = (contents sm)(q := contents sm q @ [m])"
  by (simp_all add: push_def)

lemma push_each_fields [simp]:
  "sm_queues (fold (\<lambda>q. push q m) qs sm) = sm_queues sm"
  "sm_control_queues (fold (\<lambda>q. push q m) qs sm) = sm_control_queues sm"
  "sm_thread_streams (fold (\<lambda>q. push q m) qs sm) = sm_thread_streams sm"
  "sm_message_stores (fold (\<lambda>q. push q m) qs sm) = sm_message_stores sm"
  "next_queue (fold (\<lambda>q. push q m) qs sm) = next_queue sm"
  by (induction qs arbitrary: sm) simp_all

lemma contents_push_each:
  "contents (fold (\<lambda>q. push q m) qs sm) q = contents sm q @ replicate (count_list qs q) m"
  by (induction qs arbitrary: sm) (auto simp: replicate_append_same)

lemma push_all_fields [simp]:
  "sm_queues (fold (push q) ms sm) = sm_queues sm"
  "sm_control_queues (fold (push q) ms sm) = sm_control_queues sm"
  "sm_thread_streams (fold (push q) ms sm) = sm_thread_streams sm"
  "sm_message_stores (fold (push q) ms sm) = sm_message_stores sm"
  "next_queue (fold (push q) ms sm) = next_queue sm"
  by (induction ms arbitrary: sm) simp_all

lemma contents_push_all: "contents (fold (push q) ms sm) = (contents sm)(q := contents sm q @ ms)"
  by (induction ms arbitrary: sm) auto

lemma contents_same: "(\<And>x. f x = contents sm x) \<Longrightarrow> sm\<lparr>contents := f\<rparr> = sm"
  by (cases sm) (auto simp: fun_eq_iff)

lemma drain_eq: "drain q sm = (contents sm q, sm\<lparr>contents := (contents sm)(q := [])\<rparr>)"
proof (induction q sm rule: drain.induct)
  case (1 q sm)
  show ?case
  proof (cases "contents sm q")
    case Nil
    then have "sm\<lparr>contents := (contents sm)(q := [])\<rparr> = sm"
      by (intro contents_same) simp
    moreover have "drain q sm = ([], sm)"
      using Nil by (simp add: drain.simps[of q sm] get_nowait_def)
    ultimately show ?thesis using Nil by (simp only:)
  next
    case (Cons m ms)
    then have "get_nowait q sm = Some (m, sm\<lparr>contents := (contents sm)(q := ms)\<rparr>)"
      by (simp add: get_nowait_def)
    with 1 Cons show ?thesis by (simp add: drain.simps[of q sm] fun_upd_def cong: if_cong)
  qed
qed

lemma dd_get_remove:
  "dd_remove d t r q = Inr d' \<Longrightarrow>
   dd_get d' t' r' = (if t' = t \<and> r' = r then remove1 q (dd_get d t r) else dd_get d t' r')"
  by (auto simp: dd_remove_def dd_mem_def dd_get_def dd_set_def dget_default_def dict_simps
      split: if_splits option.splits)

text \<open>Draining a list of queues into one that is not among them.\<close>

lemma drain_into:
  "q \<notin> set cs \<Longrightarrow> distinct cs \<Longrightarrow>
   fold (\<lambda>c s. case drain c s of (ms, s') \<Rightarrow> fold (push q) ms s') cs sm =
     sm\<lparr>contents := (\<lambda>x. if x \<in> set cs then [] else
          if x = q then contents sm q @ concat (map (contents sm) cs) else contents sm x)\<rparr>"
proof (induction cs arbitrary: sm)
  case Nil
  show ?case by (simp add: contents_same)
next
  case (Cons c cs)
  define s1 where s1: "s1 = sm\<lparr>contents := (contents sm)(c := [], q := contents sm q @ contents sm c)\<rparr>"
  have "fold (push q) ms s = s\<lparr>contents := (contents s)(q := contents s q @ ms)\<rparr>" for ms s
    by (induction ms arbitrary: s) (auto simp: push_def)
  then have "(case drain c sm of (ms, s') \<Rightarrow> fold (push q) ms s') = s1"
    using Cons.prems by (simp add: drain_eq s1)
  moreover have "map (contents s1) cs = map (contents sm) cs"
    using Cons.prems by (auto simp: s1)
  ultimately show ?case
    using Cons.IH[of s1] Cons.prems by (auto simp: s1 fun_eq_iff)
qed

text \<open>Queue numbers are handed out in order, and a queue not handed out yet is empty.\<close>

definition sm_wf :: "stream_manager \<Rightarrow> bool" where
  "sm_wf sm \<longleftrightarrow>
     (\<forall>q\<ge>next_queue sm. contents sm q = []) \<and>
     (\<forall>t r. \<forall>q\<in>set (dd_get (sm_queues sm) t r). q < next_queue sm) \<and>
     (\<forall>t r. distinct (dd_get (sm_control_queues sm) t r) \<and>
            (\<forall>q\<in>set (dd_get (sm_control_queues sm) t r). q < next_queue sm)) \<and>
     (\<forall>t. \<forall>q\<in>set (dget_default (sm_thread_streams sm) t []). q < next_queue sm)"

lemma sm_wf_init: "sm_wf stream_manager_init"
  by (simp add: sm_wf_def stream_manager_init_def dd_get_def dget_default_def)

section \<open>Delivery\<close>

datatype stream_op =
    MPut nat uuid "uuid option" message bool
  | MPutThread nat uuid message
  | MAdd uuid "uuid option"
  | MAddControl uuid "uuid option"
  | MAddThread uuid
  | MSubscribe uuid "uuid option"
  | MRemove uuid "uuid option" nat
  | MRemoveControl uuid "uuid option" nat
  | MGet nat

fun stream_step :: "stream_op \<Rightarrow> stream_manager \<Rightarrow> stream_manager" where
  "stream_step (MPut ms r t m res) sm = stream_put ms r t m res sm"
| "stream_step (MPutThread ms t m) sm = put_thread ms t m sm"
| "stream_step (MAdd r t) sm = snd (add_queue r t sm)"
| "stream_step (MAddControl r t) sm = snd (add_control_queue r t sm)"
| "stream_step (MAddThread t) sm = snd (add_thread_stream t sm)"
| "stream_step (MSubscribe r t) sm = snd (stream_subscribe r t sm)"
| "stream_step (MRemove r t q) sm = snd (remove_queue r t q sm)"
| "stream_step (MRemoveControl r t q) sm = snd (remove_control_queue r t q sm)"
| "stream_step (MGet q) sm = (case get_nowait q sm of None \<Rightarrow> sm | Some (m, sm') \<Rightarrow> sm')"

text \<open>The queues a message is addressed to, and the message as sent.\<close>

definition recipients :: "uuid \<Rightarrow> uuid option \<Rightarrow> message \<Rightarrow> stream_manager \<Rightarrow> nat list" where
  "recipients r t m sm =
     dd_get (if is_control_topic (m_topic m) then sm_control_queues sm else sm_queues sm) (thread_key t) r"

definition stamped :: "nat \<Rightarrow> message \<Rightarrow> message" where
  "stamped ms m = m\<lparr>m_id := Some (generate_ms_seq_id ms)\<rparr>"

text \<open>What an operation sends to a queue, and what it takes out of it.\<close>

fun routed :: "stream_op \<Rightarrow> stream_manager \<Rightarrow> nat \<Rightarrow> message list" where
  "routed (MPut ms r t m res) sm q = replicate (count_list (recipients r t m sm) q) (stamped ms m)"
| "routed (MPutThread ms t m) sm q =
     replicate (count_list (dget_default (sm_thread_streams sm) t []) q) (stamped ms m)"
| "routed (MSubscribe r t) sm q =
     (if q = next_queue sm
      then concat (map (contents sm) (dd_get (sm_control_queues sm) (thread_key t) r)) else [])"
| "routed _ sm q = []"

fun taken :: "stream_op \<Rightarrow> stream_manager \<Rightarrow> nat \<Rightarrow> message list" where
  "taken (MSubscribe r t) sm q =
     (if q \<in> set (dd_get (sm_control_queues sm) (thread_key t) r) then contents sm q else [])"
| "taken (MGet q') sm q = (if q = q' then take 1 (contents sm q) else [])"
| "taken _ sm q = []"

fun run_stream :: "stream_op list \<Rightarrow> stream_manager \<Rightarrow> stream_manager" where
  "run_stream [] sm = sm"
| "run_stream (x # xs) sm = run_stream xs (stream_step x sm)"

fun trace :: "(stream_op \<Rightarrow> stream_manager \<Rightarrow> nat \<Rightarrow> message list) \<Rightarrow> stream_op list \<Rightarrow> stream_manager \<Rightarrow> nat \<Rightarrow> message list" where
  "trace f [] sm q = []"
| "trace f (x # xs) sm q = f x sm q @ trace f xs (stream_step x sm) q"

lemma thread_streams_update:
  "dget_default (AList.update t v d) t' [] = (if t' = t then v else dget_default d t' [])"
  by (simp add: dget_default_def dict_simps)

lemma stream_put_fields:
  "contents (stream_put ms r t m res sm) q =
     contents sm q @ replicate (count_list (recipients r t m sm) q) (stamped ms m)"
  "dd_get (sm_queues (stream_put ms r t m res sm)) = dd_get (sm_queues sm)"
  "dd_get (sm_control_queues (stream_put ms r t m res sm)) = dd_get (sm_control_queues sm)"
  "sm_thread_streams (stream_put ms r t m res sm) = sm_thread_streams sm"
  "next_queue (stream_put ms r t m res sm) = next_queue sm"
  by (simp_all add: stream_put_def Let_def get_queues_def get_control_queues_def contents_push_each
      recipients_def stamped_def)

lemma put_thread_fields:
  "contents (put_thread ms t m sm) q =
     contents sm q @ replicate (count_list (dget_default (sm_thread_streams sm) t []) q) (stamped ms m)"
  "sm_queues (put_thread ms t m sm) = sm_queues sm"
  "sm_control_queues (put_thread ms t m sm) = sm_control_queues sm"
  "dget_default (sm_thread_streams (put_thread ms t m sm)) t' [] = dget_default (sm_thread_streams sm) t' []"
  "next_queue (put_thread ms t m sm) = next_queue sm"
  by (simp_all add: put_thread_def Let_def contents_push_each stamped_def thread_streams_update)

lemma add_queue_fields:
  "contents (snd (add_queue r t sm)) = (contents sm)(next_queue sm := [])"
  "dd_get (sm_queues (snd (add_queue r t sm))) t' r' =
     dd_get (sm_queues sm) t' r' @ (if t' = thread_key t \<and> r' = r then [next_queue sm] else [])"
  "sm_control_queues (snd (add_queue r t sm)) = sm_control_queues sm"
  "sm_thread_streams (snd (add_queue r t sm)) = sm_thread_streams sm"
  "next_queue (snd (add_queue r t sm)) = next_queue sm + 1"
  "fst (add_queue r t sm) = next_queue sm"
  by (simp_all add: add_queue_def Let_def new_queue_def)

lemma add_control_queue_fields:
  "contents (snd (add_control_queue r t sm)) = (contents sm)(next_queue sm := [])"
  "dd_get (sm_control_queues (snd (add_control_queue r t sm))) t' r' =
     dd_get (sm_control_queues sm) t' r' @ (if t' = thread_key t \<and> r' = r then [next_queue sm] else [])"
  "sm_queues (snd (add_control_queue r t sm)) = sm_queues sm"
  "sm_thread_streams (snd (add_control_queue r t sm)) = sm_thread_streams sm"
  "next_queue (snd (add_control_queue r t sm)) = next_queue sm + 1"
  by (simp_all add: add_control_queue_def Let_def new_queue_def)

lemma add_thread_stream_fields:
  "contents (snd (add_thread_stream t sm)) = (contents sm)(next_queue sm := [])"
  "dget_default (sm_thread_streams (snd (add_thread_stream t sm))) t' [] =
     dget_default (sm_thread_streams sm) t' [] @ (if t' = t then [next_queue sm] else [])"
  "sm_queues (snd (add_thread_stream t sm)) = sm_queues sm"
  "sm_control_queues (snd (add_thread_stream t sm)) = sm_control_queues sm"
  "next_queue (snd (add_thread_stream t sm)) = next_queue sm + 1"
  by (simp_all add: add_thread_stream_def Let_def new_queue_def thread_streams_update)

lemma fresh_control: "sm_wf sm \<Longrightarrow> next_queue sm \<notin> set (dd_get (sm_control_queues sm) t r)"
  unfolding sm_wf_def by (metis less_irrefl_nat)

lemma subscribe_eq:
  assumes wf: "sm_wf sm"
  shows "snd (stream_subscribe r t sm) = (snd (add_queue r t sm))\<lparr>contents :=
    (\<lambda>x. if x \<in> set (dd_get (sm_control_queues sm) (thread_key t) r) then []
         else if x = next_queue sm
              then concat (map (contents sm) (dd_get (sm_control_queues sm) (thread_key t) r))
              else contents sm x)\<rparr>"
proof -
  let ?cs = "dd_get (sm_control_queues sm) (thread_key t) r"
  have fresh: "next_queue sm \<notin> set ?cs" and dist: "distinct ?cs"
    using wf fresh_control[OF wf] by (auto simp: sm_wf_def)
  have map: "map (contents (snd (add_queue r t sm))) ?cs = map (contents sm) ?cs"
    using fresh by (auto simp: add_queue_fields)
  have "snd (stream_subscribe r t sm) =
      fold (\<lambda>c s. case drain c s of (ms, s') \<Rightarrow> fold (push (next_queue sm)) ms s') ?cs (snd (add_queue r t sm))"
    by (simp add: stream_subscribe_def case_prod_unfold add_queue_fields)
  also have "\<dots> = (snd (add_queue r t sm))\<lparr>contents := (\<lambda>x. if x \<in> set ?cs then [] else
      if x = next_queue sm
      then contents (snd (add_queue r t sm)) (next_queue sm) @ concat (map (contents (snd (add_queue r t sm))) ?cs)
      else contents (snd (add_queue r t sm)) x)\<rparr>"
    by (rule drain_into[OF fresh dist])
  finally show ?thesis
    by (simp only: map cong: if_cong) (simp add: add_queue_fields cong: if_cong)
qed

lemmas stream_fields = stream_put_fields put_thread_fields add_queue_fields add_control_queue_fields
  add_thread_stream_fields

lemma stream_step_wf:
  assumes wf: "sm_wf sm"
  shows "sm_wf (stream_step x sm)"
proof (cases x)
  case (MPut ms r t m res)
  have "q \<ge> next_queue sm \<Longrightarrow> count_list (recipients r t m sm) q = 0" for q
    using wf by (fastforce simp: sm_wf_def recipients_def count_list_0_iff split: if_splits)
  then show ?thesis using wf MPut by (simp add: sm_wf_def stream_fields)
next
  case (MPutThread ms t m)
  have "q \<ge> next_queue sm \<Longrightarrow> count_list (dget_default (sm_thread_streams sm) t []) q = 0" for q
    using wf by (fastforce simp: sm_wf_def count_list_0_iff)
  then show ?thesis using wf MPutThread by (simp add: sm_wf_def stream_fields)
next
  case (MAdd r t)
  then show ?thesis using wf by (fastforce simp: sm_wf_def stream_fields)
next
  case (MAddControl r t)
  then show ?thesis using wf by (fastforce simp: sm_wf_def stream_fields)
next
  case (MAddThread t)
  then show ?thesis using wf by (fastforce simp: sm_wf_def stream_fields)
next
  case (MSubscribe r t)
  then show ?thesis using wf by (fastforce simp: subscribe_eq sm_wf_def stream_fields)
next
  case (MRemove r t q)
  show ?thesis
  proof (cases "dd_remove (sm_queues sm) (thread_key t) r q")
    case (Inl e)
    with MRemove wf show ?thesis by (simp add: remove_queue_def)
  next
    case (Inr d)
    with MRemove wf dd_get_remove[OF Inr] show ?thesis
      by (auto simp: remove_queue_def sm_wf_def dest: set_remove1_subset[THEN subsetD])
  qed
next
  case (MRemoveControl r t q)
  show ?thesis
  proof (cases "dd_remove (sm_control_queues sm) (thread_key t) r q")
    case (Inl e)
    with MRemoveControl wf show ?thesis by (simp add: remove_control_queue_def)
  next
    case (Inr d)
    with MRemoveControl wf dd_get_remove[OF Inr] show ?thesis
      by (auto simp: remove_control_queue_def sm_wf_def dest: set_remove1_subset[THEN subsetD])
  qed
next
  case (MGet q)
  then show ?thesis using wf by (auto simp: get_nowait_def sm_wf_def split: list.split)
qed

lemma stream_step_delivery:
  assumes wf: "sm_wf sm"
  shows "taken x sm q @ contents (stream_step x sm) q = contents sm q @ routed x sm q"
proof -
  have "contents sm (next_queue sm) = []" using wf by (simp add: sm_wf_def)
  with fresh_control[OF wf] show ?thesis
    by (cases x) (auto simp: stream_fields subscribe_eq[OF wf] get_nowait_def remove_queue_def
        remove_control_queue_def split: list.split sum.split)
qed

lemma run_stream_delivery:
  "sm_wf sm \<Longrightarrow> trace taken xs sm q @ contents (run_stream xs sm) q = contents sm q @ trace routed xs sm q"
proof (induction xs arbitrary: sm)
  case Nil
  then show ?case by simp
next
  case (Cons x xs)
  have "trace taken (x # xs) sm q @ contents (run_stream (x # xs) sm) q =
      taken x sm q @ (trace taken xs (stream_step x sm) q @ contents (run_stream xs (stream_step x sm)) q)"
    by simp
  also have "\<dots> = (taken x sm q @ contents (stream_step x sm) q) @ trace routed xs (stream_step x sm) q"
    using Cons.IH[OF stream_step_wf[OF Cons.prems]] by simp
  also have "\<dots> = contents sm q @ trace routed (x # xs) sm q"
    using stream_step_delivery[OF Cons.prems] by simp
  finally show ?case .
qed

section \<open>Message ids\<close>

lemma less_snoc:
  "length xs = length ys \<Longrightarrow> xs @ [c] < ys @ [d] \<longleftrightarrow> xs < ys \<or> xs = ys \<and> c < (d :: char)"
  by (induction xs ys rule: list_induct2) auto

lemma less_append_same:
  "length xs = length ys \<Longrightarrow> xs @ s < ys @ s \<longleftrightarrow> xs < (ys :: string)"
  by (induction xs ys rule: list_induct2) auto

lemma digit_less: "m < 10 \<Longrightarrow> n < 10 \<Longrightarrow> (char_of (48 + m) :: char) < char_of (48 + n) \<longleftrightarrow> m < (n :: nat)"
  by (simp add: less_char_def)

lemma digit_eq: "m < 10 \<Longrightarrow> n < 10 \<Longrightarrow> (char_of (48 + m) :: char) = char_of (48 + n) \<longleftrightarrow> m = (n :: nat)"
  by (metis digit_less nat_neq_iff)

lemma div_mod_10:
  fixes a b :: nat
  shows "a < b \<longleftrightarrow> a div 10 < b div 10 \<or> a div 10 = b div 10 \<and> a mod 10 < b mod 10"
    and "a = b \<longleftrightarrow> a div 10 = b div 10 \<and> a mod 10 = b mod 10"
proof -
  obtain q r p s where q: "q = a div 10" "r = a mod 10" "p = b div 10" "s = b mod 10" by blast
  have "a = 10 * q + r" "b = 10 * p + s" "r < 10" "s < 10" by (simp_all add: q)
  then show "a < b \<longleftrightarrow> a div 10 < b div 10 \<or> a div 10 = b div 10 \<and> a mod 10 < b mod 10"
    unfolding q[symmetric] by linarith
  show "a = b \<longleftrightarrow> a div 10 = b div 10 \<and> a mod 10 = b mod 10"
    by (metis div_mult_mod_eq)
qed

text \<open>Decimal texts with as many digits compare like the numbers.\<close>

lemma nat_str_order:
  "length (nat_str a) = length (nat_str b) \<Longrightarrow>
   (nat_str a < nat_str b \<longleftrightarrow> a < b) \<and> (nat_str a = nat_str b \<longleftrightarrow> a = b)"
proof (induction a arbitrary: b rule: nat_str.induct)
  case (1 a)
  have len: "nat_str n \<noteq> []" for n by (simp add: nat_str.simps[of n])
  show ?case
  proof (cases "a < 10 \<or> b < 10")
    case True
    then have "a < 10 \<and> b < 10"
      using 1(2) len[of "a div 10"] len[of "b div 10"]
      by (auto simp: nat_str.simps[of a] nat_str.simps[of b] split: if_splits)
    then show ?thesis by (simp add: nat_str.simps[of a] nat_str.simps[of b] digit_less digit_eq)
  next
    case False
    then have eqs: "nat_str a = nat_str (a div 10) @ [char_of (48 + a mod 10)]"
        "nat_str b = nat_str (b div 10) @ [char_of (48 + b mod 10)]"
      by (simp_all add: nat_str.simps[of a] nat_str.simps[of b])
    with 1(2) have len: "length (nat_str (a div 10)) = length (nat_str (b div 10))" by simp
    have IH: "(nat_str (a div 10) < nat_str (b div 10) \<longleftrightarrow> a div 10 < b div 10) \<and>
        (nat_str (a div 10) = nat_str (b div 10) \<longleftrightarrow> a div 10 = b div 10)"
      using False 1(1)[OF _ len] by simp
    have m: "a mod 10 < 10" "b mod 10 < 10" by simp_all
    have "nat_str a < nat_str b \<longleftrightarrow> a div 10 < b div 10 \<or> a div 10 = b div 10 \<and> a mod 10 < b mod 10"
      by (simp only: eqs less_snoc[OF len] digit_less[OF m] IH)
    also have "\<dots> \<longleftrightarrow> a < b" by (rule div_mod_10(1)[symmetric])
    finally have less: "nat_str a < nat_str b \<longleftrightarrow> a < b" .
    have "nat_str a = nat_str b \<longleftrightarrow> a div 10 = b div 10 \<and> a mod 10 = b mod 10"
      by (simp only: eqs append1_eq_conv digit_eq[OF m] IH)
    also have "\<dots> \<longleftrightarrow> a = b" by (rule div_mod_10(2)[symmetric])
    finally show ?thesis using less by blast
  qed
qed

lemma length_nat_str: "10 ^ k \<le> n \<Longrightarrow> n < 10 ^ Suc k \<Longrightarrow> length (nat_str n) = Suc k"
proof (induction k arbitrary: n)
  case 0
  then show ?case by (simp add: nat_str.simps[of n])
next
  case (Suc k)
  have "10 \<le> (10::nat) ^ Suc k" by (rule self_le_power) simp_all
  then have "\<not> n < 10" using order_trans[OF _ Suc.prems(1)] by (simp only: not_less)
  moreover have "length (nat_str (n div 10)) = Suc k"
    using Suc.prems by (intro Suc.IH) (auto simp: less_eq_div_iff_mult_less_eq div_less_iff_less_mult)
  ultimately show ?case by (simp add: nat_str.simps[of n])
qed

text \<open>Thirteen-digit clocks: from September 2001 to November 2286.\<close>

definition epoch_ms :: "nat \<Rightarrow> bool" where
  "epoch_ms ms \<longleftrightarrow> 10 ^ 12 \<le> ms \<and> ms < 10 ^ 13"

lemma message_id_order:
  assumes "epoch_ms a" and "epoch_ms b"
  shows "generate_ms_seq_id a < generate_ms_seq_id b \<longleftrightarrow> a < b"
proof -
  have "length (nat_str a) = length (nat_str b)"
    using assms length_nat_str[of 12] by (simp add: epoch_ms_def)
  then show ?thesis by (simp add: generate_ms_seq_id_def less_append_same nat_str_order)
qed

section \<open>Joining a run stream\<close>

definition run_stream_mode_matches :: "string \<Rightarrow> string list \<Rightarrow> bool" where
  "run_stream_mode_matches event_mode stream_mode \<longleftrightarrow>
     (if stream_mode = [] then True
      else if event_mode \<in> set stream_mode then True
      else if (''messages'' \<in> set stream_mode \<or> ''messages-tuple'' \<in> set stream_mode) \<and> prefix ''messages'' event_mode
      then True
      else CHR ''|'' \<in> set event_mode \<and> takeWhile (\<lambda>c. c \<noteq> CHR ''|'') event_mode \<in> set stream_mode)"

type_synonym stream_event = "string \<times> string \<times> string option"

datatype join_outcome = Finished | Failed exc | Waiting

text \<open>The replay of stored messages: \<open>True\<close> when a stored \<open>done\<close> ends the stream.\<close>

fun join_replay :: "(message \<Rightarrow> string \<times> string) \<Rightarrow> string list \<Rightarrow> message list \<Rightarrow> stream_event list \<times> bool" where
  "join_replay decode modes [] = ([], False)"
| "join_replay decode modes (m # ms) =
     (case decode m of (mode, payload) \<Rightarrow>
        if mode = ''control''
        then (if payload = ''done'' then ([], True) else join_replay decode modes ms)
        else if run_stream_mode_matches mode modes
        then (case join_replay decode modes ms of (es, stop) \<Rightarrow> ((mode, payload, m_id m) # es, stop))
        else join_replay decode modes ms)"

text \<open>
  The run row as far as the loop reads it: whether it is resumable, and its status. \<open>None\<close> is a run
  that was not found. An input of the loop is a message, or a timeout with the row read then.
\<close>

type_synonym run_info = "(bool \<times> string) option"

datatype join_input = JMessage message | JTimeout run_info

fun join_live ::
  "(message \<Rightarrow> string \<times> string) \<Rightarrow> string list \<Rightarrow> bool \<Rightarrow> string \<Rightarrow> run_info \<Rightarrow> join_input list \<Rightarrow>
   stream_event list \<times> join_outcome" where
  "join_live decode modes ignore_404 not_found run [] = ([], Waiting)"
| "join_live decode modes ignore_404 not_found run (JMessage m # xs) =
     (case decode m of (mode, payload) \<Rightarrow>
        if mode = ''control''
        then (if payload = ''done'' then ([], Finished)
              else join_live decode modes ignore_404 not_found run xs)
        else if run_stream_mode_matches mode modes
        then (case run of
                None \<Rightarrow> ([], Failed attribute_error)
              | Some (resumable, status) \<Rightarrow>
                  (case join_live decode modes ignore_404 not_found run xs of (es, out) \<Rightarrow>
                     ((mode, payload, if resumable then m_id m else None) # es, out)))
        else join_live decode modes ignore_404 not_found run xs)"
| "join_live decode modes ignore_404 not_found run (JTimeout run' # xs) =
     (case run' of
        None \<Rightarrow> (if ignore_404 then ([], Finished) else ([(''error'', not_found, None)], Finished))
      | Some (resumable, status) \<Rightarrow>
          if status \<notin> {''pending'', ''running''} then ([], Finished)
          else join_live decode modes ignore_404 not_found run' xs)"

definition stream_join ::
  "(message \<Rightarrow> string \<times> string) \<Rightarrow> uuid \<Rightarrow> uuid option \<Rightarrow> string list \<Rightarrow> bool \<Rightarrow> string \<Rightarrow> string option \<Rightarrow>
   run_info \<Rightarrow> stream_manager \<Rightarrow> join_input list \<Rightarrow> stream_event list \<times> join_outcome" where
  "stream_join decode run_id tid modes ignore_404 not_found last_event_id run sm inputs =
     (case join_replay decode modes (restore_messages run_id tid last_event_id sm) of (es, stop) \<Rightarrow>
        if stop then (es, Finished)
        else (case join_live decode modes ignore_404 not_found run inputs of (es', out) \<Rightarrow> (es @ es', out)))"

section \<open>Listening for cancellations\<close>

datatype signal = Rollback | Interrupt_signal | Done_signal

text \<open>The loop: an input is a message, or \<open>None\<close> for the timeout, which ends the listener.\<close>

fun listen_loop :: "message option list \<Rightarrow> signal option" where
  "listen_loop [] = None"
| "listen_loop (None # xs) = None"
| "listen_loop (Some m # xs) =
     (if m_data m = ''rollback'' then Some Rollback
      else if m_data m = ''interrupt'' then Some Interrupt_signal
      else if m_data m = ''done'' then Some Done_signal
      else listen_loop xs)"

definition listen_for_cancellation :: "uuid \<Rightarrow> uuid option \<Rightarrow> stream_manager \<Rightarrow> message option list \<Rightarrow> signal option" where
  "listen_for_cancellation run_id tid sm inputs =
     (case get_control_key run_id tid sm of
        None \<Rightarrow> listen_loop inputs
      | Some m \<Rightarrow>
          if m_data m = ''rollback'' then Some Rollback
          else if m_data m = ''interrupt'' then Some Interrupt_signal
          else listen_loop inputs)"

section \<open>The thread stream\<close>

text \<open>
  \<open>Threads.Stream.subscribe\<close>: a queue for the thread itself, and one for every run of the thread
  not seen before; \<open>runs\<close> lists the run rows as (run id, thread id).
\<close>

definition subscribe_runs ::
  "uuid \<Rightarrow> (uuid \<times> uuid) list \<Rightarrow> uuid list \<Rightarrow> stream_manager \<Rightarrow>
   (uuid \<times> nat) list \<times> uuid list \<times> stream_manager" where
  "subscribe_runs tid runs seen sm =
     fold (\<lambda>(run_id, t) (queues, seen, sm).
        if t = tid \<and> run_id \<notin> set seen
        then (case add_queue run_id (Some tid) sm of (q, sm') \<Rightarrow>
                (queues @ [(run_id, q)], seen @ [run_id], sm'))
        else (queues, seen, sm)) runs ([], seen, sm)"

definition thread_subscribe ::
  "uuid \<Rightarrow> (uuid \<times> uuid) list \<Rightarrow> uuid list \<Rightarrow> stream_manager \<Rightarrow>
   (uuid \<times> nat) list \<times> uuid list \<times> stream_manager" where
  "thread_subscribe tid runs seen sm =
     (if tid \<notin> set seen
      then (case add_thread_stream tid sm of (q, sm1) \<Rightarrow>
              (case subscribe_runs tid runs (seen @ [tid]) sm1 of (queues, seen', sm2) \<Rightarrow>
                 ((tid, q) # queues, seen', sm2)))
      else subscribe_runs tid runs seen sm)"

text \<open>
  Whether an event is left out of a thread stream. \<open>loads\<close> is the JSON reader, \<open>None\<close> a text it
  rejects; a payload that is not an object has no \<open>get\<close>.
\<close>

definition should_filter_event :: "(string \<Rightarrow> pyval option) \<Rightarrow> string list \<Rightarrow> string \<Rightarrow> string \<Rightarrow> bool res" where
  "should_filter_event loads modes event_name payload =
     (if ''run_modes'' \<in> set modes \<and> event_name \<noteq> ''state_update'' then Inr False
      else if ''state_update'' \<in> set modes \<and> event_name = ''state_update'' then Inr False
      else if ''lifecycle'' \<in> set modes \<and> event_name = ''metadata'' then
        (case loads payload of
           None \<Rightarrow> Inr True
         | Some (PDict d) \<Rightarrow>
             Inr (\<not> (map_of d ''status'' = Some (PStr ''run_done'') \<or>
                     (map_of d ''attempt'' \<noteq> None \<and> map_of d ''run_id'' \<noteq> None)))
         | Some _ \<Rightarrow> Inl attribute_error)
      else Inr True)"

text \<open>
  The replay of a thread stream: the stored messages of all its runs after the given id, in the
  order of their ids. \<open>dumps\<close> writes the lifecycle event of a finished run.
\<close>

definition thread_restore :: "uuid \<Rightarrow> string \<Rightarrow> stream_manager \<Rightarrow> (message \<times> uuid) list" where
  "thread_restore tid last_event_id sm =
     py_sorted (\<lambda>(m, r). case m_id m of None \<Rightarrow> [] | Some i \<Rightarrow> i) False
       (concat (map (\<lambda>(run_id, ms). map (\<lambda>m. (m, run_id)) (restore_messages run_id (Some tid) (Some last_event_id) sm))
          (dget_default (sm_message_stores sm) (ThreadKey tid) [])))"

definition run_done_payload :: "(pyval \<Rightarrow> string) \<Rightarrow> uuid \<Rightarrow> string" where
  "run_done_payload dumps run_id =
     dumps (PDict [(''status'', PStr ''run_done''), (''run_id'', PStr run_id)])"

fun thread_replay ::
  "(message \<Rightarrow> string \<times> string) \<Rightarrow> (string \<Rightarrow> pyval option) \<Rightarrow> (pyval \<Rightarrow> string) \<Rightarrow> string list \<Rightarrow>
   (message \<times> uuid) list \<Rightarrow> (string \<times> string \<times> string option \<times> uuid) list res" where
  "thread_replay decode loads dumps modes [] = Inr []"
| "thread_replay decode loads dumps modes ((m, run_id) # ms) =
     (let (event, payload) = decode m;
          (event, payload) =
            (if event = ''control'' \<and> payload = ''done''
             then (''metadata'', run_done_payload dumps run_id) else (event, payload))
      in bind_res (should_filter_event loads modes event payload) (\<lambda>skip.
         bind_res (thread_replay decode loads dumps modes ms) (\<lambda>es.
           Inr (if skip then es else (event, payload, m_id m, run_id) # es))))"

section \<open>Properties\<close>

text \<open>
  C16. Delivery is lossless and in order. From a fresh manager, along any sequence of publications,
  subscriptions and reads, what has been taken from a queue followed by what still waits in it is
  exactly the sequence of messages addressed to it, each once and in the order of publication.
\<close>

theorem stream_delivery_exact:
  "trace taken ops stream_manager_init q @ contents (run_stream ops stream_manager_init) q =
   trace routed ops stream_manager_init q"
  using run_stream_delivery[OF sm_wf_init, of ops q] by (simp add: stream_manager_init_def)

text \<open>
  C25. Resumption returns exactly the later messages. When every stored message of a run carries the
  id of its millisecond clock, resuming after the id of a clock yields, in order, exactly the stored
  messages of strictly later clocks (for clocks of thirteen digits).
\<close>

theorem restore_messages_exact:
  assumes "\<forall>m\<in>set (dd_get (sm_message_stores sm) (thread_key tid) run_id).
      epoch_ms (clock m) \<and> m_id m = Some (generate_ms_seq_id (clock m))"
    and "epoch_ms ms"
  shows "restore_messages run_id tid (Some (generate_ms_seq_id ms)) sm =
    filter (\<lambda>m. ms < clock m) (dd_get (sm_message_stores sm) (thread_key tid) run_id)"
  using assms by (auto simp: restore_messages_def message_id_order intro!: filter_cong)

definition demo_message :: "string \<Rightarrow> message" where
  "demo_message d = \<lparr>m_topic = ''run:r:stream'', m_data = d, m_id = None\<rparr>"

definition demo_stream :: stream_manager where
  "demo_stream =
     stream_put 1700000000001 ''r'' (Some ''t'') (demo_message ''b'') True
       (stream_put 1700000000000 ''r'' (Some ''t'') (demo_message ''a'') True stream_manager_init)"

theorem restore_messages_exact_witness:
  "map m_data (restore_messages ''r'' (Some ''t'') (Some (generate_ms_seq_id 1700000000000)) demo_stream) = [''b'']"
proof -
  let ?clock = "\<lambda>m. if m_data m = ''a'' then 1700000000000 else 1700000000001 :: nat"
  have stored: "dd_get (sm_message_stores demo_stream) (thread_key (Some ''t'')) ''r'' =
      [stamped 1700000000000 (demo_message ''a''), stamped 1700000000001 (demo_message ''b'')]"
    by (simp add: demo_stream_def stream_put_def Let_def demo_message_def get_queues_def
        get_control_queues_def stream_manager_init_def stamped_def case_prod_unfold)
      (simp add: dd_get_def dget_default_def)
  have "restore_messages ''r'' (Some ''t'') (Some (generate_ms_seq_id 1700000000000)) demo_stream =
      filter (\<lambda>m. 1700000000000 < ?clock m) (dd_get (sm_message_stores demo_stream) (thread_key (Some ''t'')) ''r'')"
    by (rule restore_messages_exact)
      (simp_all only: stored, simp_all add: stamped_def demo_message_def epoch_ms_def)
  then show ?thesis by (simp only: stored) (simp add: stamped_def demo_message_def)
qed

text \<open>
  Two messages of one millisecond cannot be told apart: a message published in the millisecond
  of the id a client resumes after is not replayed, whether or not the client received it.
\<close>

theorem same_millisecond_not_replayed:
  "restore_messages run_id tid (Some (generate_ms_seq_id ms)) (stream_put ms run_id tid m resumable sm) =
   restore_messages run_id tid (Some (generate_ms_seq_id ms)) sm"
  by (simp add: restore_messages_def stream_put_def Let_def get_queues_def get_control_queues_def
      case_prod_unfold)

lemma is_control_topic_run: "is_control_topic (pre @ ''control'' @ post)"
proof -
  have "suffix (''control'' @ post) (pre @ ''control'' @ post)" by (rule suffixI) (rule refl)
  then show ?thesis
    unfolding is_control_topic_def list_ex_iff in_set_suffixes[symmetric]
    by (intro bexI[of _ "''control'' @ post"]) simp_all
qed

lemma control_key_after_put:
  "get_control_key r t (stream_put ms run_id tid m resumable sm) =
     (if is_control_topic (m_topic m) \<and> r = run_id \<and> thread_key t = thread_key tid
      then Some (stamped ms m) else get_control_key r t sm)"
proof -
  have "sm_control_keys (fold (\<lambda>q. push q m) qs s) = sm_control_keys s" for m qs s
    by (induction qs arbitrary: s) (simp_all add: push_def)
  then show ?thesis
    by (auto simp: get_control_key_def stream_put_def Let_def get_queues_def get_control_queues_def
        stamped_def dd_set_def dget_default_def dict_simps split: option.splits)
qed

text \<open>
  A run-stream join yields exactly the matching events before the first \<open>done\<close>: each message
  whose mode matches the filter, in order, with its id exactly when the run is resumable; it ends at
  \<open>done\<close> and otherwise waits for more.
\<close>

theorem join_live_exact:
  "join_live decode modes ignore_404 not_found (Some (resumable, status)) (map JMessage ms) =
     (map (\<lambda>m. (fst (decode m), snd (decode m), if resumable then m_id m else None))
        (filter (\<lambda>m. fst (decode m) \<noteq> ''control'' \<and> run_stream_mode_matches (fst (decode m)) modes)
          (takeWhile (\<lambda>m. decode m \<noteq> (''control'', ''done'')) ms)),
      if (''control'', ''done'') \<in> decode ` set ms then Finished else Waiting)"
  by (induction ms) (auto split: prod.split)

section \<open>Cancellations\<close>

definition signal_of :: "string \<Rightarrow> signal option" where
  "signal_of action =
     (if action = ''rollback'' then Some Rollback
      else if action = ''interrupt'' then Some Interrupt_signal
      else if action = ''done'' then Some Done_signal else None)"

lemma listen_loop_append:
  "listen_loop (map Some ms @ inputs) = (case listen_loop (map Some ms) of None \<Rightarrow> listen_loop inputs | Some x \<Rightarrow> Some x)"
  by (induction ms) simp_all

lemma listen_one: "listen_loop [Some m] = signal_of (m_data m)"
  by (simp add: signal_of_def)

lemma listen_copies: "0 < n \<Longrightarrow> listen_loop (map Some (replicate n m)) = signal_of (m_data m)"
proof (induction n)
  case (Suc n)
  then show ?case by (cases n) (auto simp: signal_of_def)
qed simp

text \<open>A listener that has heard nothing yet hears what comes next.\<close>

lemma listen_more:
  assumes "listen_for_cancellation r t sm (map Some ms) = None"
  shows "listen_for_cancellation r t sm (map Some ms @ inputs) = listen_loop inputs"
  using assms by (auto simp: listen_for_cancellation_def listen_loop_append split: option.splits if_splits)

lemma thread_key_eq: "thread_key t = thread_key tid \<longleftrightarrow> t = tid"
  by (auto simp: thread_key_def split: option.splits)

text \<open>
  C36. A cancellation reaches the listeners of its run, running and late, and no others. Let a control
  message be published for a run under a thread key, in any state of the manager. A listener registered
  under that run and key which was started in any earlier state, has taken some messages from its queue
  and has heard nothing in them nor in what still waits there, now finds the message behind them and ends
  with its signal (rollback, interrupt, done). The queues of all other listeners stay as they are. A
  listener that starts only now is told a rollback or an interruption by the stored control message,
  exactly if it listens to this run under this thread key; for every other one (a run cancelled under the
  threadless key, say) nothing changes. That a listener's own queue may be emptied by a subscriber before
  it has read it is a separate finding.
\<close>

theorem cancellation_reaches_listener:
  assumes "q \<in> set (dd_get (sm_control_queues sm) (thread_key tid) run_id)"
    and "listen_for_cancellation run_id tid started (map Some (seen @ contents sm q)) = None"
  shows "let m = \<lparr>m_topic = ''run:'' @ run_id @ '':control'', m_data = action, m_id = None\<rparr>;
             sm' = stream_put ms run_id tid m resumable sm
    in listen_for_cancellation run_id tid started (map Some (seen @ contents sm' q)) = signal_of action \<and>
       (\<forall>p. p \<notin> set (dd_get (sm_control_queues sm) (thread_key tid) run_id) \<longrightarrow> contents sm' p = contents sm p) \<and>
       (\<forall>r t inputs. listen_for_cancellation r t sm' inputs =
          (if r = run_id \<and> t = tid
           then (if action \<in> {''rollback'', ''interrupt''} then signal_of action else listen_loop inputs)
           else listen_for_cancellation r t sm inputs))"
proof -
  define m where "m = \<lparr>m_topic = ''run:'' @ run_id @ '':control'', m_data = action, m_id = None\<rparr>"
  define sm' where "sm' = stream_put ms run_id tid m resumable sm"
  have control: "is_control_topic (m_topic m)"
    using is_control_topic_run[of "''run:'' @ run_id @ '':''" "[]"] by (simp add: m_def)
  have heard: "contents sm' p = contents sm p @
      replicate (count_list (dd_get (sm_control_queues sm) (thread_key tid) run_id) p) (stamped ms m)" for p
    by (simp add: sm'_def stream_put_fields recipients_def control)
  have "0 < count_list (dd_get (sm_control_queues sm) (thread_key tid) run_id) q"
    using assms(1) by (simp add: count_list_0_iff flip: neq0_conv)
  from listen_copies[OF this, of "stamped ms m"] listen_more[OF assms(2)]
  have "listen_for_cancellation run_id tid started (map Some (seen @ contents sm' q)) = signal_of action"
    by (simp add: heard stamped_def m_def)
  moreover have "contents sm' p = contents sm p" if "p \<notin> set (dd_get (sm_control_queues sm) (thread_key tid) run_id)" for p
    using that by (simp add: heard count_list_0_iff)
  moreover have "listen_for_cancellation r t sm' inputs =
      (if r = run_id \<and> t = tid
       then (if action \<in> {''rollback'', ''interrupt''} then signal_of action else listen_loop inputs)
       else listen_for_cancellation r t sm inputs)" for r t inputs
    unfolding sm'_def listen_for_cancellation_def control_key_after_put
    using control by (simp add: thread_key_eq stamped_def) (auto simp: m_def signal_of_def)
  ultimately show ?thesis unfolding Let_def m_def[symmetric] sm'_def[symmetric] by blast
qed

text \<open>A worker starts to listen, and the run is cancelled: with its thread, and without.\<close>

theorem cancellation_reaches_listener_witness:
  "let (q, started) = add_control_queue ''r'' (Some ''t'') stream_manager_init;
       m = \<lparr>m_topic = ''run:r:control'', m_data = ''interrupt'', m_id = None\<rparr>;
       sm' = stream_put 1 ''r'' (Some ''t'') m False started
   in listen_for_cancellation ''r'' (Some ''t'') started (map Some (contents sm' q)) = Some Interrupt_signal \<and>
      listen_for_cancellation ''r'' None sm' [] = None"
proof -
  define started where "started = snd (add_control_queue ''r'' (Some ''t'') stream_manager_init)"
  have fst: "fst (add_control_queue ''r'' (Some ''t'') stream_manager_init) = 0"
    by (simp add: add_control_queue_def new_queue_def stream_manager_init_def Let_def)
  have q: "0 \<in> set (dd_get (sm_control_queues started) (thread_key (Some ''t'')) ''r'')"
    by (simp add: started_def add_control_queue_fields) (simp add: stream_manager_init_def)
  have key: "get_control_key r t started = None" for r t
    by (simp add: started_def add_control_queue_def new_queue_def stream_manager_init_def Let_def get_control_key_def
        dget_default_def)
  have quiet: "listen_for_cancellation ''r'' (Some ''t'') started (map Some ([] @ contents started 0)) = None"
    using key[of "''r''" "Some ''t''"]
    by (simp add: listen_for_cancellation_def started_def add_control_queue_fields) (simp add: stream_manager_init_def)
  from cancellation_reaches_listener[OF q quiet, of "''interrupt''" 1 False] key[of "''r''" None]
  show ?thesis
    by (simp add: case_prod_unfold fst signal_of_def listen_for_cancellation_def[of _ _ started] Let_def flip: started_def)
qed

end
