(* ===== verification/Thread_TTL.thy ===== *)
theory Thread_TTL
  imports Values
begin

text \<open>
  Time-to-live of threads (\<open>ops.py\<close>, \<open>_normalize_ttl_config\<close> to \<open>_thread_ttl_info\<close>): the
  validation of a TTL configuration, the per-thread overrides kept in the sidecar \<open>thread_ttls\<close>,
  the effective policy of a thread and its expiry. A Python float is an exact rational here, an
  infinity or not-a-number; the rounding of decimal texts to binary is not modelled.
\<close>

section \<open>Python floats\<close>

datatype pfloat = Finite rat | Infinity bool | Not_a_Number

text \<open>The smallest magnitude that rounds to infinity.\<close>

definition float_limit :: rat where
  "float_limit = 2 ^ 1024 - 2 ^ 970"

definition is_digit :: "char \<Rightarrow> bool" where
  "is_digit c \<longleftrightarrow> CHR ''0'' \<le> c \<and> c \<le> CHR ''9''"

definition digit_val :: "char \<Rightarrow> nat" where
  "digit_val c = of_char c - 48"

definition is_space :: "char \<Rightarrow> bool" where
  "is_space c \<longleftrightarrow> of_char c \<in> {9, 10, 11, 12, 13, 32 :: nat}"

definition strip_ws :: "string \<Rightarrow> string" where
  "strip_ws s = rev (dropWhile is_space (rev (dropWhile is_space s)))"

text \<open>A run of digits, single underscores allowed between digits: value, count and rest.\<close>

fun scan_digits :: "nat \<Rightarrow> nat \<Rightarrow> string \<Rightarrow> nat \<times> nat \<times> string" where
  "scan_digits acc n [] = (acc, n, [])"
| "scan_digits acc n (c # cs) =
     (if is_digit c then scan_digits (acc * 10 + digit_val c) (n + 1) cs
      else if c = CHR ''_'' \<and> 0 < n \<and> cs \<noteq> [] \<and> is_digit (hd cs) then scan_digits acc n cs
      else (acc, n, c # cs))"

definition scan_sign :: "string \<Rightarrow> bool \<times> string" where
  "scan_sign s =
     (case s of [] \<Rightarrow> (False, [])
      | c # cs \<Rightarrow> if c = CHR ''-'' then (True, cs) else if c = CHR ''+'' then (False, cs) else (False, s))"

definition scale_10 :: "bool \<Rightarrow> nat \<Rightarrow> rat \<Rightarrow> rat" where
  "scale_10 down e x = (if down then x / 10 ^ e else x * 10 ^ e)"

definition to_float :: "bool \<Rightarrow> rat \<Rightarrow> pfloat" where
  "to_float neg x =
     (if float_limit \<le> x then Infinity neg else Finite (if neg then - x else x))"

text \<open>\<open>float(text)\<close>; \<open>None\<close> is a \<open>ValueError\<close>.\<close>

definition parse_float :: "string \<Rightarrow> pfloat option" where
  "parse_float s =
     (let (neg, body) = scan_sign (strip_ws s); word = str_lower body
      in if word \<in> {''inf'', ''infinity''} then Some (Infinity neg)
         else if word = ''nan'' then Some Not_a_Number
         else
           (let (i, ni, r1) = scan_digits 0 0 body;
                (f, nf, r2) = (if r1 \<noteq> [] \<and> hd r1 = CHR ''.'' then scan_digits 0 0 (tl r1) else (0, 0, r1));
                mantissa = of_nat i + of_nat f / 10 ^ nf
            in if ni = 0 \<and> nf = 0 then None
               else if r2 = [] then Some (to_float neg mantissa)
               else if hd r2 \<in> {CHR ''e'', CHR ''E''} then
                 (let (down, r3) = scan_sign (tl r2); (e, ne, r4) = scan_digits 0 0 r3
                  in if ne = 0 \<or> r4 \<noteq> [] then None
                     else Some (to_float neg (scale_10 down e mantissa)))
               else None))"

text \<open>\<open>float(value)\<close> with the exception it raises.\<close>

definition py_float :: "pyval \<Rightarrow> pfloat res" where
  "py_float v =
     (case v of
        PBool b \<Rightarrow> Inr (Finite (if b then 1 else 0))
      | PInt i \<Rightarrow> if float_limit \<le> \<bar>of_int i\<bar> then Inl overflow_error else Inr (Finite (of_int i))
      | PFloat x \<Rightarrow> Inr (Finite x)
      | PStr s \<Rightarrow> (case parse_float s of None \<Rightarrow> Inl value_error | Some x \<Rightarrow> Inr x)
      | _ \<Rightarrow> Inl type_error)"

definition is_negative :: "pfloat \<Rightarrow> bool" where
  "is_negative x = (case x of Finite r \<Rightarrow> r < 0 | Infinity neg \<Rightarrow> neg | Not_a_Number \<Rightarrow> False)"

text \<open>\<open>value + timedelta(minutes=m)\<close>.\<close>

definition plus_minutes :: "time \<Rightarrow> pfloat \<Rightarrow> time res" where
  "plus_minutes t m =
     (case m of
        Finite r \<Rightarrow> add_minutes t r
      | Infinity neg \<Rightarrow> Inl overflow_error
      | Not_a_Number \<Rightarrow> Inl value_error)"

section \<open>Policies\<close>

record ttl_policy =
  ttl_strategy :: string
  ttl_minutes :: pfloat

text \<open>An entry of \<open>thread_ttls\<close>: an optional override and the marker of the last sweep.\<close>

record ttl_state =
  override :: "ttl_policy option"
  last_swept :: "time option"

type_synonym ttl_store = "(uuid, ttl_state) dict"

definition empty_ttl_state :: ttl_state where
  "empty_ttl_state = \<lparr>override = None, last_swept = None\<rparr>"

text \<open>\<open>str(value).lower()\<close>, for the values that can be a valid strategy: texts.\<close>

definition strategy_of :: "pdict \<Rightarrow> string option" where
  "strategy_of config =
     (case dget_default config ''strategy'' (PStr ''delete'') of PStr s \<Rightarrow> Some (str_lower s) | _ \<Rightarrow> None)"

definition ttl_value_of :: "pdict \<Rightarrow> pyval" where
  "ttl_value_of config =
     dget_default config ''ttl'' (dget_default config ''ttl_minutes'' (dget_default config ''default_ttl'' PNone))"

definition normalize_ttl_config :: "pdict option \<Rightarrow> ttl_policy option res" where
  "normalize_ttl_config config =
     (case config of
        None \<Rightarrow> Inr None
      | Some c \<Rightarrow>
          if c = [] then Inr None
          else case strategy_of c of
            None \<Rightarrow> Inl (HTTPException 422)
          | Some strategy \<Rightarrow>
              if strategy \<notin> {''delete'', ''keep_latest''} then Inl (HTTPException 422)
              else if ttl_value_of c = PNone then Inr None
              else case py_float (ttl_value_of c) of
                Inl e \<Rightarrow> Inl (if e \<in> {type_error, value_error} then HTTPException 422 else e)
              | Inr m \<Rightarrow>
                  if is_negative m then Inl (HTTPException 422)
                  else Inr (Some \<lparr>ttl_strategy = strategy, ttl_minutes = m\<rparr>))"

definition effective_thread_ttl ::
  "pdict option \<Rightarrow> ttl_store \<Rightarrow> uuid \<Rightarrow> (ttl_policy option \<times> ttl_state) res" where
  "effective_thread_ttl global_config ttls tid =
     (let state = dget_default ttls tid empty_ttl_state
      in case override state of
           Some policy \<Rightarrow> Inr (Some policy, state)
         | None \<Rightarrow> bind_res (normalize_ttl_config global_config) (\<lambda>config. Inr (config, state)))"

definition set_thread_ttl_override :: "uuid \<Rightarrow> pdict \<Rightarrow> ttl_store \<Rightarrow> unit res \<times> ttl_store" where
  "set_thread_ttl_override tid ttl ttls =
     (case normalize_ttl_config (Some ttl) of
        Inl e \<Rightarrow> (Inl e, ttls)
      | Inr None \<Rightarrow> (Inr (), AList.delete tid ttls)
      | Inr (Some policy) \<Rightarrow> (Inr (), AList.update tid \<lparr>override = Some policy, last_swept = None\<rparr> ttls))"

record ttl_info =
  info_strategy :: string
  info_minutes :: pfloat
  info_expires_at :: "time option"

definition already_swept :: "time \<Rightarrow> ttl_state \<Rightarrow> bool" where
  "already_swept updated_at state = (case last_swept state of None \<Rightarrow> False | Some t \<Rightarrow> updated_at \<le> t)"

definition thread_ttl_info :: "time \<Rightarrow> ttl_policy \<Rightarrow> ttl_state \<Rightarrow> ttl_info res" where
  "thread_ttl_info updated_at config state =
     (if already_swept updated_at state \<and> ttl_strategy config = ''keep_latest''
      then Inr \<lparr>info_strategy = ttl_strategy config, info_minutes = ttl_minutes config, info_expires_at = None\<rparr>
      else bind_res (plus_minutes updated_at (ttl_minutes config)) (\<lambda>t.
             Inr \<lparr>info_strategy = ttl_strategy config, info_minutes = ttl_minutes config,
                  info_expires_at = Some t\<rparr>))"

section \<open>Validation\<close>

definition valid_policy :: "ttl_policy \<Rightarrow> bool" where
  "valid_policy p \<longleftrightarrow> ttl_strategy p \<in> {''delete'', ''keep_latest''} \<and> \<not> is_negative (ttl_minutes p)"

lemma normalize_valid: "normalize_ttl_config c = Inr (Some p) \<Longrightarrow> valid_policy p"
  by (auto simp: normalize_ttl_config_def valid_policy_def split: option.splits if_splits sum.splits)

text \<open>Only policies that passed validation are ever stored.\<close>

definition ttls_valid :: "ttl_store \<Rightarrow> bool" where
  "ttls_valid ttls \<longleftrightarrow> wf_dict ttls \<and>
     (\<forall>(tid, state)\<in>set ttls. case override state of None \<Rightarrow> True | Some p \<Rightarrow> valid_policy p)"

lemma set_override_valid: "ttls_valid ttls \<Longrightarrow> ttls_valid (snd (set_thread_ttl_override tid ttl ttls))"
  by (auto simp: ttls_valid_def set_thread_ttl_override_def normalize_valid
      split: sum.split option.splits dest!: set_update_mem set_delete_mem)

lemma set_override_keys:
  "fst ` set (snd (set_thread_ttl_override tid ttl ttls)) \<subseteq> insert tid (fst ` set ttls)"
  by (auto simp: set_thread_ttl_override_def split: sum.split option.splits
      dest!: set_update_mem set_delete_mem)

end
