(* ===== verification/Runtime_State.thy ===== *)
theory Runtime_State
  imports Checkpoint_Ledger Filters Streams Thread_TTL
begin

text \<open>
  The state of the runtime: the rows of the five tables of \<open>GlobalStore\<close> (\<open>database.py\<close>), the TTL
  sidecar, the retry counter, the checkpoint saver and the stream manager, with the start-up and
  clearing operations and the lookups every component shares.

  An operation of a table takes the state and returns its result with the new state. The clock, the
  fresh identifiers and the authorization handler are arguments; the handler does not change the
  store. Between two suspension points of the source nothing else runs, so an operation is one step.
\<close>

section \<open>Rows\<close>

record assistant =
  a_id :: uuid
  a_graph :: string
  a_name :: string
  a_description :: "string option"
  a_created :: time
  a_updated :: time
  a_config :: pdict
  a_context :: pdict
  a_metadata :: pdict
  a_version :: int

record assistant_version =
  v_assistant :: uuid
  v_version :: int
  v_graph :: string
  v_config :: pdict
  v_context :: pdict
  v_metadata :: pdict
  v_created :: time
  v_name :: string
  v_description :: "string option"

text \<open>
  \<open>t_values\<close> is \<open>None\<close> for a row without the key \<open>values\<close>, \<open>Some PNone\<close> for one that holds
  Python's \<open>None\<close>; \<open>t_state_updated\<close> is \<open>None\<close> until \<open>setdefault\<close> fills it.
\<close>

record thread =
  t_id :: uuid
  t_created :: time
  t_updated :: time
  t_state_updated :: "time option"
  t_metadata :: pdict
  t_status :: string
  t_config :: pdict
  t_values :: "pyval option"
  t_interrupts :: "pyval option"
  t_error :: pyval

record run =
  r_id :: "uuid option"
  r_thread :: uuid
  r_assistant :: uuid
  r_metadata :: pdict
  r_status :: string
  r_kwargs :: pdict
  r_multitask :: string
  r_created :: time
  r_updated :: time
  r_session :: "string option"

record cron =
  c_id :: uuid
  c_assistant :: uuid
  c_thread :: "uuid option"
  c_user :: "string option"
  c_end_time :: "time option"
  c_schedule :: string
  c_timezone :: "string option"
  c_payload :: pdict
  c_next_run :: time
  c_metadata :: pdict
  c_on_completed :: "string option"
  c_enabled :: bool
  c_created :: time
  c_updated :: time

record world =
  runs :: "run list"
  threads :: "thread list"
  assistants :: "assistant list"
  assistant_versions :: "assistant_version list"
  crons :: "cron list"
  thread_ttls :: ttl_store
  retry_counter :: "(uuid option, int) dict"
  ckpt_saver :: saver
  streams :: stream_manager

definition world_init :: world where
  "world_init =
     \<lparr>runs = [], threads = [], assistants = [], assistant_versions = [], crons = [], thread_ttls = [],
      retry_counter = [], ckpt_saver = saver_init, streams = stream_manager_init\<rparr>"

section \<open>Start-up and clearing\<close>

definition created_by_system :: "pdict \<Rightarrow> bool" where
  "created_by_system metadata \<longleftrightarrow> map_of metadata ''created_by'' = Some (PStr ''system'')"

text \<open>\<open>GlobalStore.clear\<close> keeps the assistants created by the system, and drops their versions.\<close>

definition global_store_clear :: "world \<Rightarrow> world" where
  "global_store_clear w =
     w\<lparr>runs := [], threads := [], assistants := filter (\<lambda>a. created_by_system (a_metadata a)) (assistants w),
       assistant_versions := [], crons := [], thread_ttls := []\<rparr>"

text \<open>\<open>InMemConnectionProto.clear\<close>.\<close>

definition connection_clear :: "world \<Rightarrow> world" where
  "connection_clear w = (global_store_clear w)\<lparr>retry_counter := []\<rparr>"

text \<open>
  \<open>start_pool\<close> removes system assistants from the list while iterating over it: after a removal
  the iteration continues at the next index of the shorter list, so the element that moved into the
  freed place is not looked at. \<open>list.remove\<close> deletes the first equal element, here the one found.
\<close>

function remove_while_iterating :: "('a \<Rightarrow> bool) \<Rightarrow> nat \<Rightarrow> 'a list \<Rightarrow> 'a list" where
  "remove_while_iterating P i xs =
     (if length xs \<le> i then xs
      else if P (xs ! i) then remove_while_iterating P (i + 1) (take i xs @ drop (i + 1) xs)
      else remove_while_iterating P (i + 1) xs)"
  by pat_completeness auto
termination
  by (relation "measure (\<lambda>(P, i, xs). length xs - i)") auto

declare remove_while_iterating.simps [simp del]

definition start_pool :: "world \<Rightarrow> world" where
  "start_pool w =
     w\<lparr>assistants := remove_while_iterating (\<lambda>a. created_by_system (a_metadata a)) 0 (assistants w),
       streams := stream_manager_init\<rparr>"

definition increment_retry :: "uuid option \<Rightarrow> world \<Rightarrow> int \<times> world" where
  "increment_retry rid w =
     (let n = dget_default (retry_counter w) rid 0 + 1
      in (n, w\<lparr>retry_counter := AList.update rid n (retry_counter w)\<rparr>))"

section \<open>Results, authorization and lookups\<close>

text \<open>Run a check; when it raises, the state is left as it is.\<close>

definition attempt :: "'a res \<Rightarrow> 's \<Rightarrow> ('a \<Rightarrow> 'b res \<times> 's) \<Rightarrow> 'b res \<times> 's" where
  "attempt r s f = (case r of Inl e \<Rightarrow> (Inl e, s) | Inr x \<Rightarrow> f x)"

lemma attempt_simps [simp]:
  "attempt (Inl e) s f = (Inl e, s)"
  "attempt (Inr x) s f = f x"
  by (simp_all add: attempt_def)

lemma attempt_keeps:
  "P s \<Longrightarrow> (\<And>x. r = Inr x \<Longrightarrow> P (snd (f x))) \<Longrightarrow> P (snd (attempt r s f))"
  by (cases r) simp_all

lemma attempt_Inr: "fst (attempt r s f) = Inr y \<longleftrightarrow> (\<exists>x. r = Inr x \<and> fst (f x) = Inr y)"
  by (cases r) simp_all

text \<open>
  \<open>handle_event\<close>: the filters the handler returns for a resource, an action and the identifier of
  the subject. Without an authorization context it is \<open>no_auth\<close>. The handler is a function: it answers a
  question the same way each time and does not change the store, and nothing else runs while it is
  awaited (the source re-fetches rows after some of these calls because a handler may call back).
\<close>

type_synonym auth = "string \<Rightarrow> string \<Rightarrow> uuid option \<Rightarrow> pyval res"

definition no_auth :: auth where
  "no_auth = (\<lambda>resource action subject. Inr PNone)"

text \<open>\<open>not filters or _check_filter_match(metadata, filters)\<close>.\<close>

definition passes :: "pyval \<Rightarrow> pdict \<Rightarrow> bool res" where
  "passes filters metadata = (if truthy filters then check_filter_match metadata filters else Inr True)"

lemma passes_no_filter [simp]: "passes PNone metadata = Inr True"
  by (simp add: passes_def)

definition find_thread :: "uuid \<Rightarrow> world \<Rightarrow> thread option" where
  "find_thread tid w = find (\<lambda>t. t_id t = tid) (threads w)"

definition find_assistant :: "uuid \<Rightarrow> world \<Rightarrow> assistant option" where
  "find_assistant aid w = find (\<lambda>a. a_id a = aid) (assistants w)"

definition update_thread :: "uuid \<Rightarrow> (thread \<Rightarrow> thread) \<Rightarrow> world \<Rightarrow> world" where
  "update_thread tid f w = w\<lparr>threads := update_first (\<lambda>t. t_id t = tid) f (threads w)\<rparr>"

text \<open>\<open>thread.setdefault("state_updated_at", thread.get("updated_at"))\<close>.\<close>

definition default_state_updated :: "thread \<Rightarrow> thread" where
  "default_state_updated t =
     (case t_state_updated t of None \<Rightarrow> t\<lparr>t_state_updated := Some (t_updated t)\<rparr> | Some _ \<Rightarrow> t)"

definition is_active :: "string \<Rightarrow> bool" where
  "is_active status \<longleftrightarrow> status \<in> {''pending'', ''running''}"

definition has_active_runs :: "uuid \<Rightarrow> world \<Rightarrow> bool" where
  "has_active_runs tid w = list_ex (\<lambda>r. r_thread r = tid \<and> is_active (r_status r)) (runs w)"

text \<open>\<open>Threads._get_with_filters\<close>.\<close>

definition get_with_filters :: "uuid \<Rightarrow> pyval \<Rightarrow> world \<Rightarrow> thread option res \<times> world" where
  "get_with_filters tid filters w =
     (case find_thread tid w of
        None \<Rightarrow> (Inr None, w)
      | Some t \<Rightarrow>
          attempt (passes filters (t_metadata t)) w (\<lambda>ok.
            if ok then (Inr (Some (default_state_updated t)), update_thread tid default_state_updated w)
            else (Inr None, w)))"

section \<open>Tables\<close>

text \<open>
  What the runtime relies on in a table, a list of rows with an identifier: updating the row of an
  identifier leaves all other rows alone, and a deleted identifier is gone.
\<close>

locale row_table =
  fixes key :: "'row \<Rightarrow> 'id" and lookup :: "'id \<Rightarrow> 'db \<Rightarrow> 'row option"
    and update :: "'id \<Rightarrow> ('row \<Rightarrow> 'row) \<Rightarrow> 'db \<Rightarrow> 'db" and rows :: "'db \<Rightarrow> 'row list"
  assumes lookup_rows: "lookup i db = find (\<lambda>r. key r = i) (rows db)"
    and rows_update: "rows (update i f db) = update_first (\<lambda>r. key r = i) f (rows db)"
begin

lemma keys_update: "(\<And>r. key (f r) = key r) \<Longrightarrow> map key (rows (update i f db)) = map key (rows db)"
  by (simp add: rows_update map_update_first)

lemma lookup_update:
  "(\<And>r. key (f r) = key r) \<Longrightarrow>
   lookup j (update i f db) = (if j = i then map_option f (lookup i db) else lookup j db)"
proof (cases "j = i")
  case True
  assume "\<And>r. key (f r) = key r"
  with True show ?thesis by (simp add: lookup_rows rows_update find_update_first)
next
  case False
  assume "\<And>r. key (f r) = key r"
  with False have "find (\<lambda>r. key r = j) (update_first (\<lambda>r. key r = i) f (rows db)) = find (\<lambda>r. key r = j) (rows db)"
    by (intro find_update_first_other) auto
  with False show ?thesis by (simp add: lookup_rows rows_update)
qed

lemma lookup_mem: "lookup i db = Some r \<Longrightarrow> r \<in> set (rows db) \<and> key r = i"
  by (auto simp: lookup_rows dest: find_SomeD)

lemma lookup_None: "lookup i db = None \<longleftrightarrow> i \<notin> key ` set (rows db)"
  by (auto simp: lookup_rows find_None_iff)

lemma rows_update_mem: "r \<in> set (rows (update i f db)) \<Longrightarrow> r \<in> set (rows db) \<or> (\<exists>r'\<in>set (rows db). key r' = i \<and> r = f r')"
  by (auto simp: rows_update dest: set_update_first)

end

interpretation thread_table: row_table t_id find_thread update_thread threads
  by unfold_locales (simp_all add: find_thread_def update_thread_def)

section \<open>Start-up keeps every second system assistant\<close>

fun drop_alternate :: "('a \<Rightarrow> bool) \<Rightarrow> 'a list \<Rightarrow> 'a list" where
  "drop_alternate P [] = []"
| "drop_alternate P [x] = (if P x then [] else [x])"
| "drop_alternate P (x # y # zs) =
     (if P x then y # drop_alternate P zs else x # drop_alternate P (y # zs))"

lemma remove_while_iterating_prefix:
  "remove_while_iterating P (length pre) (pre @ xs) = pre @ drop_alternate P xs"
proof (induction P xs arbitrary: pre rule: drop_alternate.induct)
  case (1 P)
  then show ?case by (simp add: remove_while_iterating.simps)
next
  case (2 P x)
  then show ?case
    using remove_while_iterating.simps[of P "length pre" "pre @ [x]"]
      remove_while_iterating.simps[of P "length pre + 1" "pre"]
      remove_while_iterating.simps[of P "length pre + 1" "pre @ [x]"]
    by simp
next
  case (3 P x y zs)
  show ?case
  proof (cases "P x")
    case True
    have "remove_while_iterating P (length (pre @ [y])) ((pre @ [y]) @ zs) = (pre @ [y]) @ drop_alternate P zs"
      using True by (rule 3(1))
    with True show ?thesis
      using remove_while_iterating.simps[of P "length pre" "pre @ x # y # zs"] by simp
  next
    case False
    have "remove_while_iterating P (length (pre @ [x])) ((pre @ [x]) @ y # zs) = (pre @ [x]) @ drop_alternate P (y # zs)"
      using False by (rule 3(2))
    with False show ?thesis
      using remove_while_iterating.simps[of P "length pre" "pre @ x # y # zs"] by simp
  qed
qed

text \<open>
  What start-up really removes. Of every pair of neighbours in the assistants table of which
  the first was created by the system, only the first is removed and the second is kept unseen:
  two adjacent system assistants leave one behind.
\<close>

theorem start_pool_removes_alternate:
  "assistants (start_pool w) = drop_alternate (\<lambda>a. created_by_system (a_metadata a)) (assistants w)"
  using remove_while_iterating_prefix[of "\<lambda>a. created_by_system (a_metadata a)" "[]" "assistants w"]
  by (simp add: start_pool_def)

end
