(* ===== verification/Runs.thy ===== *)
theory Runs
  imports Runtime_State
begin

text \<open>
  The class \<open>Runs\<close> of \<open>ops.py\<close>: queue statistics, picking the next run, creation, lookup, deletion,
  cancellation, search and status changes.

  A run row is a dictionary object: the loop of \<open>next\<close> keeps rows, not identifiers, so the model
  keeps their positions. A run created without an identifier has the key \<open>None\<close>, which the stream
  manager stores as such; it is the empty text here (no UUID is empty).
\<close>

section \<open>Statistics\<close>

record queue_stats =
  n_pending :: nat
  n_running :: nat
  wait_max :: "rat option"
  wait_med :: "rat option"
  unblocked_wait_max :: "rat option"

definition seconds :: "time \<Rightarrow> rat" where
  "seconds t = of_int t / 1000000"

definition max_opt :: "rat list \<Rightarrow> rat option" where
  "max_opt xs = (case xs of [] \<Rightarrow> None | y # ys \<Rightarrow> Some (fold max ys y))"

definition median :: "rat list \<Rightarrow> rat option" where
  "median xs =
     (if xs = [] then None
      else (let s = sort xs; half = length s div 2
            in Some (if length s mod 2 = 1 then s ! half else (s ! (half - 1) + s ! half) / 2)))"

definition runs_stats :: "time \<Rightarrow> world \<Rightarrow> queue_stats" where
  "runs_stats now w =
     (let pending_runs = filter (\<lambda>r. r_status r = ''pending'') (runs w);
          running_runs = filter (\<lambda>r. r_status r = ''running'') (runs w)
      in if pending_runs = [] \<and> running_runs = []
         then \<lparr>n_pending = 0, n_running = 0, wait_max = None, wait_med = None, unblocked_wait_max = None\<rparr>
         else
           (let pending_waits = map (\<lambda>r. seconds (now - r_created r)) pending_runs;
                unblocked = filter (\<lambda>r. \<not> list_ex (\<lambda>r'. r_thread r' = r_thread r \<and> r_status r' = ''running'') (runs w)
                                      \<and> r_created r < now) pending_runs
            in \<lparr>n_pending = length pending_runs, n_running = length running_runs,
                wait_max = max_opt pending_waits, wait_med = median pending_waits,
                unblocked_wait_max = max_opt (map (\<lambda>r. seconds (now - r_created r)) unblocked)\<rparr>))"

section \<open>Picking runs\<close>

definition thread_running :: "uuid \<Rightarrow> run list \<Rightarrow> bool" where
  "thread_running tid rs = list_ex (\<lambda>r. r_thread r = tid \<and> r_status r = ''running'') rs"

definition pending_indices :: "time \<Rightarrow> run list \<Rightarrow> nat list" where
  "pending_indices now rs =
     map fst (sort_key (\<lambda>(i, r). r_created r)
       (filter (\<lambda>(i, r). r_status r = ''pending'' \<and> r_created r < now) (enumerate 0 rs)))"

text \<open>One iteration of the loop: the run is started, or skipped.\<close>

definition try_start :: "nat \<Rightarrow> world \<Rightarrow> (run \<times> int) option \<times> world" where
  "try_start i w =
     (let r = runs w ! i in
      if r_status r \<noteq> ''pending'' then (None, w)
      else if find_thread (r_thread r) w = None then (None, w)
      else if thread_running (r_thread r) (runs w) then (None, w)
      else (let (n, w1) = increment_retry (r_id r) w;
                r' = r\<lparr>r_status := ''running''\<rparr>
            in (Some (r', n), w1\<lparr>runs := (runs w1)[i := r']\<rparr>)))"

fun start_all :: "nat list \<Rightarrow> world \<Rightarrow> (run \<times> int) list \<times> world" where
  "start_all [] w = ([], w)"
| "start_all (i # is) w =
     (case try_start i w of (started, w1) \<Rightarrow>
        case start_all is w1 of (rest, w2) \<Rightarrow>
          ((case started of None \<Rightarrow> rest | Some x \<Rightarrow> x # rest), w2))"

definition runs_next :: "time \<Rightarrow> nat \<Rightarrow> world \<Rightarrow> (run \<times> int) list \<times> world" where
  "runs_next now limit w = start_all (take limit (pending_indices now (runs w))) w"

section \<open>Creation\<close>

text \<open>
  Reading an object out of a request. The API layer only lets \<open>config\<close>, \<open>configurable\<close>, \<open>context\<close>
  and \<open>metadata\<close> through as objects or absent.
\<close>

definition dict_item :: "pdict \<Rightarrow> string \<Rightarrow> pdict" where
  "dict_item d k = (case map_of d k of Some (PDict c) \<Rightarrow> c | _ \<Rightarrow> [])"

definition merge_jsonb :: "pdict list \<Rightarrow> pdict" where
  "merge_jsonb ds = fold (\<lambda>d acc. dict_merge acc d) ds []"

definition get_configurable :: "pdict \<Rightarrow> pdict" where
  "get_configurable config = dict_item config ''configurable''"

definition py_or :: "pyval \<Rightarrow> pyval \<Rightarrow> pyval" where
  "py_or a b = (if truthy a then a else b)"

definition item_or_none :: "pdict \<Rightarrow> string \<Rightarrow> pyval" where
  "item_or_none d k = dget_default d k PNone"

text \<open>\<open>str(run_id)\<close>, with \<open>str(None)\<close> for a run without identifier.\<close>

definition opt_str :: "uuid option \<Rightarrow> string" where
  "opt_str i = (case i of None \<Rightarrow> ''None'' | Some u \<Rightarrow> u)"

record run_request =
  rq_assistant :: uuid
  rq_kwargs :: pdict
  rq_thread :: "uuid option"
  rq_user :: "string option"
  rq_run :: "uuid option"
  rq_status :: string
  rq_metadata :: pdict
  rq_prevent :: bool
  rq_multitask :: string
  rq_if_not_exists :: string
  rq_after :: int
  rq_session :: "string option"

definition rq_config :: "run_request \<Rightarrow> pdict" where
  "rq_config q = dict_item (rq_kwargs q) ''config''"

definition new_run_thread :: "run_request \<Rightarrow> assistant \<Rightarrow> uuid \<Rightarrow> time \<Rightarrow> thread" where
  "new_run_thread q a tid now =
     \<lparr>t_id = tid, t_created = now, t_updated = now, t_state_updated = None,
      t_metadata = dict_merge (dict_merge [(''graph_id'', PStr (a_graph a)), (''assistant_id'', PStr (rq_assistant q))]
                      (dict_item (rq_config q) ''metadata'')) (rq_metadata q),
      t_status = ''busy'',
      t_config = merge_jsonb [a_config a, rq_config q,
                    [(''configurable'', PDict (merge_jsonb [get_configurable (a_config a)]))]],
      t_values = Some PNone, t_interrupts = None, t_error = PNone\<rparr>"

definition busy_thread :: "run_request \<Rightarrow> assistant \<Rightarrow> time \<Rightarrow> thread \<Rightarrow> thread" where
  "busy_thread q a now t =
     (if t_status t = ''busy'' then t
      else t\<lparr>t_status := ''busy'',
             t_metadata := merge_jsonb [t_metadata t,
               [(''graph_id'', PStr (a_graph a)), (''assistant_id'', PStr (rq_assistant q))]],
             t_config := merge_jsonb [a_config a, t_config t, rq_config q,
               [(''configurable'', PDict (merge_jsonb [get_configurable (a_config a), get_configurable (t_config t)]))]],
             t_updated := now\<rparr>)"

text \<open>The run row; \<open>existing\<close> is the thread as it is after the update, if it existed.\<close>

definition new_run :: "run_request \<Rightarrow> assistant \<Rightarrow> thread option \<Rightarrow> uuid \<Rightarrow> time \<Rightarrow> time \<Rightarrow> run" where
  "new_run q a existing tid now created =
     (let tconfig = (case existing of None \<Rightarrow> [] | Some t \<Rightarrow> t_config t);
          tmetadata = (case existing of None \<Rightarrow> [] | Some t \<Rightarrow> t_metadata t);
          config = rq_config q;
          user = py_or (item_or_none (get_configurable config) ''user_id'')
                   (py_or (item_or_none (get_configurable tconfig) ''user_id'')
                     (py_or (item_or_none (get_configurable (a_config a)) ''user_id'')
                       (case rq_user q of None \<Rightarrow> PNone | Some u \<Rightarrow> PStr u)));
          configurable = merge_jsonb
            [get_configurable (a_config a), get_configurable tconfig, get_configurable config,
             [(''run_id'', PStr (opt_str (rq_run q))), (''thread_id'', PStr tid),
              (''graph_id'', PStr (a_graph a)), (''assistant_id'', PStr (rq_assistant q)), (''user_id'', user)]];
          merged_metadata = AList.update ''assistant_id'' (PStr (rq_assistant q))
            (merge_jsonb [a_metadata a, tmetadata, dict_item config ''metadata'', rq_metadata q])
      in \<lparr>r_id = rq_run q, r_thread = tid, r_assistant = rq_assistant q, r_metadata = merged_metadata,
          r_status = rq_status q,
          r_kwargs = merge_jsonb [rq_kwargs q,
            [(''config'', PDict (merge_jsonb [a_config a, config, [(''configurable'', PDict configurable)],
                                  [(''metadata'', PDict merged_metadata)]])),
             (''context'', PDict (merge_jsonb [a_context a, dict_item (rq_kwargs q) ''context'']))]],
          r_multitask = rq_multitask q, r_created = created, r_updated = now, r_session = rq_session q\<rparr>)"

definition inflight_runs :: "uuid \<Rightarrow> world \<Rightarrow> run list" where
  "inflight_runs tid w = filter (\<lambda>r. r_thread r = tid \<and> is_active (r_status r)) (runs w)"

definition plus_seconds :: "time \<Rightarrow> int \<Rightarrow> time res" where
  "plus_seconds t n =
     (let t' = t + n * 1000000
      in if t' < datetime_min \<or> datetime_max < t' then Inl overflow_error else Inr t')"

text \<open>The second half of \<open>put\<close>: the thread \<open>tid\<close> is in place, the run is inserted.\<close>

definition insert_run ::
  "run_request \<Rightarrow> assistant \<Rightarrow> thread option \<Rightarrow> uuid \<Rightarrow> time \<Rightarrow> world \<Rightarrow> run list res \<times> world" where
  "insert_run q a existing tid now w =
     (let inflight = inflight_runs tid w in
      if rq_prevent q \<and> inflight \<noteq> [] then (Inr inflight, w)
      else attempt (plus_seconds now (rq_after q)) w (\<lambda>created.
        (let r = new_run q a existing tid now created
         in (Inr (r # inflight), w\<lparr>runs := runs w @ [r]\<rparr>))))"

definition runs_put :: "auth \<Rightarrow> time \<Rightarrow> uuid \<Rightarrow> run_request \<Rightarrow> world \<Rightarrow> run list res \<times> world" where
  "runs_put A now fresh q w =
     (case find_assistant (rq_assistant q) w of
        None \<Rightarrow> (Inr [], w)
      | Some a \<Rightarrow>
          (let temporary = truthy (dget_default (rq_kwargs q) ''temporary'' (PBool False));
               existing = (case rq_thread q of None \<Rightarrow> None | Some tid \<Rightarrow> find_thread tid w)
           in attempt (A ''threads'' ''create_run'' (if temporary then None else rq_thread q)) w (\<lambda>filters.
              attempt (if created_by_system (a_metadata a) then Inr True
                       else bind_res (A ''assistants'' ''read'' (Some (rq_assistant q))) (\<lambda>f.
                              passes f (a_metadata a))) w (\<lambda>allowed.
              if \<not> allowed then (Inr [], w)
              else attempt (case existing of None \<Rightarrow> Inr True | Some t \<Rightarrow> passes filters (t_metadata t)) w (\<lambda>owned.
              if \<not> owned then (Inr [], w)
              else case existing of
                     Some t \<Rightarrow>
                       insert_run q a (Some (busy_thread q a now t)) (t_id t) now
                         (update_thread (t_id t) (busy_thread q a now) w)
                   | None \<Rightarrow>
                       (case rq_thread q of
                          None \<Rightarrow> insert_run q a None fresh now
                                    (w\<lparr>threads := threads w @ [new_run_thread q a fresh now]\<rparr>)
                        | Some tid \<Rightarrow>
                            if rq_if_not_exists q = ''create''
                            then insert_run q a None tid now
                                   (w\<lparr>threads := threads w @ [new_run_thread q a tid now]\<rparr>)
                            else (Inr [], w)))))))"

section \<open>Lookup and deletion\<close>

definition find_run :: "uuid \<Rightarrow> uuid \<Rightarrow> world \<Rightarrow> run option" where
  "find_run rid tid w = find (\<lambda>r. r_id r = Some rid \<and> r_thread r = tid) (runs w)"

definition runs_get :: "auth \<Rightarrow> uuid \<Rightarrow> uuid \<Rightarrow> world \<Rightarrow> run option res \<times> world" where
  "runs_get A rid tid w =
     attempt (A ''threads'' ''read'' (Some tid)) w (\<lambda>filters.
       case find_run rid tid w of
         None \<Rightarrow> (Inr None, w)
       | Some r \<Rightarrow>
           if truthy filters
           then (case get_with_filters tid filters w of (res, w1) \<Rightarrow>
                   attempt res w1 (\<lambda>t. (Inr (if t = None then None else Some r), w1)))
           else (Inr (Some r), w))"

text \<open>The part of \<open>delete\<close> after authorization; the checkpoints go first.\<close>

definition delete_run_row :: "saver_env \<Rightarrow> uuid \<Rightarrow> uuid \<Rightarrow> world \<Rightarrow> uuid option res \<times> world" where
  "delete_run_row E rid tid w =
     (let w1 = w\<lparr>ckpt_saver := delete_run_checkpoints E tid rid (ckpt_saver w)\<rparr>
      in if find_run rid tid w1 = None then (Inl (HTTPException 404), w1)
         else (Inr (Some rid),
               w1\<lparr>runs := delete_first (\<lambda>r. r_id r = Some rid \<and> r_thread r = tid) (runs w1)\<rparr>))"

definition runs_delete :: "saver_env \<Rightarrow> auth \<Rightarrow> uuid \<Rightarrow> uuid \<Rightarrow> world \<Rightarrow> uuid option res \<times> world" where
  "runs_delete E A rid tid w =
     attempt (A ''threads'' ''delete'' (Some tid)) w (\<lambda>filters.
       if truthy filters
       then (case get_with_filters tid filters w of (res, w1) \<Rightarrow>
               attempt res w1 (\<lambda>t. if t = None then (Inr None, w1) else delete_run_row E rid tid w1))
       else delete_run_row E rid tid w)"

definition runs_set_status :: "time \<Rightarrow> uuid \<Rightarrow> string \<Rightarrow> world \<Rightarrow> world" where
  "runs_set_status now rid status w =
     w\<lparr>runs := update_first (\<lambda>r. r_id r = Some rid) (\<lambda>r. r\<lparr>r_status := status, r_updated := now\<rparr>) (runs w)\<rparr>"

section \<open>Cancellation\<close>

definition run_key :: "uuid option \<Rightarrow> uuid" where
  "run_key i = (case i of None \<Rightarrow> [] | Some u \<Rightarrow> u)"

text \<open>Argument validation: exactly one of the three ways to select runs.\<close>

definition cancel_args_ok :: "uuid list option \<Rightarrow> uuid option \<Rightarrow> string option \<Rightarrow> uuid option \<Rightarrow> bool" where
  "cancel_args_ok run_ids tid status aid \<longleftrightarrow>
     (if aid \<noteq> None then tid = None \<and> run_ids = None \<and> status = None
      else if status \<noteq> None then tid = None \<and> run_ids = None
      else tid \<noteq> None \<and> run_ids \<noteq> None)"

definition status_list :: "string option \<Rightarrow> string list res" where
  "status_list status =
     (case status of
        None \<Rightarrow> Inr []
      | Some s \<Rightarrow> if s = ''all'' then Inr [''pending'', ''running'']
                  else if is_active s then Inr [s] else Inl value_error)"

definition is_run_match :: "uuid list option \<Rightarrow> uuid option \<Rightarrow> string list \<Rightarrow> uuid option \<Rightarrow> run \<Rightarrow> bool" where
  "is_run_match run_ids tid statuses aid r =
     (case aid of
        Some a \<Rightarrow> r_assistant r = a \<and> is_active (r_status r)
      | None \<Rightarrow>
          if statuses \<noteq> [] then r_status r \<in> set statuses
          else Some (r_thread r) = tid \<and>
               (case run_ids of None \<Rightarrow> False | Some ids \<Rightarrow> r_id r \<in> Some ` set ids))"

text \<open>Candidates are kept by position; the ones whose thread the caller may not see are dropped.\<close>

fun filter_visible :: "pyval \<Rightarrow> nat list \<Rightarrow> world \<Rightarrow> nat list res \<times> world" where
  "filter_visible filters [] w = (Inr [], w)"
| "filter_visible filters (i # is) w =
     (case get_with_filters (r_thread (runs w ! i)) filters w of (res, w1) \<Rightarrow>
        attempt res w1 (\<lambda>t.
          case filter_visible filters is w1 of (rest, w2) \<Rightarrow>
            attempt rest w2 (\<lambda>js. (Inr (if t = None then js else i # js), w2))))"

definition cancel_candidates ::
  "pyval \<Rightarrow> uuid list option \<Rightarrow> uuid option \<Rightarrow> string list \<Rightarrow> uuid option \<Rightarrow> world \<Rightarrow> nat list res \<times> world" where
  "cancel_candidates filters run_ids tid statuses aid w =
     (let cands = map fst (filter (\<lambda>(i, r). is_run_match run_ids tid statuses aid r) (enumerate 0 (runs w)))
      in if \<not> truthy filters then (Inr cands, w)
         else case tid of
           Some t \<Rightarrow>
             (case get_with_filters t filters w of (res, w1) \<Rightarrow>
                attempt res w1 (\<lambda>found. (Inr (if found = None then [] else cands), w1)))
         | None \<Rightarrow> filter_visible filters cands w)"

text \<open>The calls collected in \<open>coros\<close> and awaited together at the end, in order.\<close>

datatype cancel_call = Publish "uuid option" | Delete_run "uuid option" uuid

definition idle_thread :: "time \<Rightarrow> thread \<Rightarrow> thread" where
  "idle_thread now t = t\<lparr>t_status := ''idle'', t_updated := now\<rparr>"

text \<open>One candidate: its calls, whether it was cancelable, and the new state.\<close>

definition cancel_one ::
  "string \<Rightarrow> time \<Rightarrow> uuid option \<Rightarrow> nat \<Rightarrow> world \<Rightarrow> cancel_call list \<times> bool \<times> world" where
  "cancel_one action now tid i w =
     (let r = runs w ! i;
          (queues, sm) = get_queues (run_key (r_id r)) tid (streams w);
          w1 = w\<lparr>streams := sm\<rparr>
      in if \<not> is_active (r_status r) then ([Publish (r_id r)], False, w1)
         else if queues \<noteq> [] \<or> action \<noteq> ''rollback''
         then (let w2 = (if r_status r = ''pending'' then update_thread (r_thread r) (idle_thread now) w1 else w1)
               in ([Publish (r_id r)], True,
                   w2\<lparr>runs := (runs w2)[i := r\<lparr>r_status := ''interrupted'', r_updated := now\<rparr>]\<rparr>))
         else ([Publish (r_id r), Delete_run (r_id r) (r_thread r)], True, w1))"

fun cancel_each ::
  "string \<Rightarrow> time \<Rightarrow> uuid option \<Rightarrow> nat list \<Rightarrow> world \<Rightarrow> cancel_call list \<times> bool \<times> world" where
  "cancel_each action now tid [] w = ([], False, w)"
| "cancel_each action now tid (i # is) w =
     (case cancel_one action now tid i w of (cs, b, w1) \<Rightarrow>
        case cancel_each action now tid is w1 of (cs', b', w2) \<Rightarrow> (cs @ cs', b \<or> b', w2))"

definition control_message :: "uuid option \<Rightarrow> string \<Rightarrow> message" where
  "control_message rid action = \<lparr>m_topic = ''run:'' @ opt_str rid @ '':control'', m_data = action, m_id = None\<rparr>"

text \<open>
  A call of the gathering; a raised exception does not stop the others, the first one is raised in
  the end. Deleting a run without identifier looks up a fresh UUID, which no run has.
\<close>

definition run_call ::
  "saver_env \<Rightarrow> auth \<Rightarrow> nat \<Rightarrow> string \<Rightarrow> uuid option \<Rightarrow> cancel_call \<Rightarrow> world \<Rightarrow> unit res \<times> world" where
  "run_call E A ms action tid call w =
     (case call of
        Publish rid \<Rightarrow>
          (Inr (), w\<lparr>streams := stream_put ms (run_key rid) tid (control_message rid action) False (streams w)\<rparr>)
      | Delete_run None t \<Rightarrow> (Inl (HTTPException 404), w)
      | Delete_run (Some rid) t \<Rightarrow>
          (case runs_delete E A rid t w of (res, w1) \<Rightarrow> (bind_res res (\<lambda>_. Inr ()), w1)))"

fun gather_calls ::
  "saver_env \<Rightarrow> auth \<Rightarrow> nat \<Rightarrow> string \<Rightarrow> uuid option \<Rightarrow> cancel_call list \<Rightarrow> world \<Rightarrow> unit res \<times> world" where
  "gather_calls E A ms action tid [] w = (Inr (), w)"
| "gather_calls E A ms action tid (c # cs) w =
     (case run_call E A ms action tid c w of (r1, w1) \<Rightarrow>
        case gather_calls E A ms action tid cs w1 of (r2, w2) \<Rightarrow>
          ((case r1 of Inl e \<Rightarrow> Inl e | Inr _ \<Rightarrow> r2), w2))"

definition runs_cancel ::
  "saver_env \<Rightarrow> auth \<Rightarrow> time \<Rightarrow> nat \<Rightarrow> uuid list option \<Rightarrow> string \<Rightarrow> uuid option \<Rightarrow> string option \<Rightarrow> uuid option \<Rightarrow>
   world \<Rightarrow> unit res \<times> world" where
  "runs_cancel E A now ms run_ids action tid status aid w =
     (if \<not> cancel_args_ok run_ids tid status aid then (Inl (HTTPException 422), w)
      else attempt (A ''threads'' ''update'' tid) w (\<lambda>filters.
      attempt (status_list status) w (\<lambda>statuses.
      case cancel_candidates filters run_ids tid statuses aid w of (cands, w1) \<Rightarrow>
      attempt cands w1 (\<lambda>is.
        if is = [] then ((if aid = None then Inl (HTTPException 404) else Inr ()), w1)
        else case cancel_each action now tid is w1 of (calls, cancelable, w2) \<Rightarrow>
          if \<not> cancelable then ((if aid = None then Inl (HTTPException 404) else Inr ()), w2)
          else gather_calls E A ms action tid calls w2))))"

section \<open>Search\<close>

fun filter_runs_visible :: "pyval \<Rightarrow> uuid \<Rightarrow> run list \<Rightarrow> world \<Rightarrow> run list res \<times> world" where
  "filter_runs_visible filters tid [] w = (Inr [], w)"
| "filter_runs_visible filters tid (r # rs) w =
     (case get_with_filters tid filters w of (res, w1) \<Rightarrow>
        attempt res w1 (\<lambda>t.
          case filter_runs_visible filters tid rs w1 of (rest, w2) \<Rightarrow>
            attempt rest w2 (\<lambda>rs'. (Inr (if t = None then rs' else r # rs'), w2))))"

definition runs_search ::
  "auth \<Rightarrow> uuid \<Rightarrow> nat \<Rightarrow> nat \<Rightarrow> string option \<Rightarrow> world \<Rightarrow> run list res \<times> world" where
  "runs_search A tid limit offset status w =
     attempt (A ''threads'' ''search'' (Some tid)) w (\<lambda>filters.
       (let mine = filter (\<lambda>r. r_thread r = tid) (runs w) in
        case (if truthy filters then filter_runs_visible filters tid mine w else (Inr mine, w)) of (vis, w1) \<Rightarrow>
        attempt vis w1 (\<lambda>rs.
          (Inr (py_slice offset limit
                 (py_sorted r_created True (filter (\<lambda>r. status = None \<or> Some (r_status r) = status) rs))), w1))))"

end
