(* ===== verification/Invariant.thy ===== *)
theory Invariant
  imports Runs
begin

text \<open>
  The invariant of the runtime state, and the proof that every operation on runs preserves it:
  thread ids are distinct, every run belongs to a stored thread, no thread has two running runs,
  TTL entries are valid and belong to stored threads, crons refer to stored assistants and threads,
  the checkpoint ledger is exact and the stream manager is well-formed.
\<close>

section \<open>The invariant\<close>

definition running_on :: "uuid \<Rightarrow> run list \<Rightarrow> nat" where
  "running_on tid rs = length (filter (\<lambda>r. r_thread r = tid \<and> r_status r = ''running'') rs)"

definition single_running :: "run list \<Rightarrow> bool" where
  "single_running rs \<longleftrightarrow> (\<forall>tid. running_on tid rs \<le> 1)"

definition rows_ok :: "uuid list \<Rightarrow> run list \<Rightarrow> ttl_store \<Rightarrow> cron list \<Rightarrow> uuid set \<Rightarrow> bool" where
  "rows_ok tids rs ttls cs aids \<longleftrightarrow>
     distinct tids \<and> (\<forall>r\<in>set rs. r_thread r \<in> set tids) \<and> single_running rs \<and>
     ttls_valid ttls \<and> fst ` set ttls \<subseteq> set tids \<and>
     (\<forall>c\<in>set cs. c_assistant c \<in> aids \<and> (case c_thread c of None \<Rightarrow> True | Some t \<Rightarrow> t \<in> set tids))"

definition world_inv :: "world \<Rightarrow> bool" where
  "world_inv w \<longleftrightarrow>
     rows_ok (map t_id (threads w)) (runs w) (thread_ttls w) (crons w) (a_id ` set (assistants w)) \<and>
     saver_inv (ckpt_saver w) \<and> sm_wf (streams w)"

lemma world_inv_init: "world_inv world_init"
  using saver_inv_init sm_wf_init
  by (simp add: world_inv_def world_init_def rows_ok_def single_running_def running_on_def ttls_valid_def)

section \<open>Frame rules\<close>

lemma world_inv_parts:
  assumes "world_inv w"
  shows "distinct (map t_id (threads w))" and "r \<in> set (runs w) \<Longrightarrow> r_thread r \<in> t_id ` set (threads w)"
    and "single_running (runs w)" and "ttls_valid (thread_ttls w)"
    and "fst ` set (thread_ttls w) \<subseteq> t_id ` set (threads w)"
    and "saver_inv (ckpt_saver w)" and "sm_wf (streams w)"
  using assms by (auto simp: world_inv_def rows_ok_def)

lemma inv_same_ids: "map t_id ts = map t_id (threads w) \<Longrightarrow> world_inv (w\<lparr>threads := ts\<rparr>) = world_inv w"
  by (simp add: world_inv_def)

lemma inv_update_thread [simp]:
  "(\<And>t. t_id (f t) = t_id t) \<Longrightarrow> world_inv (update_thread tid f w) = world_inv w"
  using inv_same_ids[of "threads (update_thread tid f w)" w] thread_table.keys_update[of f tid w]
  by (simp add: update_thread_def)

lemma inv_streams: "world_inv w \<Longrightarrow> sm_wf sm \<Longrightarrow> world_inv (w\<lparr>streams := sm\<rparr>)"
  by (simp add: world_inv_def)

lemma inv_saver: "world_inv w \<Longrightarrow> saver_inv s \<Longrightarrow> world_inv (w\<lparr>ckpt_saver := s\<rparr>)"
  by (simp add: world_inv_def)

lemma inv_retry [simp]: "world_inv (w\<lparr>retry_counter := c\<rparr>) = world_inv w"
  by (simp add: world_inv_def)

lemma inv_runs:
  "world_inv w \<Longrightarrow> r_thread ` set rs \<subseteq> t_id ` set (threads w) \<Longrightarrow> single_running rs \<Longrightarrow> world_inv (w\<lparr>runs := rs\<rparr>)"
  by (auto simp: world_inv_def rows_ok_def)

lemma rows_ok_new_thread:
  assumes "rows_ok tids rs ttls cs aids" and "tid \<notin> set tids"
  shows "rows_ok (tids @ [tid]) rs ttls cs aids"
proof -
  have "\<forall>c\<in>set cs. c_assistant c \<in> aids \<and> (case c_thread c of None \<Rightarrow> True | Some t \<Rightarrow> t \<in> set (tids @ [tid]))"
    using assms(1) by (simp add: rows_ok_def option.case_eq_if)
  with assms show ?thesis by (auto simp: rows_ok_def)
qed

lemma inv_new_thread:
  "world_inv w \<Longrightarrow> t_id t \<notin> t_id ` set (threads w) \<Longrightarrow> world_inv (w\<lparr>threads := threads w @ [t]\<rparr>)"
  using rows_ok_new_thread[of "map t_id (threads w)"] by (simp add: world_inv_def)

lemma inv_thread_ttls:
  "world_inv w \<Longrightarrow> ttls_valid ttls \<Longrightarrow> fst ` set ttls \<subseteq> t_id ` set (threads w) \<Longrightarrow>
   world_inv (w\<lparr>thread_ttls := ttls\<rparr>)"
  by (simp add: world_inv_def rows_ok_def)

lemma world_fields_update_thread [simp]:
  "runs (update_thread tid f w) = runs w" "crons (update_thread tid f w) = crons w"
  "assistants (update_thread tid f w) = assistants w" "streams (update_thread tid f w) = streams w"
  "ckpt_saver (update_thread tid f w) = ckpt_saver w" "thread_ttls (update_thread tid f w) = thread_ttls w"
  "assistant_versions (update_thread tid f w) = assistant_versions w"
  "retry_counter (update_thread tid f w) = retry_counter w"
  by (simp_all add: update_thread_def)

lemma thread_ids_update [simp]:
  assumes "\<And>t. t_id (f t) = t_id t"
  shows "t_id ` set (threads (update_thread tid f w)) = t_id ` set (threads w)"
  using thread_table.keys_update[of f tid w, OF assms] by (metis set_map)

lemma default_state_updated_id [simp]: "t_id (default_state_updated t) = t_id t"
  by (simp add: default_state_updated_def split: option.split)

lemma idle_thread_id [simp]: "t_id (idle_thread now t) = t_id t"
  by (simp add: idle_thread_def)

lemma busy_thread_id [simp]: "t_id (busy_thread q a now t) = t_id t"
  by (simp add: busy_thread_def)

lemma find_thread_id: "find_thread tid w = Some t \<Longrightarrow> t_id t = tid \<and> tid \<in> t_id ` set (threads w)"
  using thread_table.lookup_mem by blast

text \<open>\<open>_get_with_filters\<close> only fills a missing \<open>state_updated_at\<close>.\<close>

definition same_but_defaults :: "world \<Rightarrow> world \<Rightarrow> bool" where
  "same_but_defaults w w' \<longleftrightarrow> (\<exists>ts. w' = w\<lparr>threads := ts\<rparr> \<and> map t_id ts = map t_id (threads w))"

lemma same_refl [simp]: "same_but_defaults w w"
  unfolding same_but_defaults_def by (rule exI[of _ "threads w"]) simp

lemma same_trans: "same_but_defaults w w1 \<Longrightarrow> same_but_defaults w1 w2 \<Longrightarrow> same_but_defaults w w2"
  unfolding same_but_defaults_def by (elim exE conjE) (rename_tac ts ts', rule_tac x = ts' in exI, simp)

lemma same_keeps:
  assumes "same_but_defaults w w'"
  shows "world_inv w' = world_inv w" and "runs w' = runs w" and "ckpt_saver w' = ckpt_saver w"
    and "crons w' = crons w" and "thread_ttls w' = thread_ttls w" and "streams w' = streams w"
    and "map t_id (threads w') = map t_id (threads w)" and "assistants w' = assistants w"
  using assms inv_same_ids unfolding same_but_defaults_def by auto

lemma get_with_filters_same: "same_but_defaults w (snd (get_with_filters tid filters w))"
proof -
  have "same_but_defaults w (update_thread tid default_state_updated w)"
    using thread_table.keys_update[of default_state_updated tid w]
    unfolding same_but_defaults_def by (intro exI[of _ "threads (update_thread tid default_state_updated w)"])
      (simp add: update_thread_def)
  then show ?thesis
    by (auto simp: get_with_filters_def split: option.split intro!: attempt_keeps[where P = "same_but_defaults w"])
qed

section \<open>Counting running runs\<close>

lemma running_on_simps [simp]:
  "running_on tid [] = 0"
  "running_on tid (r # rs) = (if r_thread r = tid \<and> r_status r = ''running'' then 1 else 0) + running_on tid rs"
  "running_on tid (rs @ rs') = running_on tid rs + running_on tid rs'"
  by (simp_all add: running_on_def)

lemma running_on_filter: "running_on tid (filter P rs) \<le> running_on tid rs"
  by (induction rs) auto

lemma running_on_delete_first: "running_on tid (delete_first P rs) \<le> running_on tid rs"
  by (induction rs) auto

lemma running_on_update_first:
  "(\<And>r. r_status (f r) \<noteq> ''running'') \<Longrightarrow> running_on tid (update_first P f rs) \<le> running_on tid rs"
  by (induction rs) auto

lemma running_on_list_update:
  "r_status r \<noteq> ''running'' \<Longrightarrow> running_on tid (rs[i := r]) \<le> running_on tid rs"
proof (induction rs arbitrary: i)
  case Nil
  then show ?case by simp
next
  case (Cons x rs)
  then show ?case by (cases i) auto
qed

lemma running_on_start:
  assumes "i < length rs" and "r_thread r = r_thread (rs ! i)"
  shows "running_on tid (rs[i := r]) \<le> running_on tid rs + (if tid = r_thread r then 1 else 0)"
  using assms
proof (induction rs arbitrary: i)
  case Nil
  then show ?case by simp
next
  case (Cons x rs)
  show ?case
  proof (cases i)
    case 0
    with Cons.prems show ?thesis by auto
  next
    case (Suc j)
    with Cons show ?thesis by (simp add: add_mono)
  qed
qed

lemma not_thread_running: "\<not> thread_running tid rs \<Longrightarrow> running_on tid rs = 0"
  by (induction rs) (auto simp: thread_running_def)

lemma single_running_mono: "single_running rs \<Longrightarrow> (\<And>tid. running_on tid rs' \<le> running_on tid rs) \<Longrightarrow> single_running rs'"
  unfolding single_running_def by (meson le_trans)

section \<open>Operations on runs\<close>

lemma try_start_inv:
  assumes inv: "world_inv w" and i: "i < length (runs w)"
  shows "world_inv (snd (try_start i w))" and "length (runs (snd (try_start i w))) = length (runs w)"
proof -
  define r where r: "r = runs w ! i"
  have mem: "r \<in> set (runs w)" using i by (simp add: r)
  have step: "world_inv (w1\<lparr>runs := (runs w)[i := r\<lparr>r_status := ''running''\<rparr>]\<rparr>)"
    if free: "\<not> thread_running (r_thread r) (runs w)" and w1: "w1 = w\<lparr>retry_counter := c\<rparr>" for c w1
  proof -
    have "running_on tid ((runs w)[i := r\<lparr>r_status := ''running''\<rparr>]) \<le> 1" for tid
      using running_on_start[OF i, of "r\<lparr>r_status := ''running''\<rparr>" tid] not_thread_running[OF free]
        world_inv_parts(3)[OF inv] by (cases "tid = r_thread r") (auto simp: r single_running_def intro: order_trans)
    moreover have "r_thread ` set ((runs w)[i := r\<lparr>r_status := ''running''\<rparr>]) \<subseteq> t_id ` set (threads w)"
      using world_inv_parts(2)[OF inv] mem by (auto dest!: set_update_subset_insert[THEN subsetD])
    ultimately show ?thesis
      using inv_runs[of "w\<lparr>retry_counter := c\<rparr>"] inv by (simp add: single_running_def w1)
  qed
  show "world_inv (snd (try_start i w))"
    using inv step by (auto simp: try_start_def Let_def increment_retry_def simp flip: r)
  show "length (runs (snd (try_start i w))) = length (runs w)"
    by (simp add: try_start_def Let_def increment_retry_def)
qed

lemma start_all_inv: "world_inv w \<Longrightarrow> \<forall>i\<in>set is. i < length (runs w) \<Longrightarrow> world_inv (snd (start_all is w))"
proof (induction "is" arbitrary: w)
  case Nil
  then show ?case by simp
next
  case (Cons i "is")
  then show ?case
    using try_start_inv[of w i] by (simp add: case_prod_unfold)
qed

lemma pending_indices_bound: "i \<in> set (pending_indices now rs) \<Longrightarrow> i < length rs"
  by (auto simp: pending_indices_def in_set_enumerate_eq)

lemma runs_next_inv: "world_inv w \<Longrightarrow> world_inv (snd (runs_next now limit w))"
  unfolding runs_next_def
  by (rule start_all_inv) (auto dest: pending_indices_bound in_set_takeD)

lemma insert_run_inv:
  assumes inv: "world_inv w" and tid: "tid \<in> t_id ` set (threads w)" and st: "rq_status q \<noteq> ''running''"
  shows "world_inv (snd (insert_run q a existing tid now w))"
proof -
  have "world_inv (w\<lparr>runs := runs w @ [new_run q a existing tid now created]\<rparr>)" for created
  proof (rule inv_runs[OF inv])
    show "r_thread ` set (runs w @ [new_run q a existing tid now created]) \<subseteq> t_id ` set (threads w)"
      using world_inv_parts(2)[OF inv] tid by (auto simp: new_run_def Let_def)
    show "single_running (runs w @ [new_run q a existing tid now created])"
      using world_inv_parts(3)[OF inv] st by (simp add: single_running_def new_run_def Let_def)
  qed
  then show ?thesis using inv by (simp add: insert_run_def Let_def attempt_keeps)
qed

lemma runs_put_inv:
  assumes inv: "world_inv w" and fresh: "fresh \<notin> t_id ` set (threads w)" and st: "rq_status q \<noteq> ''running''"
  shows "world_inv (snd (runs_put A now fresh q w))"
proof -
  have create: "world_inv (snd (insert_run q a e tid now (w\<lparr>threads := threads w @ [new_run_thread q a tid now]\<rparr>)))"
    if "tid \<notin> t_id ` set (threads w)" for a e tid
    using that inv by (intro insert_run_inv st inv_new_thread) (auto simp: new_run_thread_def)
  have update: "world_inv (snd (insert_run q a e (t_id t) now (update_thread (t_id t) (busy_thread q a now) w)))"
    if "find_thread tid w = Some t" for a e t tid
    using find_thread_id[OF that] inv by (intro insert_run_inv st) auto
  show ?thesis
    using inv update
    by (auto simp: runs_put_def Let_def thread_table.lookup_None create create[OF fresh] split: option.split
        intro!: attempt_keeps[where P = world_inv])
qed

lemma runs_get_inv: "world_inv w \<Longrightarrow> world_inv (snd (runs_get A rid tid w))"
  using same_keeps(1)[OF get_with_filters_same]
  by (auto simp: runs_get_def split: option.split prod.split intro!: attempt_keeps[where P = world_inv])
    (metis snd_conv)+

lemma runs_subset_inv:
  assumes inv: "world_inv w" and "set rs \<subseteq> set (runs w)" and "\<And>tid. running_on tid rs \<le> running_on tid (runs w)"
  shows "world_inv (w\<lparr>runs := rs\<rparr>)"
  using world_inv_parts(2)[OF inv] assms(2)
  by (intro inv_runs[OF inv] single_running_mono[OF world_inv_parts(3)[OF inv] assms(3)]) auto

lemma delete_run_row_inv:
  assumes inv: "world_inv w"
  shows "world_inv (snd (delete_run_row E rid tid w))"
proof -
  let ?w1 = "w\<lparr>ckpt_saver := delete_run_checkpoints E tid rid (ckpt_saver w)\<rparr>"
  have w1: "world_inv ?w1" by (rule inv_saver[OF inv delete_run_inv[OF world_inv_parts(6)[OF inv]]])
  have "world_inv (?w1\<lparr>runs := delete_first P (runs ?w1)\<rparr>)" for P
    by (intro runs_subset_inv[OF w1]) (simp_all add: set_delete_first_subset running_on_delete_first)
  with w1 show ?thesis by (simp add: delete_run_row_def Let_def)
qed

lemma runs_delete_inv: "world_inv w \<Longrightarrow> world_inv (snd (runs_delete E A rid tid w))"
  using same_keeps(1)[OF get_with_filters_same] delete_run_row_inv
  by (auto simp: runs_delete_def case_prod_unfold intro!: attempt_keeps[where P = world_inv])

lemma runs_set_status_inv:
  assumes inv: "world_inv w" and "status \<noteq> ''running''"
  shows "world_inv (runs_set_status now rid status w)"
  unfolding runs_set_status_def
proof (rule inv_runs[OF inv])
  show "r_thread ` set (update_first (\<lambda>r. r_id r = Some rid) (\<lambda>r. r\<lparr>r_status := status, r_updated := now\<rparr>) (runs w))
      \<subseteq> t_id ` set (threads w)"
    using world_inv_parts(2)[OF inv] by (fastforce dest: set_update_first)
  show "single_running (update_first (\<lambda>r. r_id r = Some rid) (\<lambda>r. r\<lparr>r_status := status, r_updated := now\<rparr>) (runs w))"
    using assms(2) by (intro single_running_mono[OF world_inv_parts(3)[OF inv]] running_on_update_first) simp
qed

lemma get_queues_wf: "sm_wf sm \<Longrightarrow> sm_wf (snd (get_queues r t sm))"
  by (simp add: get_queues_def sm_wf_def)

lemma stream_put_wf: "sm_wf sm \<Longrightarrow> sm_wf (stream_put ms r t m res sm)"
  using stream_step_wf[of sm "MPut ms r t m res"] by simp

lemma filter_visible_same:
  "same_but_defaults w (snd (filter_visible filters is w)) \<and>
   (\<forall>js. fst (filter_visible filters is w) = Inr js \<longrightarrow> set js \<subseteq> set is)"
proof (induction "is" arbitrary: w)
  case Nil
  then show ?case by simp
next
  case (Cons i "is")
  let ?g = "get_with_filters (r_thread (runs w ! i)) filters w"
  have "same_but_defaults w (snd ?g)" by (rule get_with_filters_same)
  moreover note Cons[of "snd ?g"]
  ultimately show ?case
    by (cases "fst ?g"; cases "fst (filter_visible filters is (snd ?g))")
      (auto simp: case_prod_unfold intro: same_trans)
qed

lemma cancel_candidates_same:
  "same_but_defaults w (snd (cancel_candidates filters run_ids tid statuses aid w)) \<and>
   (\<forall>js. fst (cancel_candidates filters run_ids tid statuses aid w) = Inr js \<longrightarrow>
      (\<forall>i\<in>set js. i < length (runs w) \<and> is_run_match run_ids tid statuses aid (runs w ! i)))"
proof -
  define cs where cs: "cs = map fst (filter (\<lambda>(i, r). is_run_match run_ids tid statuses aid r) (enumerate 0 (runs w)))"
  have c: "\<forall>i\<in>set cs. i < length (runs w) \<and> is_run_match run_ids tid statuses aid (runs w ! i)"
    by (auto simp: cs in_set_enumerate_eq)
  note eq = cancel_candidates_def[of filters run_ids tid statuses aid w, folded cs, unfolded Let_def]
  note same = get_with_filters_same[of w _ filters]
  show ?thesis
  proof (cases tid)
    case None
    with c filter_visible_same[of w filters cs] eq show ?thesis
      by auto
  next
    case (Some t)
    with c same[of t] eq show ?thesis
      by (cases "fst (get_with_filters t filters w)") (auto simp: case_prod_unfold)
  qed
qed

lemma cancel_one_inv:
  assumes inv: "world_inv w" and i: "i < length (runs w)"
  shows "world_inv (snd (snd (cancel_one action now tid i w)))"
    and "length (runs (snd (snd (cancel_one action now tid i w)))) = length (runs w)"
proof -
  define sm where sm: "sm = snd (get_queues (run_key (r_id (runs w ! i))) tid (streams w))"
  let ?w1 = "w\<lparr>streams := sm\<rparr>"
  let ?r = "(runs w ! i)\<lparr>r_status := ''interrupted'', r_updated := now\<rparr>"
  have w1: "world_inv ?w1"
    unfolding sm by (rule inv_streams[OF inv get_queues_wf[OF world_inv_parts(7)[OF inv]]])
  have upd: "world_inv (w2\<lparr>runs := (runs w)[i := ?r]\<rparr>)"
    if w2: "world_inv w2" "runs w2 = runs w" "t_id ` set (threads w2) = t_id ` set (threads w)" for w2
  proof (rule inv_runs[OF w2(1)])
    show "r_thread ` set ((runs w)[i := ?r]) \<subseteq> t_id ` set (threads w2)"
      using world_inv_parts(2)[OF inv] i w2(3) by (auto dest!: set_update_subset_insert[THEN subsetD])
    show "single_running ((runs w)[i := ?r])"
      by (intro single_running_mono[OF world_inv_parts(3)[OF inv]] running_on_list_update) simp
  qed
  show "world_inv (snd (snd (cancel_one action now tid i w)))"
    using w1 upd[of ?w1] upd[of "update_thread (r_thread (runs w ! i)) (idle_thread now) ?w1"]
    by (simp add: cancel_one_def Let_def case_prod_unfold flip: sm)
  show "length (runs (snd (snd (cancel_one action now tid i w)))) = length (runs w)"
    by (simp add: cancel_one_def Let_def case_prod_unfold)
qed

lemma cancel_each_inv:
  "world_inv w \<Longrightarrow> \<forall>i\<in>set is. i < length (runs w) \<Longrightarrow> world_inv (snd (snd (cancel_each action now tid is w)))"
proof (induction "is" arbitrary: w)
  case Nil
  then show ?case by simp
next
  case (Cons i "is")
  then show ?case using cancel_one_inv[of w i action now tid] by (simp add: case_prod_unfold)
qed

lemma run_call_inv: "world_inv w \<Longrightarrow> world_inv (snd (run_call E A ms action tid call w))"
  using runs_delete_inv inv_streams[OF _ stream_put_wf] world_inv_parts(7)
  by (auto simp: run_call_def case_prod_unfold split: cancel_call.split option.split)

lemma gather_calls_inv: "world_inv w \<Longrightarrow> world_inv (snd (gather_calls E A ms action tid cs w))"
  by (induction cs arbitrary: w) (auto simp: case_prod_unfold run_call_inv)

lemma runs_cancel_inv:
  assumes inv: "world_inv w"
  shows "world_inv (snd (runs_cancel E A now ms run_ids action tid status aid w))"
proof -
  let ?c = "\<lambda>aid filters statuses. cancel_candidates filters run_ids tid statuses aid w"
  have cands: "world_inv (snd (?c aid filters statuses))" for aid filters statuses
    using cancel_candidates_same inv same_keeps(1) by blast
  have bound: "\<forall>i\<in>set js. i < length (runs (snd (?c aid filters statuses)))"
    if "fst (?c aid filters statuses) = Inr js" for aid filters statuses js
    using cancel_candidates_same[of w filters run_ids tid statuses aid] that same_keeps(2) by metis
  have each: "world_inv (snd (snd (cancel_each action now tid js (snd (?c aid filters statuses)))))"
    if "fst (?c aid filters statuses) = Inr js" for aid filters statuses js
    by (rule cancel_each_inv[OF cands bound[OF that]])
  show ?thesis
    unfolding runs_cancel_def
    by (auto simp: case_prod_unfold inv cands each gather_calls_inv
        intro!: attempt_keeps[where P = world_inv])
qed

end
