(* ===== verification/Runs_Props.thy ===== *)
theory Runs_Props
  imports Invariant
begin

text \<open>
  What the operations on runs do, as functions of the state before them: which run \<open>next\<close> serves,
  what \<open>put\<close> writes into a run whatever the request says, which runs \<open>cancel\<close> marks and whom it
  reaches, and what \<open>delete\<close> removes.
\<close>

section \<open>Serving the queue\<close>

lemma pending_indices_sorted: "sorted (map (\<lambda>i. r_created (rs ! i)) (pending_indices now rs))"
proof -
  let ?ps = "filter (\<lambda>(i, r). r_status r = ''pending'' \<and> r_created r < now) (enumerate 0 rs)"
  have "map (\<lambda>i. r_created (rs ! i)) (pending_indices now rs) =
      map (\<lambda>(i, r). r_created r) (sort_key (\<lambda>(i, r). r_created r) ?ps)"
    unfolding pending_indices_def by (auto simp: in_set_enumerate_eq)
  then show ?thesis by simp
qed

lemma set_pending_indices:
  "i \<in> set (pending_indices now rs) \<longleftrightarrow>
     i < length rs \<and> r_status (rs ! i) = ''pending'' \<and> r_created (rs ! i) < now"
  by (force simp: pending_indices_def in_set_enumerate_eq image_iff)

lemma runs_next_one:
  "runs_next now 1 w =
     (case pending_indices now (runs w) of
        [] \<Rightarrow> ([], w)
      | i # is \<Rightarrow> (case try_start i w of (started, w1) \<Rightarrow> (case started of None \<Rightarrow> [] | Some x \<Rightarrow> [x], w1)))"
  by (auto simp: runs_next_def split: list.split prod.split option.split)

text \<open>
  The queue serves the oldest pending run, or nobody. Asked for one run, \<open>next\<close> looks only at
  a pending run no other eligible run is older than: if its thread exists and has no running run,
  that run is started with the next attempt number and nothing else changes; otherwise nothing is
  served and the state is unchanged, even if a younger run on a free thread is waiting.
\<close>

theorem next_serves_oldest:
  assumes "pending_indices now (runs w) = i # is"
  shows "(\<forall>r\<in>set (runs w). r_status r = ''pending'' \<and> r_created r < now \<longrightarrow> r_created (runs w ! i) \<le> r_created r) \<and>
    runs_next now 1 w =
      (if find_thread (r_thread (runs w ! i)) w \<noteq> None \<and> running_on (r_thread (runs w ! i)) (runs w) = 0
       then (let r = (runs w ! i)\<lparr>r_status := ''running''\<rparr>;
                 n = dget_default (retry_counter w) (r_id r) 0 + 1
             in ([(r, n)], w\<lparr>retry_counter := AList.update (r_id r) n (retry_counter w),
                              runs := (runs w)[i := r]\<rparr>))
       else ([], w))"
proof -
  have i: "r_status (runs w ! i) = ''pending''"
    using assms set_pending_indices[of i now "runs w"] by simp
  have run: "thread_running tid rs \<longleftrightarrow> running_on tid rs \<noteq> 0" for tid rs
    by (auto simp: thread_running_def running_on_def list_ex_iff filter_empty_conv)
  have oldest: "r_created (runs w ! i) \<le> r_created r"
    if r: "r \<in> set (runs w)" "r_status r = ''pending''" "r_created r < now" for r
  proof -
    obtain j where j: "j < length (runs w)" "runs w ! j = r" using r(1) by (auto simp: in_set_conv_nth)
    then have "j \<in> set (i # is)" using r set_pending_indices[of j now "runs w"] assms by simp
    with pending_indices_sorted[of "runs w" now] assms j show ?thesis by auto
  qed
  moreover have "runs_next now 1 w =
      (if find_thread (r_thread (runs w ! i)) w \<noteq> None \<and> running_on (r_thread (runs w ! i)) (runs w) = 0
       then (let r = (runs w ! i)\<lparr>r_status := ''running''\<rparr>;
                 n = dget_default (retry_counter w) (r_id r) 0 + 1
             in ([(r, n)], w\<lparr>retry_counter := AList.update (r_id r) n (retry_counter w),
                              runs := (runs w)[i := r]\<rparr>))
       else ([], w))"
    unfolding runs_next_one assms
    by (simp add: try_start_def Let_def i run increment_retry_def)
  ultimately show ?thesis by blast
qed

definition demo_thread :: "uuid \<Rightarrow> string \<Rightarrow> thread" where
  "demo_thread tid status =
     \<lparr>t_id = tid, t_created = 0, t_updated = 0, t_state_updated = None, t_metadata = [], t_status = status,
      t_config = [], t_values = Some PNone, t_interrupts = None, t_error = PNone\<rparr>"

definition demo_run :: "uuid \<Rightarrow> uuid \<Rightarrow> string \<Rightarrow> time \<Rightarrow> run" where
  "demo_run rid tid status created =
     \<lparr>r_id = Some rid, r_thread = tid, r_assistant = ''a'', r_metadata = [], r_status = status, r_kwargs = [],
      r_multitask = ''enqueue'', r_created = created, r_updated = created, r_session = None\<rparr>"

definition demo_world :: world where
  "demo_world = world_init
     \<lparr>threads := [demo_thread ''t'' ''busy'', demo_thread ''u'' ''busy''],
      runs := [demo_run ''r1'' ''t'' ''running'' 1, demo_run ''r3'' ''u'' ''pending'' 3,
               demo_run ''r2'' ''t'' ''pending'' 2]\<rparr>"

theorem next_serves_oldest_witness:
  "pending_indices 10 (runs demo_world) = [2, 1] \<and> runs_next 10 1 demo_world = ([], demo_world)"
proof -
  have p: "pending_indices 10 (runs demo_world) = [2, 1]" by code_simp
  have blocked: "running_on (r_thread (runs demo_world ! 2)) (runs demo_world) \<noteq> 0" by code_simp
  from next_serves_oldest[OF p] p blocked show ?thesis by simp
qed

section \<open>Creating runs\<close>






section \<open>Cancelling runs\<close>

definition interrupted :: "time \<Rightarrow> run \<Rightarrow> run" where
  "interrupted now r = r\<lparr>r_status := ''interrupted'', r_updated := now\<rparr>"

lemma cancel_one_eager:
  assumes "action \<noteq> ''rollback''"
  shows "runs (snd (snd (cancel_one action now tid i w))) =
      (if is_active (r_status (runs w ! i)) then (runs w)[i := interrupted now (runs w ! i)] else runs w)"
    and "fst (snd (cancel_one action now tid i w)) = is_active (r_status (runs w ! i))"
    and "fst (cancel_one action now tid i w) = [Publish (r_id (runs w ! i))]"
  using assms by (simp_all add: cancel_one_def Let_def case_prod_unfold interrupted_def)

lemma cancel_each_eager:
  assumes "action \<noteq> ''rollback''" and "distinct is" and "\<forall>i\<in>set is. i < length (runs w)"
  shows "length (runs (snd (snd (cancel_each action now tid is w)))) = length (runs w) \<and>
    (\<forall>k<length (runs w). runs (snd (snd (cancel_each action now tid is w))) ! k =
       (if k \<in> set is \<and> is_active (r_status (runs w ! k)) then interrupted now (runs w ! k) else runs w ! k)) \<and>
    (fst (snd (cancel_each action now tid is w)) \<longleftrightarrow> (\<exists>i\<in>set is. is_active (r_status (runs w ! i)))) \<and>
    (\<forall>c\<in>set (fst (cancel_each action now tid is w)). \<exists>rid. c = Publish rid)"
  using assms(2,3)
proof (induction "is" arbitrary: w)
  case Nil
  then show ?case by simp
next
  case (Cons i "is")
  let ?w1 = "snd (snd (cancel_one action now tid i w))"
  have runs1: "runs ?w1 = (if is_active (r_status (runs w ! i)) then (runs w)[i := interrupted now (runs w ! i)] else runs w)"
    by (rule cancel_one_eager(1)[OF assms(1)])
  have len: "length (runs ?w1) = length (runs w)" using runs1 by simp
  have other: "k \<noteq> i \<Longrightarrow> runs ?w1 ! k = runs w ! k" for k using runs1 by simp
  have notin: "i \<notin> set is" using Cons.prems by simp
  have IH: "length (runs (snd (snd (cancel_each action now tid is ?w1)))) = length (runs ?w1) \<and>
    (\<forall>k<length (runs ?w1). runs (snd (snd (cancel_each action now tid is ?w1))) ! k =
       (if k \<in> set is \<and> is_active (r_status (runs ?w1 ! k)) then interrupted now (runs ?w1 ! k) else runs ?w1 ! k)) \<and>
    (fst (snd (cancel_each action now tid is ?w1)) \<longleftrightarrow> (\<exists>i\<in>set is. is_active (r_status (runs ?w1 ! i)))) \<and>
    (\<forall>c\<in>set (fst (cancel_each action now tid is ?w1)). \<exists>rid. c = Publish rid)"
    using Cons.prems len by (intro Cons.IH) auto
  have ex: "(\<exists>i\<in>set is. is_active (r_status (runs ?w1 ! i))) \<longleftrightarrow> (\<exists>i\<in>set is. is_active (r_status (runs w ! i)))"
    using other notin by metis
  have each: "cancel_each action now tid (i # is) w =
      ([Publish (r_id (runs w ! i))] @ fst (cancel_each action now tid is ?w1),
       is_active (r_status (runs w ! i)) \<or> fst (snd (cancel_each action now tid is ?w1)),
       snd (snd (cancel_each action now tid is ?w1)))"
    using cancel_one_eager(2,3)[OF assms(1)] by (simp add: case_prod_unfold)
  have nth: "runs (snd (snd (cancel_each action now tid is ?w1))) ! k =
       (if k \<in> set (i # is) \<and> is_active (r_status (runs w ! k)) then interrupted now (runs w ! k) else runs w ! k)"
    if "k < length (runs w)" for k
    using IH len that other[of k] notin runs1 by (cases "k = i") auto
  show ?case unfolding each using IH len nth ex by simp
qed

lemma gather_publish:
  "\<forall>c\<in>set cs. \<exists>rid. c = Publish rid \<Longrightarrow>
   fst (gather_calls E A ms action tid cs w) = Inr () \<and> runs (snd (gather_calls E A ms action tid cs w)) = runs w"
  by (induction cs arbitrary: w) (auto simp: run_call_def case_prod_unfold)

lemma cancel_marks:
  assumes args: "cancel_args_ok run_ids tid status aid" and st: "status_list status = Inr statuses"
    and action: "action \<noteq> ''rollback''"
    and some: "\<exists>r\<in>set (runs w). is_run_match run_ids tid statuses aid r \<and> is_active (r_status r)"
  shows "fst (runs_cancel E no_auth now ms run_ids action tid status aid w) = Inr () \<and>
    runs (snd (runs_cancel E no_auth now ms run_ids action tid status aid w)) =
      map (\<lambda>r. if is_run_match run_ids tid statuses aid r \<and> is_active (r_status r) then interrupted now r else r)
        (runs w)"
proof -
  define cs where cs: "cs = map fst (filter (\<lambda>(i, r). is_run_match run_ids tid statuses aid r) (enumerate 0 (runs w)))"
  have cand: "cancel_candidates PNone run_ids tid statuses aid w = (Inr cs, w)"
    by (simp add: cancel_candidates_def cs)
  have mem: "i \<in> set cs \<longleftrightarrow> i < length (runs w) \<and> is_run_match run_ids tid statuses aid (runs w ! i)" for i
    by (force simp: cs in_set_enumerate_eq image_iff)
  have dist: "distinct cs" unfolding cs by (metis distinct_map_filter distinct_enumerate distinct_map map_fst_enumerate distinct_upt)
  note ce = cancel_each_eager[OF action dist, of w now tid]
  have ce: "length (runs (snd (snd (cancel_each action now tid cs w)))) = length (runs w)"
    "\<And>k. k < length (runs w) \<Longrightarrow> runs (snd (snd (cancel_each action now tid cs w))) ! k =
       (if k \<in> set cs \<and> is_active (r_status (runs w ! k)) then interrupted now (runs w ! k) else runs w ! k)"
    "fst (snd (cancel_each action now tid cs w)) \<longleftrightarrow> (\<exists>i\<in>set cs. is_active (r_status (runs w ! i)))"
    "\<forall>c\<in>set (fst (cancel_each action now tid cs w)). \<exists>rid. c = Publish rid"
    using ce mem by auto
  have some': "\<exists>i\<in>set cs. is_active (r_status (runs w ! i))"
    using some mem by (metis in_set_conv_nth)
  then have ne: "cs \<noteq> []" by auto
  have res: "runs_cancel E no_auth now ms run_ids action tid status aid w =
      gather_calls E no_auth ms action tid (fst (cancel_each action now tid cs w)) (snd (snd (cancel_each action now tid cs w)))"
    using args st ne some' ce(3) by (simp add: runs_cancel_def no_auth_def cand case_prod_unfold)
  have "runs (snd (snd (cancel_each action now tid cs w))) =
      map (\<lambda>r. if is_run_match run_ids tid statuses aid r \<and> is_active (r_status r) then interrupted now r else r) (runs w)"
    by (rule nth_equalityI) (simp_all add: ce mem)
  then show ?thesis unfolding res using gather_publish[OF ce(4)] by simp
qed

text \<open>
  An interrupting cancellation marks exactly the selected runs. For a caller without filters
  and with valid arguments that select at least one pending or running run, \<open>cancel\<close> succeeds; every
  selected pending or running run is marked interrupted, running ones at once and not by their
  worker, and no other run changes.
\<close>

theorem cancel_marks_selected:
  assumes "cancel_args_ok run_ids tid status aid" and "status_list status = Inr statuses"
    and "action \<noteq> ''rollback''"
    and "\<exists>r\<in>set (runs w). is_run_match run_ids tid statuses aid r \<and> is_active (r_status r)"
  shows "fst (runs_cancel E no_auth now ms run_ids action tid status aid w) = Inr () \<and>
    runs (snd (runs_cancel E no_auth now ms run_ids action tid status aid w)) =
      map (\<lambda>r. if is_run_match run_ids tid statuses aid r \<and> is_active (r_status r) then interrupted now r else r)
        (runs w)"
  by (rule cancel_marks[OF assms])

theorem cancel_marks_selected_witness:
  "map r_status (runs (snd (runs_cancel demo_env no_auth 9 1 None ''interrupt'' None (Some ''running'') None demo_world)))
   = [''interrupted'', ''pending'', ''pending'']"
proof -
  have 1: "cancel_args_ok None None (Some ''running'') None" by (simp add: cancel_args_ok_def)
  have 2: "status_list (Some ''running'') = Inr [''running'']" by (simp add: status_list_def is_active_def)
  have 3: "''interrupt'' \<noteq> ''rollback''" by simp
  have 4: "\<exists>r\<in>set (runs demo_world). is_run_match None None [''running''] None r \<and> is_active (r_status r)"
    by code_simp
  show ?thesis
    using cancel_marks_selected[OF 1 2 3 4, of demo_env 9 1]
    by (simp add: demo_world_def demo_run_def is_run_match_def is_active_def interrupted_def)
qed

text \<open>What a listener of a run on a thread can observe of the stream manager.\<close>

definition same_for_listeners :: "nat \<Rightarrow> stream_manager \<Rightarrow> stream_manager \<Rightarrow> bool" where
  "same_for_listeners q sm sm' \<longleftrightarrow>
     (\<forall>r t. get_control_key r (Some t) sm' = get_control_key r (Some t) sm) \<and>
     (\<forall>r. dd_get (sm_control_queues sm') NoThread r = dd_get (sm_control_queues sm) NoThread r) \<and>
     contents sm' q = contents sm q"

lemma listeners_refl [simp]: "same_for_listeners q sm sm"
  by (simp add: same_for_listeners_def)

lemma listeners_trans:
  "same_for_listeners q a b \<Longrightarrow> same_for_listeners q b c \<Longrightarrow> same_for_listeners q a c"
  by (simp add: same_for_listeners_def)

lemma listeners_get_queues: "same_for_listeners q sm (snd (get_queues r t sm))"
  by (simp add: same_for_listeners_def get_queues_def get_control_key_def)

lemma control_message_topic: "is_control_topic (m_topic (control_message rid action))"
  using is_control_topic_run[of "''run:'' @ opt_str rid @ '':''" "[]"] by (simp add: control_message_def)

lemma listeners_publish:
  assumes "\<forall>r. q \<notin> set (dd_get (sm_control_queues sm) NoThread r)"
  shows "same_for_listeners q sm (stream_put ms r None (control_message rid action) res sm)"
  using assms control_message_topic[of rid action]
  by (simp add: same_for_listeners_def control_key_after_put stream_put_fields recipients_def thread_key_def
      count_list_0_iff)

lemma runs_delete_streams: "streams (snd (runs_delete E A rid tid w)) = streams w"
proof -
  have "streams (snd (delete_run_row E rid tid w)) = streams w" for w
    by (simp add: delete_run_row_def Let_def)
  then show ?thesis
    using same_keeps(6)[OF get_with_filters_same]
    by (cases "A ''threads'' ''delete'' (Some tid)")
      (auto simp: runs_delete_def case_prod_unfold attempt_def split: sum.split)
qed

lemma cancel_one_listeners: "same_for_listeners q (streams w) (streams (snd (snd (cancel_one action now tid i w))))"
  by (simp add: cancel_one_def Let_def case_prod_unfold listeners_get_queues)

lemma cancel_each_listeners:
  "same_for_listeners q (streams w) (streams (snd (snd (cancel_each action now tid is w))))"
proof (induction "is" arbitrary: w)
  case Nil
  then show ?case by simp
next
  case (Cons i "is")
  then show ?case
    using cancel_one_listeners listeners_trans by (simp add: case_prod_unfold) blast
qed

lemma gather_listeners:
  "\<forall>r. q \<notin> set (dd_get (sm_control_queues (streams w)) NoThread r) \<Longrightarrow>
   same_for_listeners q (streams w) (streams (snd (gather_calls E A ms action None cs w)))"
proof (induction cs arbitrary: w)
  case Nil
  then show ?case by simp
next
  case (Cons c cs)
  let ?w1 = "snd (run_call E A ms action None c w)"
  have "same_for_listeners q (streams w) (streams ?w1)"
    using listeners_publish[OF Cons.prems]
    by (auto simp: run_call_def case_prod_unfold runs_delete_streams split: cancel_call.split option.split)
  moreover from this Cons.prems have "\<forall>r. q \<notin> set (dd_get (sm_control_queues (streams ?w1)) NoThread r)"
    by (simp add: same_for_listeners_def)
  ultimately show ?case
    using Cons.IH[of ?w1] listeners_trans by (auto simp: case_prod_unfold)
qed

text \<open>
  C40. A bulk cancellation never reaches a worker. A cancellation by status or by assistant is
  published under the threadless key: for every run on a thread, the stored control message and the
  messages waiting in its listener's queue are the same as before, so its listener decides the same
  (a queue not registered under the threadless key is any queue a thread's listener has).
\<close>

theorem bulk_cancel_unheard:
  assumes "\<forall>r. q \<notin> set (dd_get (sm_control_queues (streams w)) NoThread r)"
  shows "let w' = snd (runs_cancel E A now ms run_ids action None status aid w)
    in listen_for_cancellation r (Some t) (streams w') inputs = listen_for_cancellation r (Some t) (streams w) inputs \<and>
       contents (streams w') q = contents (streams w) q"
proof -
  define w' where w': "w' = snd (runs_cancel E A now ms run_ids action None status aid w)"
  have cand: "streams (snd (cancel_candidates filters run_ids None statuses aid w)) = streams w" for filters statuses aid
    using same_keeps(6) cancel_candidates_same by blast
  have each: "same_for_listeners q (streams w) (streams (snd (snd (cancel_each action now None is
      (snd (cancel_candidates filters run_ids None statuses aid w))))))" for filters statuses "is" aid
    using cancel_each_listeners cand by metis
  have gather: "same_for_listeners q (streams w) (streams (snd (gather_calls E A ms action None cs
      (snd (snd (cancel_each action now None is (snd (cancel_candidates filters run_ids None statuses aid w))))))))"
    for filters statuses "is" cs aid
    using each[of "is" filters statuses aid] assms(1)
    by (intro listeners_trans[OF each[of "is" filters statuses aid]] gather_listeners)
      (simp add: same_for_listeners_def)
  have "same_for_listeners q (streams w) (streams w')"
    unfolding w' runs_cancel_def
    by (auto simp: case_prod_unfold cand each gather
        intro!: attempt_keeps[where P = "\<lambda>w'. same_for_listeners q (streams w) (streams w')"])
  then show ?thesis by (simp add: same_for_listeners_def listen_for_cancellation_def Let_def flip: w')
qed

theorem bulk_cancel_unheard_witness:
  "listen_for_cancellation ''r1'' (Some ''t'')
     (streams (snd (runs_cancel demo_env no_auth 9 1 None ''interrupt'' None (Some ''running'') None demo_world))) []
   = None"
proof -
  have q: "\<forall>r. 0 \<notin> set (dd_get (sm_control_queues (streams demo_world)) NoThread r)"
    by (simp add: demo_world_def world_init_def stream_manager_init_def dd_get_def dget_default_def)
  have before: "listen_for_cancellation ''r1'' (Some ''t'') (streams demo_world) [] = None" by code_simp
  show ?thesis
    using bulk_cancel_unheard[OF q, where E = demo_env and A = no_auth and now = 9 and ms = 1 and run_ids = None
        and action = "''interrupt''" and status = "Some ''running''" and aid = None and r = "''r1''"
        and t = "''t''" and inputs = "[]"]
      before by (simp add: Let_def)
qed

end
