(* ===== verification/Threads.thy ===== *)
theory Threads
  imports Runs_Props
begin

text \<open>
  The class \<open>Threads\<close> of \<open>ops.py\<close>: search, count, lookup with TTL information, creation, patching,
  the two status updates made by workers, deletion with its cascade, pruning, copying and the TTL
  sweep. Searches return rows; the columns and paths
  of a row that the caller asked for are in \<open>Projection\<close>.
\<close>

section \<open>Sort keys\<close>

text \<open>A value a search sorts by. A UUID compares like its text.\<close>

datatype column = CTime time | CText string

fun column_less_eq :: "column \<Rightarrow> column \<Rightarrow> bool" where
  "column_less_eq (CTime a) (CTime b) \<longleftrightarrow> a \<le> b"
| "column_less_eq (CText a) (CText b) \<longleftrightarrow> a \<le> b"
| "column_less_eq (CTime a) (CText b) \<longleftrightarrow> True"
| "column_less_eq (CText a) (CTime b) \<longleftrightarrow> False"

instantiation column :: linorder
begin

definition less_eq_column :: "column \<Rightarrow> column \<Rightarrow> bool" where
  "less_eq_column a b \<longleftrightarrow> column_less_eq a b"

definition less_column :: "column \<Rightarrow> column \<Rightarrow> bool" where
  "less_column a b \<longleftrightarrow> column_less_eq a b \<and> \<not> column_less_eq b a"

instance
proof
  fix x y z :: column
  show "x < y \<longleftrightarrow> x \<le> y \<and> \<not> y \<le> x" by (simp add: less_eq_column_def less_column_def)
  show "x \<le> x" by (cases x) (simp_all add: less_eq_column_def)
  show "x \<le> y \<Longrightarrow> y \<le> z \<Longrightarrow> x \<le> z"
    by (cases x; cases y; cases z) (auto simp: less_eq_column_def)
  show "x \<le> y \<Longrightarrow> y \<le> x \<Longrightarrow> x = y"
    by (cases x; cases y) (auto simp: less_eq_column_def)
  show "x \<le> y \<or> y \<le> x" by (cases x; cases y) (auto simp: less_eq_column_def)
qed

end

definition is_ascending :: "string option \<Rightarrow> bool" where
  "is_ascending sort_order \<longleftrightarrow> (case sort_order of None \<Rightarrow> False | Some s \<Rightarrow> str_lower s = ''asc'')"

text \<open>One page of a search, and the cursor of the next one.\<close>

definition page :: "nat \<Rightarrow> nat \<Rightarrow> 'a list \<Rightarrow> 'a list \<times> nat option" where
  "page offset limit xs =
     (py_slice offset limit xs, if offset + limit < length xs then Some (offset + limit) else None)"

section \<open>Search and lookup\<close>

definition values_match :: "pdict \<Rightarrow> thread \<Rightarrow> bool res" where
  "values_match vals t =
     (if vals = [] then Inr True
      else case t_values t of None \<Rightarrow> Inr True | Some v \<Rightarrow> is_jsonb_contained v vals)"

definition thread_matches :: "pyval \<Rightarrow> pdict \<Rightarrow> pdict \<Rightarrow> string option \<Rightarrow> thread \<Rightarrow> bool res" where
  "thread_matches filters metadata vals status t =
     bind_res (passes filters (t_metadata t)) (\<lambda>ok.
       if \<not> ok then Inr False
       else bind_res (if metadata = [] then Inr True else is_jsonb_contained (PDict (t_metadata t)) metadata) (\<lambda>ok.
         if \<not> ok then Inr False
         else bind_res (values_match vals t) (\<lambda>ok.
           if \<not> ok then Inr False
           else Inr (case status of None \<Rightarrow> True | Some s \<Rightarrow> s = [] \<or> t_status t = s))))"

text \<open>The loop over the rows; matching rows get their default \<open>state_updated_at\<close>.\<close>

fun collect_threads :: "(thread \<Rightarrow> bool res) \<Rightarrow> thread list \<Rightarrow> thread list res \<times> thread list" where
  "collect_threads P [] = (Inr [], [])"
| "collect_threads P (t # ts) =
     (case P t of
        Inl e \<Rightarrow> (Inl e, t # ts)
      | Inr b \<Rightarrow>
          (let t' = (if b then default_state_updated t else t);
               (found, ts') = collect_threads P ts
           in (bind_res found (\<lambda>us. Inr (if b then t' # us else us)), t' # ts')))"

definition thread_sort_key :: "string \<Rightarrow> thread \<Rightarrow> column" where
  "thread_sort_key sort_by t =
     (if sort_by = ''thread_id'' then CText (t_id t)
      else if sort_by = ''created_at'' then CTime (t_created t)
      else if sort_by = ''updated_at'' then CTime (t_updated t)
      else if sort_by = ''state_updated_at'' then CTime (case t_state_updated t of None \<Rightarrow> t_updated t | Some u \<Rightarrow> u)
      else CText (t_status t))"

definition thread_sort_columns :: "string list" where
  "thread_sort_columns = [''thread_id'', ''created_at'', ''updated_at'', ''state_updated_at'', ''status'']"

definition sort_threads :: "string option \<Rightarrow> string option \<Rightarrow> thread list \<Rightarrow> thread list" where
  "sort_threads sort_by sort_order ts =
     (case sort_by of
        None \<Rightarrow> py_sorted t_updated True ts
      | Some s \<Rightarrow>
          if s \<in> set thread_sort_columns then py_sorted (thread_sort_key s) (\<not> is_ascending sort_order) ts
          else py_sorted t_updated True ts)"

text \<open>\<open>ids\<close>: the identifiers asked for, \<open>None\<close> in the list being a text that is not a UUID.\<close>

definition threads_search ::
  "auth \<Rightarrow> uuid option list \<Rightarrow> pdict \<Rightarrow> pdict \<Rightarrow> string option \<Rightarrow> nat \<Rightarrow> nat \<Rightarrow> string option \<Rightarrow> string option \<Rightarrow>
   world \<Rightarrow> (thread list \<times> nat option) res \<times> world" where
  "threads_search A ids metadata vals status limit offset sort_by sort_order w =
     attempt (A ''threads'' ''search'' None) w (\<lambda>filters.
       if None \<in> set ids then (Inl (HTTPException 400), w)
       else
         (let P = (\<lambda>t. if ids \<noteq> [] \<and> Some (t_id t) \<notin> set ids then Inr False
                       else thread_matches filters metadata vals status t);
              (found, ts) = collect_threads P (threads w)
          in (bind_res found (\<lambda>us. Inr (page offset limit (sort_threads sort_by sort_order us))),
              w\<lparr>threads := ts\<rparr>)))"

definition threads_count ::
  "auth \<Rightarrow> pdict \<Rightarrow> pdict \<Rightarrow> string option \<Rightarrow> world \<Rightarrow> nat res" where
  "threads_count A metadata vals status w =
     bind_res (A ''threads'' ''search'' None) (\<lambda>filters.
       bind_res (filter_res (thread_matches filters metadata vals status) (threads w)) (\<lambda>ts. Inr (length ts)))"

text \<open>The configuration the runtime reads from the API server.\<close>

record api_config =
  thread_ttl :: "pdict option"
  sweep_limit :: "int option"

definition threads_get ::
  "api_config \<Rightarrow> auth \<Rightarrow> uuid \<Rightarrow> bool \<Rightarrow> world \<Rightarrow> (thread \<times> ttl_info option) res \<times> world" where
  "threads_get cfg A tid include_ttl w =
     attempt (A ''threads'' ''read'' (Some tid)) w (\<lambda>filters.
       case get_with_filters tid filters w of (res, w1) \<Rightarrow>
         attempt res w1 (\<lambda>found.
           case found of
             None \<Rightarrow> (Inl (HTTPException 404), w1)
           | Some t \<Rightarrow>
               if \<not> include_ttl then (Inr (t, None), w1)
               else (bind_res (effective_thread_ttl (thread_ttl cfg) (thread_ttls w1) tid) (\<lambda>(config, state).
                       case config of
                         None \<Rightarrow> Inr (t, None)
                       | Some c \<Rightarrow> bind_res (thread_ttl_info (t_updated t) c state) (\<lambda>i. Inr (t, Some i))),
                     w1)))"

section \<open>Creation and patching\<close>

definition store_ttl :: "uuid \<Rightarrow> pdict option \<Rightarrow> 'a \<Rightarrow> world \<Rightarrow> 'a res \<times> world" where
  "store_ttl tid ttl x w =
     (case ttl of
        None \<Rightarrow> (Inr x, w)
      | Some c \<Rightarrow> (case set_thread_ttl_override tid c (thread_ttls w) of
                      (res, ttls) \<Rightarrow> (bind_res res (\<lambda>_. Inr x), w\<lparr>thread_ttls := ttls\<rparr>)))"

definition new_thread :: "uuid \<Rightarrow> pdict \<Rightarrow> time \<Rightarrow> thread" where
  "new_thread tid metadata now =
     \<lparr>t_id = tid, t_created = now, t_updated = now, t_state_updated = Some now, t_metadata = metadata,
      t_status = ''idle'', t_config = [], t_values = Some PNone, t_interrupts = None, t_error = PNone\<rparr>"

definition threads_put ::
  "auth \<Rightarrow> time \<Rightarrow> uuid \<Rightarrow> pdict \<Rightarrow> string \<Rightarrow> pdict option \<Rightarrow> world \<Rightarrow> thread res \<times> world" where
  "threads_put A now tid metadata if_exists ttl w =
     attempt (A ''threads'' ''create'' (Some tid)) w (\<lambda>filters.
       (let create = (\<lambda>_::unit. store_ttl tid ttl (new_thread tid metadata now)
                        (w\<lparr>threads := threads w @ [new_thread tid metadata now]\<rparr>))
        in case find_thread tid w of
             None \<Rightarrow> create ()
           | Some t \<Rightarrow> attempt (passes filters (t_metadata t)) w (\<lambda>ok.
               if \<not> ok \<or> if_exists = ''raise'' then (Inl (HTTPException 409), w)
               else if if_exists = ''do_nothing'' then (Inr t, w)
               else create ())))"

definition patched_thread :: "pdict \<Rightarrow> time \<Rightarrow> thread \<Rightarrow> thread" where
  "patched_thread metadata now t =
     (default_state_updated t)\<lparr>t_metadata := dict_merge (t_metadata t) metadata, t_updated := now\<rparr>"

definition threads_patch ::
  "auth \<Rightarrow> time \<Rightarrow> uuid \<Rightarrow> pdict \<Rightarrow> pdict option \<Rightarrow> world \<Rightarrow> thread option res \<times> world" where
  "threads_patch A now tid metadata ttl w =
     (case find_thread tid w of
        None \<Rightarrow> (Inr None, w)
      | Some t \<Rightarrow>
          attempt (A ''threads'' ''update'' (Some tid)) w (\<lambda>filters.
          attempt (passes filters (t_metadata t)) w (\<lambda>ok.
            if \<not> ok then (Inr None, w)
            else store_ttl tid ttl (Some (patched_thread metadata now t))
                   (update_thread tid (patched_thread metadata now) w))))"

section \<open>Status\<close>

text \<open>
  What the status updates read of a checkpoint: whether it has next tasks, its values, and the
  interrupts of its tasks; and of an exception: whether it is a user interrupt or rollback, and its
  JSON. The conversion of an interrupt (\<open>_patch_interrupt\<close>) is the argument \<open>patch\<close>.
\<close>

record checkpoint_payload =
  cp_next :: bool
  cp_values :: pyval
  cp_tasks :: "(string \<times> pyval list) list"

record exception_info =
  by_user :: bool
  as_json :: pyval

definition interrupts_of :: "(pyval \<Rightarrow> pyval) \<Rightarrow> checkpoint_payload option \<Rightarrow> pyval" where
  "interrupts_of patch checkpoint =
     (case checkpoint of
        None \<Rightarrow> PDict []
      | Some c \<Rightarrow> PDict (dict_merge []
          (map (\<lambda>(i, is). (i, PList (map patch is))) (filter (\<lambda>(i, is). is \<noteq> []) (cp_tasks c)))))"

definition status_update ::
  "(pyval \<Rightarrow> pyval) \<Rightarrow> time \<Rightarrow> string \<Rightarrow> checkpoint_payload option \<Rightarrow> exception_info option \<Rightarrow> thread \<Rightarrow> thread" where
  "status_update patch now status checkpoint exn t =
     t\<lparr>t_updated := now, t_state_updated := Some now, t_status := status,
       t_interrupts := Some (interrupts_of patch checkpoint),
       t_error := (case exn of None \<Rightarrow> PNone | Some e \<Rightarrow> as_json e),
       t_values := (case checkpoint of None \<Rightarrow> t_values t | Some c \<Rightarrow> Some (cp_values c))\<rparr>"

definition has_next :: "checkpoint_payload option \<Rightarrow> bool" where
  "has_next checkpoint = (case checkpoint of None \<Rightarrow> False | Some c \<Rightarrow> cp_next c)"

definition threads_set_status ::
  "(pyval \<Rightarrow> pyval) \<Rightarrow> time \<Rightarrow> uuid \<Rightarrow> checkpoint_payload option \<Rightarrow> exception_info option \<Rightarrow>
   world \<Rightarrow> unit res \<times> world" where
  "threads_set_status patch now tid checkpoint exn w =
     (if find_thread tid w = None then (Inl (HTTPException 404), w)
      else
        (let base = (if exn \<noteq> None then ''error'' else if has_next checkpoint then ''interrupted'' else ''idle'');
             status = (if has_active_runs tid w then ''busy'' else base)
         in (Inr (), update_thread tid (status_update patch now status checkpoint exn) w)))"

definition base_joint_status :: "checkpoint_payload option \<Rightarrow> exception_info option \<Rightarrow> string" where
  "base_joint_status checkpoint exn =
     (if (case exn of None \<Rightarrow> False | Some e \<Rightarrow> \<not> by_user e) then ''error''
      else if has_next checkpoint then ''interrupted'' else ''idle'')"

definition joint_update ::
  "(pyval \<Rightarrow> pyval) \<Rightarrow> time \<Rightarrow> string \<Rightarrow> string \<Rightarrow> checkpoint_payload option \<Rightarrow> exception_info option \<Rightarrow>
   thread \<Rightarrow> thread" where
  "joint_update patch now graph_id status checkpoint exn t =
     (status_update patch now status checkpoint exn t)
       \<lparr>t_metadata := AList.update ''graph_id'' (PStr graph_id) (t_metadata t)\<rparr>"

definition set_run_status :: "time \<Rightarrow> uuid \<Rightarrow> uuid \<Rightarrow> string \<Rightarrow> world \<Rightarrow> world" where
  "set_run_status now rid tid status w =
     w\<lparr>runs := update_first (\<lambda>r. r_id r = Some rid \<and> r_thread r = tid)
                (\<lambda>r. r\<lparr>r_status := status, r_updated := now\<rparr>) (runs w)\<rparr>"

definition threads_set_joint_status ::
  "saver_env \<Rightarrow> auth \<Rightarrow> (pyval \<Rightarrow> pyval) \<Rightarrow> time \<Rightarrow> uuid \<Rightarrow> uuid \<Rightarrow> string \<Rightarrow> string \<Rightarrow>
   checkpoint_payload option \<Rightarrow> exception_info option \<Rightarrow> world \<Rightarrow> unit res \<times> world" where
  "threads_set_joint_status E A patch now tid rid run_status graph_id checkpoint exn w =
     (if find_thread tid w = None then (Inl (HTTPException 404), w)
      else if find_run rid tid w = None then (Inl (HTTPException 404), w)
      else
        (let base = base_joint_status checkpoint exn;
             (res, w1) = (if run_status = ''rollback''
                          then (case runs_delete E A rid tid w of (r, w1) \<Rightarrow> (bind_res r (\<lambda>_. Inr ()), w1))
                          else (Inr (), set_run_status now rid tid run_status w))
         in attempt res w1 (\<lambda>_.
              (let status = (if is_active run_status \<or> has_active_runs tid w1 then ''busy'' else base)
               in (Inr (), update_thread tid (joint_update patch now graph_id status checkpoint exn) w1)))))"

section \<open>Deletion\<close>

text \<open>
  The cascade: the runs and crons of the thread, its checkpoints, its row and its TTL entry. The checkpoints
  are those of the built-in saver; with \<open>USE_CUSTOM_CHECKPOINTER\<close> they are the custom saver's business.
\<close>

definition delete_thread_rows :: "saver_env \<Rightarrow> uuid \<Rightarrow> world \<Rightarrow> world" where
  "delete_thread_rows E tid w =
     w\<lparr>runs := filter (\<lambda>r. r_thread r \<noteq> tid) (runs w),
       crons := filter (\<lambda>c. c_thread c \<noteq> Some tid) (crons w),
       ckpt_saver := saver_delete_thread E tid (ckpt_saver w),
       threads := delete_first (\<lambda>t. t_id t = tid) (threads w),
       thread_ttls := AList.delete tid (thread_ttls w)\<rparr>"

definition threads_delete :: "saver_env \<Rightarrow> auth \<Rightarrow> uuid \<Rightarrow> world \<Rightarrow> uuid res \<times> world" where
  "threads_delete E A tid w =
     attempt (A ''threads'' ''delete'' (Some tid)) w (\<lambda>filters.
       case find_thread tid w of
         None \<Rightarrow> (Inl (HTTPException 404), w)
       | Some t \<Rightarrow> attempt (passes filters (t_metadata t)) w (\<lambda>ok.
           if \<not> ok then (Inl (HTTPException 404), w)
           else (Inr (t_id t), delete_thread_rows E tid w)))"

text \<open>\<open>_delete_with_run\<close>: the run's thread, without an authorization context and without regard to the run.\<close>

definition delete_with_run :: "saver_env \<Rightarrow> uuid \<Rightarrow> uuid \<Rightarrow> world \<Rightarrow> uuid res \<times> world" where
  "delete_with_run E tid rid w = threads_delete E no_auth tid w"

section \<open>Pruning\<close>

fun check_all_visible :: "pyval \<Rightarrow> uuid list \<Rightarrow> world \<Rightarrow> bool res \<times> world" where
  "check_all_visible filters [] w = (Inr True, w)"
| "check_all_visible filters (tid # tids) w =
     (case get_with_filters tid filters w of (res, w1) \<Rightarrow>
        attempt res w1 (\<lambda>t.
          case check_all_visible filters tids w1 of (rest, w2) \<Rightarrow>
            attempt rest w2 (\<lambda>b. (Inr (t \<noteq> None \<and> b), w2))))"

text \<open>Deleting each thread; an \<open>HTTPException\<close> skips the thread, anything else is raised.\<close>

fun delete_each :: "saver_env \<Rightarrow> auth \<Rightarrow> uuid list \<Rightarrow> world \<Rightarrow> nat res \<times> world" where
  "delete_each E A [] w = (Inr 0, w)"
| "delete_each E A (tid # tids) w =
     (case threads_delete E A tid w of
        (Inr _, w1) \<Rightarrow> (case delete_each E A tids w1 of (n, w2) \<Rightarrow> (bind_res n (\<lambda>k. Inr (k + 1)), w2))
      | (Inl (HTTPException _), w1) \<Rightarrow> delete_each E A tids w1
      | (Inl e, w1) \<Rightarrow> (Inl e, w1))"

text \<open>The checkpointer call of one batch; \<open>None\<close> is a call that does not return.\<close>

fun prune_batches :: "saver_env \<Rightarrow> uuid list list \<Rightarrow> world \<Rightarrow> world option" where
  "prune_batches E [] w = Some w"
| "prune_batches E (b # bs) w =
     (case saver_prune E b ''keep_latest'' (ckpt_saver w) of
        None \<Rightarrow> None
      | Some (res, s) \<Rightarrow> prune_batches E bs (w\<lparr>ckpt_saver := s\<rparr>))"

definition threads_prune ::
  "saver_env \<Rightarrow> auth \<Rightarrow> uuid list \<Rightarrow> string \<Rightarrow> nat \<Rightarrow> world \<Rightarrow> (nat res \<times> world) option" where
  "threads_prune E A tids strategy batch_size w =
     (if tids = [] then Some (Inr 0, w)
      else case A ''threads'' ''delete'' None of
        Inl e \<Rightarrow> Some (Inl e, w)
      | Inr filters \<Rightarrow>
          (case (if truthy filters then check_all_visible filters tids w else (Inr True, w)) of
             (Inl e, w1) \<Rightarrow> Some (Inl e, w1)
           | (Inr ok, w1) \<Rightarrow>
               if \<not> ok then Some (Inl (HTTPException 404), w1)
               else if strategy \<notin> {''delete'', ''keep_latest''} then Some (Inl (HTTPException 422), w1)
               else if strategy = ''delete'' then Some (delete_each E A tids w1)
               else
                 (let ordered = filter (\<lambda>tid. tid \<in> t_id ` set (threads w1)) tids
                  in map_option (\<lambda>w2. (Inr (length ordered), w2)) (prune_batches E (chunks batch_size ordered) w1))))"

section \<open>Copying\<close>

definition copied_thread :: "uuid \<Rightarrow> time \<Rightarrow> thread \<Rightarrow> thread" where
  "copied_thread new_tid now t =
     \<lparr>t_id = new_tid, t_created = now, t_updated = now, t_state_updated = Some now, t_metadata = t_metadata t,
      t_status = ''idle'', t_config = [], t_values = None, t_interrupts = None, t_error = PNone\<rparr>"

text \<open>The checkpoints are copied as the built-in saver's; a custom saver's \<open>acopy_thread\<close> is not modelled.\<close>

definition threads_copy :: "auth \<Rightarrow> time \<Rightarrow> uuid \<Rightarrow> uuid \<Rightarrow> world \<Rightarrow> thread option res \<times> world" where
  "threads_copy A now fresh tid w =
     attempt (A ''threads'' ''read'' (Some tid)) w (\<lambda>read_filters.
     attempt (A ''threads'' ''create'' (Some fresh)) w (\<lambda>_.
       case find_thread tid w of
         None \<Rightarrow> (Inr None, w)
       | Some t \<Rightarrow> attempt (passes read_filters (t_metadata t)) w (\<lambda>ok.
           if \<not> ok then (Inr None, w)
           else
             (let new = copied_thread fresh now t;
                  ttls = (case map_of (thread_ttls w) tid of
                            None \<Rightarrow> thread_ttls w
                          | Some state \<Rightarrow>
                              (case override state of
                                 None \<Rightarrow> thread_ttls w
                               | Some p \<Rightarrow> AList.update fresh \<lparr>override = Some p, last_swept = None\<rparr> (thread_ttls w)))
              in (Inr (Some new),
                  w\<lparr>threads := threads w @ [new], thread_ttls := ttls,
                    ckpt_saver := copy_checkpoints tid fresh (ckpt_saver w)\<rparr>)))))"

section \<open>The TTL sweep\<close>

text \<open>An expired thread: when it expired, its policy, its TTL state and its update time.\<close>

record expired_thread =
  ex_at :: time
  ex_id :: uuid
  ex_policy :: ttl_policy
  ex_state :: ttl_state
  ex_updated :: time

definition expired_entry :: "api_config \<Rightarrow> time \<Rightarrow> world \<Rightarrow> thread \<Rightarrow> expired_thread option res" where
  "expired_entry cfg now w t =
     (if has_active_runs (t_id t) w then Inr None
      else bind_res (effective_thread_ttl (thread_ttl cfg) (thread_ttls w) (t_id t)) (\<lambda>(config, state).
        case config of
          None \<Rightarrow> Inr None
        | Some c \<Rightarrow>
            if ttl_strategy c = ''keep_latest'' \<and> already_swept (t_updated t) state then Inr None
            else bind_res (plus_minutes (t_updated t) (ttl_minutes c)) (\<lambda>due.
              Inr (if due \<le> now
                   then Some \<lparr>ex_at = due, ex_id = t_id t, ex_policy = c, ex_state = state, ex_updated = t_updated t\<rparr>
                   else None))))"

fun collect_expired :: "(thread \<Rightarrow> expired_thread option res) \<Rightarrow> thread list \<Rightarrow> expired_thread list res" where
  "collect_expired f [] = Inr []"
| "collect_expired f (t # ts) =
     bind_res (f t) (\<lambda>x. bind_res (collect_expired f ts) (\<lambda>xs.
       Inr (case x of None \<Rightarrow> xs | Some e \<Rightarrow> e # xs)))"

text \<open>The second loop over a batch: (processed, deleted) so far.\<close>

fun sweep_batch :: "saver_env \<Rightarrow> expired_thread list \<Rightarrow> nat \<times> nat \<Rightarrow> world \<Rightarrow> (nat \<times> nat) res \<times> world" where
  "sweep_batch E [] n w = (Inr n, w)"
| "sweep_batch E (x # xs) n w =
     (if ttl_strategy (ex_policy x) = ''delete''
      then (case threads_delete E no_auth (ex_id x) w of
              (Inr _, w1) \<Rightarrow> sweep_batch E xs (fst n + 1, snd n + 1) w1
            | (Inl e, w1) \<Rightarrow> if e = HTTPException 404 then sweep_batch E xs n w1 else (Inl e, w1))
      else sweep_batch E xs (fst n + 1, snd n)
             (w\<lparr>thread_ttls := AList.update (ex_id x) ((ex_state x)\<lparr>last_swept := Some (ex_updated x)\<rparr>) (thread_ttls w)\<rparr>))"

fun sweep_batches ::
  "saver_env \<Rightarrow> expired_thread list list \<Rightarrow> nat \<times> nat \<Rightarrow> world \<Rightarrow> ((nat \<times> nat) res \<times> world) option" where
  "sweep_batches E [] n w = Some (Inr n, w)"
| "sweep_batches E (b # bs) n w =
     (let keep = map ex_id (filter (\<lambda>x. ttl_strategy (ex_policy x) = ''keep_latest'') b)
      in case (if keep = [] then Some w else prune_batches E [keep] w) of
           None \<Rightarrow> None
         | Some w1 \<Rightarrow>
             (case sweep_batch E b n w1 of
                (Inl e, w2) \<Rightarrow> Some (Inl e, w2)
              | (Inr n', w2) \<Rightarrow> sweep_batches E bs n' w2))"

record sweep_stats =
  deleted_items :: int
  deleted_size :: int
  total_before :: int

definition effective_limit :: "api_config \<Rightarrow> int option \<Rightarrow> nat option" where
  "effective_limit cfg limit =
     map_option (\<lambda>n. nat (max 0 n)) (case limit of Some n \<Rightarrow> Some n | None \<Rightarrow> sweep_limit cfg)"

definition expired_threads :: "api_config \<Rightarrow> time \<Rightarrow> int option \<Rightarrow> world \<Rightarrow> expired_thread list res" where
  "expired_threads cfg now limit w =
     bind_res (collect_expired (expired_entry cfg now w) (threads w)) (\<lambda>xs.
       (let sorted_xs = sort_key (\<lambda>x. (ex_at x, ex_id x)) xs
        in Inr (case effective_limit cfg limit of None \<Rightarrow> sorted_xs | Some n \<Rightarrow> take n sorted_xs)))"

definition freed :: "(string \<Rightarrow> int) \<Rightarrow> (string \<Rightarrow> int) \<Rightarrow> uuid list \<Rightarrow> int" where
  "freed before after tids = (\<Sum>tid\<leftarrow>tids. max (before tid - after tid) 0)"

text \<open>
  \<open>sweep_ttl\<close> with the built-in saver, whose sizes and counts are always available, and with a dictionary
  for the statistics; without one the same happens and nothing is reported.
\<close>

definition threads_sweep_ttl ::
  "saver_env \<Rightarrow> api_config \<Rightarrow> time \<Rightarrow> int option \<Rightarrow> nat \<Rightarrow> world \<Rightarrow>
   ((nat \<times> nat \<times> sweep_stats) res \<times> world) option" where
  "threads_sweep_ttl E cfg now limit batch_size w =
     (let before = sizes (ckpt_saver w) in
      if (case limit of None \<Rightarrow> False | Some n \<Rightarrow> n \<le> 0)
      then Some (Inr (0, 0, \<lparr>deleted_items = 0, deleted_size = 0, total_before = ss_total_bytes before\<rparr>), w)
      else case expired_threads cfg now limit w of
        Inl e \<Rightarrow> Some (Inl e, w)
      | Inr expired \<Rightarrow>
          (case sweep_batches E (chunks batch_size expired) (0, 0) w of
             None \<Rightarrow> None
           | Some (Inl e, w1) \<Rightarrow> Some (Inl e, w1)
           | Some (Inr (processed, deleted), w1) \<Rightarrow>
               (let after = sizes (ckpt_saver w1); tids = remdups (map ex_id expired)
                in Some (Inr (processed, deleted,
                     \<lparr>deleted_items = freed (thread_checkpoints before) (thread_checkpoints after) tids,
                      deleted_size = freed (thread_bytes before) (thread_bytes after) tids,
                      total_before = ss_total_bytes before\<rparr>), w1))))"

end
