(* ===== verification/Thread_Sweep.thy ===== *)
theory Thread_Sweep
  imports Threads_Props
begin

text \<open>
  Copying and sweeping threads: both preserve the invariant of the runtime state. The sweep deletes
  or prunes only threads that are expired and inactive, oldest first and no more than its limit, and
  what it reports as freed lies between zero and the total before it.
\<close>

section \<open>Copying\<close>

definition can_copy :: "world \<Rightarrow> uuid \<Rightarrow> uuid \<Rightarrow> bool" where
  "can_copy w tid fresh \<longleftrightarrow>
     fresh \<notin> t_id ` set (threads w) \<and> unused_thread (ckpt_saver w) fresh \<and> length fresh = length tid \<and>
     keys_stay_distinct tid fresh (namespaces_of (ckpt_saver w) tid)"

definition state_ok :: "ttl_state \<Rightarrow> bool" where
  "state_ok st \<longleftrightarrow> (case override st of None \<Rightarrow> True | Some p \<Rightarrow> valid_policy p)"

lemma ttls_valid_update: "ttls_valid ttls \<Longrightarrow> state_ok st \<Longrightarrow> ttls_valid (AList.update k st ttls)"
  by (auto simp: ttls_valid_def state_ok_def dest!: set_update_mem)

lemma set_dkeys_update: "fst ` set (AList.update k v d) = insert k (fst ` set d)"
  by (induction d) auto

lemma override_valid:
  "ttls_valid ttls \<Longrightarrow> map_of ttls tid = Some st \<Longrightarrow> override st = Some p \<Longrightarrow> valid_policy p"
  by (auto simp: ttls_valid_def dest!: map_of_SomeD split: option.splits)

lemma threads_copy_inv:
  assumes inv: "world_inv w" and ok: "can_copy w tid fresh"
  shows "world_inv (snd (threads_copy A now fresh tid w))"
proof (cases "find_thread tid w")
  case None
  with inv show ?thesis by (simp add: threads_copy_def attempt_keeps)
next
  case (Some t)
  have ne: "fresh \<noteq> tid" using find_thread_id[OF Some] ok by (auto simp: can_copy_def)
  define new where "new = copied_thread fresh now t"
  have id: "t_id new = fresh" by (simp add: new_def copied_thread_def)
  let ?w1 = "w\<lparr>threads := threads w @ [new]\<rparr>"
  have w1: "world_inv ?w1" using inv ok id by (intro inv_new_thread) (simp_all add: can_copy_def)
  have s: "saver_inv (copy_checkpoints tid fresh (ckpt_saver w))"
    using ok ne by (intro copy_inv world_inv_parts(6)[OF inv]) (simp_all add: can_copy_def)
  have upd: "world_inv (w\<lparr>threads := threads w @ [new], thread_ttls := ttls,
      ckpt_saver := copy_checkpoints tid fresh (ckpt_saver w)\<rparr>)"
    if "ttls_valid ttls" "fst ` set ttls \<subseteq> insert fresh (fst ` set (thread_ttls w))" for ttls
  proof -
    have "world_inv (?w1\<lparr>thread_ttls := ttls\<rparr>)"
      using that world_inv_parts(5)[OF inv] id by (intro inv_thread_ttls[OF w1]) auto
    from inv_saver[OF this s] show ?thesis by simp
  qed
  have "ttls_valid (thread_ttls w)" by (rule world_inv_parts(4)[OF inv])
  then have "world_inv (w\<lparr>threads := threads w @ [new],
      thread_ttls := (case map_of (thread_ttls w) tid of None \<Rightarrow> thread_ttls w
        | Some state \<Rightarrow> (case override state of None \<Rightarrow> thread_ttls w
            | Some p \<Rightarrow> AList.update fresh \<lparr>override = Some p, last_swept = None\<rparr> (thread_ttls w))),
      ckpt_saver := copy_checkpoints tid fresh (ckpt_saver w)\<rparr>)"
    by (intro upd) (auto split: option.split simp: set_dkeys_update state_ok_def intro!: ttls_valid_update intro: override_valid)
  with Some inv show ?thesis
    by (auto simp: threads_copy_def Let_def new_def[symmetric] intro!: attempt_keeps[where P = world_inv])
qed


section \<open>What a sweep does to the rows\<close>

definition deletes :: "expired_thread \<Rightarrow> bool" where
  "deletes x \<longleftrightarrow> ttl_strategy (ex_policy x) = ''delete''"

definition doomed :: "expired_thread list \<Rightarrow> uuid set" where
  "doomed xs = ex_id ` set (filter deletes xs)"

lemma doomed_simps [simp]:
  "doomed [] = {}" "doomed (xs @ ys) = doomed xs \<union> doomed ys"
  "doomed (x # xs) = (if deletes x then insert (ex_id x) (doomed xs) else doomed xs)"
  by (auto simp: doomed_def)

lemma doomed_mem: "doomed xs \<subseteq> ex_id ` set xs"
  by (auto simp: doomed_def)

text \<open>The rows after a set of threads was deleted with their runs and crons.\<close>

definition rows_without :: "uuid set \<Rightarrow> world \<Rightarrow> world \<Rightarrow> bool" where
  "rows_without D w w' \<longleftrightarrow>
     threads w' = filter (\<lambda>t. t_id t \<notin> D) (threads w) \<and> runs w' = filter (\<lambda>r. r_thread r \<notin> D) (runs w) \<and>
     crons w' = filter (\<lambda>c. c_thread c \<notin> Some ` D) (crons w) \<and> assistants w' = assistants w \<and>
     streams w' = streams w"

lemma rows_without_empty: "rows_without {} w w' \<longleftrightarrow> threads w' = threads w \<and> runs w' = runs w \<and>
    crons w' = crons w \<and> assistants w' = assistants w \<and> streams w' = streams w"
  by (simp add: rows_without_def)

lemma rows_without_trans: "rows_without D w w1 \<Longrightarrow> rows_without D' w1 w2 \<Longrightarrow> rows_without (D \<union> D') w w2"
  by (auto simp: rows_without_def intro!: filter_cong)

lemma filter_other: "k \<notin> f ` set xs \<Longrightarrow> filter (\<lambda>x. f x \<noteq> k) xs = xs"
  by (induction xs) auto

lemma delete_first_filter:
  "distinct (map f xs) \<Longrightarrow> delete_first (\<lambda>x. f x = k) xs = filter (\<lambda>x. f x \<noteq> k) xs"
  by (induction xs) (auto simp: filter_other)

lemma delete_rows_without: "world_inv w \<Longrightarrow> rows_without {tid} w (delete_thread_rows E tid w)"
  using world_inv_parts(1)[of w] by (simp add: rows_without_def delete_thread_rows_def delete_first_filter)

text \<open>What is known of the threads still to be swept.\<close>

definition sweepable :: "expired_thread list \<Rightarrow> world \<Rightarrow> bool" where
  "sweepable xs w \<longleftrightarrow> distinct (map ex_id xs) \<and> ex_id ` set xs \<subseteq> t_id ` set (threads w) \<and>
     (\<forall>x\<in>set xs. state_ok (ex_state x))"

lemma sweepable_rows:
  assumes "sweepable (xs @ ys) w" and "rows_without (doomed xs) w w'"
  shows "sweepable ys w'"
proof -
  have "ex_id ` set ys \<inter> doomed xs = {}" using assms(1) doomed_mem[of xs] by (auto simp: sweepable_def)
  moreover have "t_id ` set (threads w') = t_id ` set (threads w) - doomed xs"
    using assms(2) by (auto simp: rows_without_def)
  ultimately show ?thesis using assms(1) by (auto simp: sweepable_def)
qed

lemma sweep_delete:
  assumes "world_inv w" and "tid \<in> t_id ` set (threads w)"
  shows "threads_delete E no_auth tid w = (Inr tid, delete_thread_rows E tid w)"
proof -
  obtain t where t: "find_thread tid w = Some t"
    using assms(2) thread_table.lookup_None[of tid w] by auto
  with find_thread_id[OF t] show ?thesis by (simp add: threads_delete_def no_auth_def)
qed

lemma keep_inv:
  assumes "world_inv w" and "state_ok st" and "tid \<in> t_id ` set (threads w)"
  shows "world_inv (w\<lparr>thread_ttls := AList.update tid (st\<lparr>last_swept := m\<rparr>) (thread_ttls w)\<rparr>)"
  using assms world_inv_parts(4,5)[OF assms(1)]
  by (intro inv_thread_ttls ttls_valid_update) (auto simp: state_ok_def set_dkeys_update)

lemma sweep_batch_exact:
  assumes base: "base_delete_ok E"
  shows "world_inv w \<Longrightarrow> sweepable xs w \<Longrightarrow>
    \<exists>w'. sweep_batch E xs n w = (Inr (fst n + length xs, snd n + length (filter deletes xs)), w') \<and>
      world_inv w' \<and> rows_without (doomed xs) w w'"
proof (induction xs arbitrary: n w)
  case Nil
  then show ?case by (simp add: rows_without_def)
next
  case (Cons x xs)
  have x: "ex_id x \<in> t_id ` set (threads w)" "state_ok (ex_state x)"
    using Cons.prems(2) by (auto simp: sweepable_def)
  show ?case
  proof (cases "deletes x")
    case True
    let ?w1 = "delete_thread_rows E (ex_id x) w"
    have w1: "world_inv ?w1" "rows_without {ex_id x} w ?w1"
      using Cons.prems(1) by (auto intro: delete_thread_rows_inv[OF base] delete_rows_without)
    have "sweepable xs ?w1" using sweepable_rows[of "[x]" xs w ?w1] Cons.prems(2) w1(2) True by simp
    from Cons.IH[OF w1(1) this, of "(fst n + 1, snd n + 1)"] True w1(2) show ?thesis
      using sweep_delete[OF Cons.prems(1) x(1), of E] rows_without_trans[OF w1(2)]
      by (auto simp: deletes_def)
  next
    case False
    let ?w1 = "w\<lparr>thread_ttls := AList.update (ex_id x) ((ex_state x)\<lparr>last_swept := Some (ex_updated x)\<rparr>) (thread_ttls w)\<rparr>"
    have w1: "world_inv ?w1" "rows_without {} w ?w1"
      using keep_inv[OF Cons.prems(1) x(2,1)] by (simp_all add: rows_without_def)
    have "sweepable xs ?w1" using sweepable_rows[of "[x]" xs w ?w1] Cons.prems(2) w1(2) False by simp
    from Cons.IH[OF w1(1) this, of "(fst n + 1, snd n)"] False w1(2) show ?thesis
      using rows_without_trans[OF w1(2)] by (auto simp: deletes_def)
  qed
qed

lemma prune_batches_rows: "prune_batches E bs w = Some w' \<Longrightarrow> rows_without {} w w'"
  by (induction bs arbitrary: w) (fastforce simp: rows_without_def split: option.splits)+

lemma prune_step:
  assumes "base_delete_ok E" and "world_inv w" and "(if c then Some w else prune_batches E bs w) = Some w1"
  shows "world_inv w1 \<and> rows_without {} w w1"
  using assms prune_batches_inv[OF assms(1,2)] prune_batches_rows
  by (cases c) (auto simp: rows_without_empty)

lemma sweep_batches_exact:
  assumes base: "base_delete_ok E"
  shows "world_inv w \<Longrightarrow> sweepable (concat bs) w \<Longrightarrow> sweep_batches E bs n w = Some (res, w') \<Longrightarrow>
    res = Inr (fst n + length (concat bs), snd n + length (filter deletes (concat bs))) \<and>
    world_inv w' \<and> rows_without (doomed (concat bs)) w w'"
proof (induction bs arbitrary: n w)
  case Nil
  then show ?case by (simp add: rows_without_def)
next
  case (Cons b bs)
  let ?keep = "map ex_id (filter (\<lambda>x. ttl_strategy (ex_policy x) = ''keep_latest'') b)"
  from Cons.prems(3) obtain w1 where w1: "(if ?keep = [] then Some w else prune_batches E [?keep] w) = Some w1"
    by (auto simp: Let_def split: option.splits)
  have i1: "world_inv w1" and r1: "rows_without {} w w1"
    using prune_step[OF base Cons.prems(1) w1] by simp_all
  have s1: "sweepable (b @ concat bs) w1" using sweepable_rows[of "[]" _ w w1] Cons.prems(2) r1 by simp
  then have "sweepable b w1" by (auto simp: sweepable_def)
  from sweep_batch_exact[OF base i1 this, of n] obtain w2 where
    b: "sweep_batch E b n w1 = (Inr (fst n + length b, snd n + length (filter deletes b)), w2)"
      "world_inv w2" "rows_without (doomed b) w1 w2" by blast
  have s2: "sweepable (concat bs) w2" by (rule sweepable_rows[OF s1 b(3)])
  have "sweep_batches E bs (fst n + length b, snd n + length (filter deletes b)) w2 = Some (res, w')"
    using Cons.prems(3) b(1) unfolding sweep_batches.simps Let_def w1 by simp
  from Cons.IH[OF b(2) s2 this] rows_without_trans[OF r1 b(3)] show ?case
    by (auto intro: rows_without_trans)
qed

section \<open>Which threads are swept\<close>

definition due :: "api_config \<Rightarrow> time \<Rightarrow> world \<Rightarrow> thread \<Rightarrow> expired_thread \<Rightarrow> bool" where
  "due cfg now w t x \<longleftrightarrow>
     \<not> has_active_runs (t_id t) w \<and> ex_id x = t_id t \<and> ex_updated x = t_updated t \<and>
     effective_thread_ttl (thread_ttl cfg) (thread_ttls w) (t_id t) = Inr (Some (ex_policy x), ex_state x) \<and>
     plus_minutes (t_updated t) (ttl_minutes (ex_policy x)) = Inr (ex_at x) \<and> ex_at x \<le> now \<and>
     (deletes x \<or> \<not> (ttl_strategy (ex_policy x) = ''keep_latest'' \<and> already_swept (t_updated t) (ex_state x)))"

lemma expired_entry_due: "expired_entry cfg now w t = Inr (Some x) \<Longrightarrow> due cfg now w t x"
  by (auto simp: expired_entry_def due_def res_simps split: if_splits option.splits)

lemma effective_state_ok:
  assumes "ttls_valid ttls" and "effective_thread_ttl g ttls tid = Inr (c, st)"
  shows "state_ok st"
proof -
  have "state_ok (dget_default ttls tid empty_ttl_state)"
    using assms(1) by (force simp: ttls_valid_def state_ok_def dget_default_def empty_ttl_state_def
        dest: map_of_SomeD split: option.splits)
  moreover have "st = dget_default ttls tid empty_ttl_state"
    using assms(2) by (auto simp: effective_thread_ttl_def Let_def res_simps split: option.splits)
  ultimately show ?thesis by simp
qed

definition found_entry :: "(thread \<Rightarrow> expired_thread option res) \<Rightarrow> thread \<Rightarrow> bool" where
  "found_entry f t \<longleftrightarrow> (case f t of Inr (Some _) \<Rightarrow> True | _ \<Rightarrow> False)"

lemma collect_expired_Inr:
  "collect_expired f ts = Inr xs \<Longrightarrow>
   (\<forall>t\<in>set ts. \<exists>r. f t = Inr r) \<and> set xs = {x. \<exists>t\<in>set ts. f t = Inr (Some x)} \<and>
   ((\<forall>t\<in>set ts. \<forall>x. f t = Inr (Some x) \<longrightarrow> ex_id x = t_id t) \<longrightarrow>
    map ex_id xs = map t_id (filter (found_entry f) ts))"
proof (induction ts arbitrary: xs)
  case Nil
  then show ?case by auto
next
  case (Cons t ts)
  then obtain r ys where r: "f t = Inr r" and ys: "collect_expired f ts = Inr ys"
    and xs: "xs = (case r of None \<Rightarrow> ys | Some e \<Rightarrow> e # ys)"
    by (auto simp: res_simps)
  from Cons.IH[OF ys] r xs show ?case by (cases r) (auto simp: found_entry_def)
qed

lemma expired_threads_Inr:
  assumes "expired_threads cfg now limit w = Inr xs"
  shows "\<exists>ys. collect_expired (expired_entry cfg now w) (threads w) = Inr ys \<and>
    xs = (case effective_limit cfg limit of None \<Rightarrow> sort_key (\<lambda>x. (ex_at x, ex_id x)) ys
            | Some n \<Rightarrow> take n (sort_key (\<lambda>x. (ex_at x, ex_id x)) ys))"
  using assms by (auto simp: expired_threads_def res_simps Let_def)

lemma expired_threads_mem:
  assumes "expired_threads cfg now limit w = Inr xs" and "x \<in> set xs"
  shows "\<exists>t\<in>set (threads w). expired_entry cfg now w t = Inr (Some x)"
proof -
  from expired_threads_Inr[OF assms(1)] obtain ys where
    ys: "collect_expired (expired_entry cfg now w) (threads w) = Inr ys" and
    "xs = (case effective_limit cfg limit of None \<Rightarrow> sort_key (\<lambda>x. (ex_at x, ex_id x)) ys
                | Some n \<Rightarrow> take n (sort_key (\<lambda>x. (ex_at x, ex_id x)) ys))" by blast
  then have "set xs \<subseteq> set ys" by (auto split: option.splits dest: in_set_takeD)
  with assms(2) collect_expired_Inr[OF ys] show ?thesis by auto
qed

lemma expired_threads_sweepable:
  assumes inv: "world_inv w" and xs: "expired_threads cfg now limit w = Inr xs"
  shows "sweepable xs w"
proof -
  from expired_threads_Inr[OF xs] obtain ys where
    ys: "collect_expired (expired_entry cfg now w) (threads w) = Inr ys" and
    sub: "xs = (case effective_limit cfg limit of None \<Rightarrow> sort_key (\<lambda>x. (ex_at x, ex_id x)) ys
                | Some n \<Rightarrow> take n (sort_key (\<lambda>x. (ex_at x, ex_id x)) ys))" by blast
  have "map ex_id ys = map t_id (filter (found_entry (expired_entry cfg now w)) (threads w))"
    using collect_expired_Inr[OF ys] expired_entry_due by (force simp: due_def)
  then have "distinct (map ex_id ys)" using world_inv_parts(1)[OF inv] by (simp add: distinct_map_filter)
  then have "distinct (map ex_id (sort_key (\<lambda>x. (ex_at x, ex_id x)) ys))"
    by (simp add: distinct_map)
  then have "distinct (map ex_id xs)"
    by (auto simp: sub take_map[symmetric] split: option.split)
  moreover have "\<forall>x\<in>set xs. ex_id x \<in> t_id ` set (threads w) \<and> state_ok (ex_state x)"
    using expired_threads_mem[OF xs] effective_state_ok[OF world_inv_parts(4)[OF inv]]
    by (force simp: due_def dest!: expired_entry_due)
  ultimately show ?thesis by (auto simp: sweepable_def)
qed

lemma sweep_exact:
  assumes base: "base_delete_ok E" and inv: "world_inv w"
    and ret: "threads_sweep_ttl E cfg now limit batch_size w = Some (res, w')"
  shows "world_inv w' \<and>
    (case res of
       Inl e \<Rightarrow> w' = w \<and> expired_threads cfg now limit w = Inl e
     | Inr (processed, deleted, stats) \<Rightarrow>
         (\<exists>xs. (xs = [] \<and> w' = w \<or> expired_threads cfg now limit w = Inr xs) \<and> processed = length xs \<and>
            deleted = length (filter deletes xs) \<and> rows_without (doomed xs) w w' \<and>
            deleted_size stats = freed (thread_bytes (sizes (ckpt_saver w))) (thread_bytes (sizes (ckpt_saver w')))
              (remdups (map ex_id xs)) \<and>
            deleted_items stats = freed (thread_checkpoints (sizes (ckpt_saver w)))
              (thread_checkpoints (sizes (ckpt_saver w'))) (remdups (map ex_id xs)) \<and>
            total_before stats = ss_total_bytes (sizes (ckpt_saver w))))"
proof (cases "case limit of None \<Rightarrow> False | Some n \<Rightarrow> n \<le> 0")
  case True
  with ret inv show ?thesis
    by (auto simp: threads_sweep_ttl_def Let_def rows_without_def freed_def intro!: exI[of _ "[]"])
next
  case False
  note ret = ret[unfolded threads_sweep_ttl_def Let_def, simplified False if_False]
  show ?thesis
  proof (cases "expired_threads cfg now limit w")
    case (Inl e)
    with ret inv show ?thesis by auto
  next
    case (Inr xs)
    have "sweepable (concat (chunks batch_size xs)) w"
      using expired_threads_sweepable[OF inv Inr] by (simp add: concat_chunks)
    note exact = sweep_batches_exact[OF base inv this, of "(0, 0)", unfolded concat_chunks]
    from ret Inr obtain r1 w1 where sw: "sweep_batches E (chunks batch_size xs) (0, 0) w = Some (r1, w1)"
      by (auto split: option.splits)
    from exact[OF sw] ret Inr sw show ?thesis by auto
  qed
qed

section \<open>Properties\<close>

lemma active_run_has: "r \<in> set (runs w) \<Longrightarrow> is_active (r_status r) \<Longrightarrow> has_active_runs (r_thread r) w"
  by (auto simp: has_active_runs_def list_ex_iff)

lemma doomed_due:
  assumes "expired_threads cfg now limit w = Inr xs" and "tid \<in> doomed xs"
  shows "\<exists>t\<in>set (threads w). \<exists>x. t_id t = tid \<and> deletes x \<and> due cfg now w t x"
  using expired_threads_mem[OF assms(1)] assms(2)
  by (fastforce simp: doomed_def due_def dest!: expired_entry_due)

lemma sweep_rows:
  assumes "base_delete_ok E" and "world_inv w"
    and "threads_sweep_ttl E cfg now limit batch_size w = Some (res, w')"
  shows "\<exists>D. rows_without D w w' \<and>
    (\<forall>tid\<in>D. \<exists>t\<in>set (threads w). \<exists>x. t_id t = tid \<and> deletes x \<and> due cfg now w t x)"
proof (cases res)
  case (Inl e)
  then show ?thesis using sweep_exact[OF assms] by (intro exI[of _ "{}"]) (simp add: rows_without_empty)
next
  case (Inr r)
  obtain processed deleted stats where r: "r = (processed, deleted, stats)" by (cases r)
  from sweep_exact[OF assms] Inr r obtain xs where
    xs: "xs = [] \<and> w' = w \<or> expired_threads cfg now limit w = Inr xs" "rows_without (doomed xs) w w'" by auto
  with doomed_due show ?thesis by (intro exI[of _ "doomed xs"]) auto
qed

text \<open>
  C10. The sweep spares what is active or not due. However the sweep ends, every pending or running
  run is still stored, and a thread is gone only if it had no such run, its effective policy is to
  delete, and its last update plus its time to live had passed.
\<close>

theorem sweep_spares_active_and_fresh:
  assumes "base_delete_ok E" and "world_inv w"
    and "threads_sweep_ttl E cfg now limit batch_size w = Some (res, w')"
  shows "(\<forall>r\<in>set (runs w). is_active (r_status r) \<longrightarrow> r \<in> set (runs w')) \<and>
    (\<forall>t\<in>set (threads w). t \<in> set (threads w') \<or>
       (\<not> has_active_runs (t_id t) w \<and>
        (\<exists>p st expiry. effective_thread_ttl (thread_ttl cfg) (thread_ttls w) (t_id t) = Inr (Some p, st) \<and>
           ttl_strategy p = ''delete'' \<and> plus_minutes (t_updated t) (ttl_minutes p) = Inr expiry \<and> expiry \<le> now)))"
proof -
  obtain D where D: "rows_without D w w'"
    "\<forall>tid\<in>D. \<exists>t\<in>set (threads w). \<exists>x. t_id t = tid \<and> deletes x \<and> due cfg now w t x"
    using sweep_rows[OF assms] by blast
  have same: "t' = t" if "t \<in> set (threads w)" "t' \<in> set (threads w)" "t_id t' = t_id t" for t t'
    using that world_inv_parts(1)[OF assms(2)] by (auto simp: distinct_map inj_on_def)
  have "r \<in> set (runs w')" if "r \<in> set (runs w)" "is_active (r_status r)" for r
    using that D active_run_has[of r w] by (fastforce simp: rows_without_def due_def)
  moreover have "t \<in> set (threads w')" if "t \<in> set (threads w)" "t_id t \<notin> D" for t
    using that D(1) by (simp add: rows_without_def)
  moreover have "\<not> has_active_runs (t_id t) w \<and>
        (\<exists>p st expiry. effective_thread_ttl (thread_ttl cfg) (thread_ttls w) (t_id t) = Inr (Some p, st) \<and>
           ttl_strategy p = ''delete'' \<and> plus_minutes (t_updated t) (ttl_minutes p) = Inr expiry \<and> expiry \<le> now)"
    if t: "t \<in> set (threads w)" "t_id t \<in> D" for t
  proof -
    from D(2) t(2) obtain t' x where "t' \<in> set (threads w)" "t_id t' = t_id t" "deletes x" "due cfg now w t' x"
      by blast
    with same[OF t(1)] show ?thesis by (auto simp: due_def deletes_def)
  qed
  ultimately show ?thesis by blast
qed

definition demo_cfg :: api_config where
  "demo_cfg = \<lparr>thread_ttl = None, sweep_limit = Some 10000\<rparr>"

definition demo_ttl_world :: world where
  "demo_ttl_world = world_init
     \<lparr>threads := [demo_thread ''t'' ''idle'', demo_thread ''v'' ''idle''],
      thread_ttls := [(''t'', \<lparr>override = Some \<lparr>ttl_strategy = ''delete'', ttl_minutes = Finite 1\<rparr>,
                             last_swept = None\<rparr>)]\<rparr>"

lemma demo_ttl_world_inv: "world_inv demo_ttl_world"
  using world_inv_init unfolding demo_ttl_world_def
  by (simp add: world_inv_def rows_ok_def world_init_def demo_thread_def ttls_valid_def valid_policy_def
      is_negative_def)

lemma demo_delete_ok: "base_delete_ok demo_env"
  using demo_env_ok by (simp add: base_saver_ok_def)

lemma demo_sweep:
  "\<exists>w'. threads_sweep_ttl demo_env demo_cfg 60000005 None 100 demo_ttl_world =
      Some (Inr (1, 1, \<lparr>deleted_items = 0, deleted_size = 0, total_before = 0\<rparr>), w') \<and>
    map t_id (threads w') = [''v'']"
proof -
  let ?r = "threads_sweep_ttl demo_env demo_cfg 60000005 None 100 demo_ttl_world"
  have "map_option (\<lambda>(r, w'). (r, map t_id (threads w'))) ?r =
      Some (Inr (1, 1, \<lparr>deleted_items = 0, deleted_size = 0, total_before = 0\<rparr>), [''v''])"
    by code_simp
  then show ?thesis by (cases ?r) auto
qed

theorem sweep_spares_active_and_fresh_witness:
  "\<exists>w' :: world. map t_id (threads w') = [''v''] \<and>
     (\<forall>t\<in>set (threads demo_ttl_world). t \<in> set (threads w') \<or> \<not> has_active_runs (t_id t) demo_ttl_world)"
proof -
  obtain res w' where sw: "threads_sweep_ttl demo_env demo_cfg 60000005 None 100 demo_ttl_world = Some (res, w')"
    and ids: "map t_id (threads w') = [''v'']"
    using demo_sweep by metis
  have "t \<in> set (threads w') \<or> \<not> has_active_runs (t_id t) demo_ttl_world" if "t \<in> set (threads demo_ttl_world)" for t
    using sweep_spares_active_and_fresh[OF demo_delete_ok demo_ttl_world_inv sw] that by fast
  with ids show ?thesis by (intro exI[of _ w']) simp
qed

lemma freed_nonneg: "0 \<le> freed before after tids"
  unfolding freed_def by (rule sum_list_nonneg) auto

lemma freed_le:
  "(\<And>tid. 0 \<le> after tid) \<Longrightarrow> (\<And>tid. 0 \<le> before tid) \<Longrightarrow> freed before after tids \<le> (\<Sum>tid\<leftarrow>tids. before tid)"
  unfolding freed_def by (rule sum_list_mono) (simp add: max_def)

text \<open>
  C33. The sweep's accounting is bounded. The number of deleted threads is at most the number of
  processed ones, which is at most the limit; the bytes and checkpoints reported as deleted are not
  negative, and the bytes are at most the total reported before the sweep.
\<close>

theorem sweep_accounting:
  assumes "base_delete_ok E" and "world_inv w"
    and "threads_sweep_ttl E cfg now limit batch_size w = Some (Inr (processed, deleted, stats), w')"
  shows "deleted \<le> processed \<and> (\<forall>n. effective_limit cfg limit = Some n \<longrightarrow> processed \<le> n) \<and>
    0 \<le> deleted_items stats \<and> 0 \<le> deleted_size stats \<and> deleted_size stats \<le> total_before stats"
proof -
  let ?before = "sizes (ckpt_saver w)" and ?after = "sizes (ckpt_saver w')"
  from sweep_exact[OF assms] obtain xs where inv: "world_inv w'"
    and xs: "xs = [] \<and> w' = w \<or> expired_threads cfg now limit w = Inr xs"
    and n: "processed = length xs" "deleted = length (filter deletes xs)"
    and stats: "deleted_size stats = freed (thread_bytes ?before) (thread_bytes ?after) (remdups (map ex_id xs))"
      "deleted_items stats = freed (thread_checkpoints ?before) (thread_checkpoints ?after) (remdups (map ex_id xs))"
      "total_before stats = ss_total_bytes ?before"
    by auto
  have ss: "size_state_inv ?before" "size_state_inv ?after"
    using world_inv_parts(6)[OF assms(2)] world_inv_parts(6)[OF inv] by (simp_all add: saver_inv_def)
  have "deleted_size stats \<le> (\<Sum>tid\<leftarrow>remdups (map ex_id xs). thread_bytes ?before tid)"
    unfolding stats using thread_entry_nonneg ss by (intro freed_le) auto
  also have "\<dots> \<le> total_before stats"
    unfolding stats by (rule ckpt.removed_le_total[OF ss(1)]) simp
  finally have "deleted_size stats \<le> total_before stats" .
  moreover have "processed \<le> k" if "effective_limit cfg limit = Some k" for k
    using xs that expired_threads_Inr[of cfg now limit w xs] n by auto
  ultimately show ?thesis using n by (simp add: stats freed_nonneg)
qed

theorem sweep_accounting_witness:
  "\<exists>w'. threads_sweep_ttl demo_env demo_cfg 60000005 None 100 demo_ttl_world =
      Some (Inr (1, 1, \<lparr>deleted_items = 0, deleted_size = 0, total_before = 0\<rparr>), w') \<and> (1::nat) \<le> 10000"
proof -
  obtain w' where sw: "threads_sweep_ttl demo_env demo_cfg 60000005 None 100 demo_ttl_world =
      Some (Inr (1, 1, \<lparr>deleted_items = 0, deleted_size = 0, total_before = 0\<rparr>), w')"
    using demo_sweep by metis
  have lim: "effective_limit demo_cfg None = Some 10000" by (simp add: effective_limit_def demo_cfg_def)
  from sweep_accounting[OF demo_delete_ok demo_ttl_world_inv sw] sw lim show ?thesis by blast
qed

text \<open>
  The sweep takes the oldest first. The threads it takes are expired ones, ordered by expiry
  and then by id; an expired thread is passed over only when the limit was reached with threads that
  are not later in this order.
\<close>

theorem sweep_oldest_first:
  assumes "expired_threads cfg now limit w = Inr xs"
  shows "sorted (map (\<lambda>x. (ex_at x, ex_id x)) xs) \<and>
    (\<forall>x\<in>set xs. \<exists>t\<in>set (threads w). expired_entry cfg now w t = Inr (Some x)) \<and>
    (\<forall>t\<in>set (threads w). \<forall>y. expired_entry cfg now w t = Inr (Some y) \<longrightarrow> y \<in> set xs \<or>
       (effective_limit cfg limit = Some (length xs) \<and>
        (\<forall>x\<in>set xs. (ex_at x, ex_id x) \<le> (ex_at y, ex_id y))))"
proof -
  let ?key = "\<lambda>x. (ex_at x, ex_id x)"
  from expired_threads_Inr[OF assms] obtain ys where
    ys: "collect_expired (expired_entry cfg now w) (threads w) = Inr ys" and
    xs: "xs = (case effective_limit cfg limit of None \<Rightarrow> sort_key ?key ys | Some n \<Rightarrow> take n (sort_key ?key ys))"
    by blast
  have mem: "y \<in> set (sort_key ?key ys)" if "t \<in> set (threads w)" "expired_entry cfg now w t = Inr (Some y)" for t y
    using collect_expired_Inr[OF ys] that by auto
  obtain rest where rest: "xs @ rest = sort_key ?key ys"
    "rest = [] \<or> effective_limit cfg limit = Some (length xs)"
  proof (cases "effective_limit cfg limit")
    case None
    with xs that[of "[]"] show ?thesis by simp
  next
    case (Some n)
    with xs that[of "drop n (sort_key ?key ys)"] show ?thesis by (auto simp: min_def split: if_splits)
  qed
  have "sorted (map ?key (xs @ rest))" unfolding rest by simp
  then have sorted: "sorted (map ?key xs)" "\<forall>x\<in>set xs. \<forall>y\<in>set rest. ?key x \<le> ?key y"
    unfolding map_append sorted_append by auto
  have "y \<in> set xs \<or> effective_limit cfg limit = Some (length xs) \<and> (\<forall>x\<in>set xs. ?key x \<le> ?key y)"
    if "t \<in> set (threads w)" "expired_entry cfg now w t = Inr (Some y)" for t y
    using mem[OF that] sorted(2) rest(2) unfolding rest(1)[symmetric] by auto
  with sorted(1) expired_threads_mem[OF assms] show ?thesis by blast
qed

theorem sweep_oldest_first_witness:
  "\<exists>xs. expired_threads demo_cfg 60000005 None demo_ttl_world = Inr xs \<and> map ex_id xs = [''t''] \<and>
     sorted (map (\<lambda>x. (ex_at x, ex_id x)) xs)"
proof -
  have "bind_res (expired_threads demo_cfg 60000005 None demo_ttl_world) (\<lambda>xs. Inr (map ex_id xs)) = Inr [''t'']"
    by code_simp
  then obtain xs where xs: "expired_threads demo_cfg 60000005 None demo_ttl_world = Inr xs" "map ex_id xs = [''t'']"
    by (auto simp: res_simps)
  from sweep_oldest_first[OF xs(1)] have "sorted (map (\<lambda>x. (ex_at x, ex_id x)) xs)" by (rule conjunct1)
  with xs show ?thesis by auto
qed

section \<open>The sweep returns\<close>

lemma prune_threads_acyclic:
  "saver_acyclic s \<Longrightarrow> prune_threads E tids s = Some s' \<Longrightarrow> saver_acyclic s'"
  by (induction tids arbitrary: s) (auto split: option.splits intro: prune_thread_acyclic)

lemma prune_batches_returns:
  "saver_acyclic (ckpt_saver w) \<Longrightarrow> \<exists>w'. prune_batches E bs w = Some w' \<and> saver_acyclic (ckpt_saver w')"
proof (induction bs arbitrary: w)
  case Nil
  then show ?case by simp
next
  case (Cons b bs)
  obtain s where s: "prune_threads E b (ckpt_saver w) = Some s"
    using prune_threads_returns[OF Cons.prems] by blast
  have "saver_acyclic (ckpt_saver (w\<lparr>ckpt_saver := s\<rparr>))" using prune_threads_acyclic[OF Cons.prems s] by simp
  from Cons.IH[OF this] s show ?case by (simp add: saver_prune_def)
qed

lemma delete_thread_acyclic:
  assumes "base_delete_ok E" and "saver_acyclic s"
  shows "saver_acyclic (saver_delete_thread E tid s)"
  using assms
  by (auto simp: saver_acyclic_def saver_delete_thread_def base_delete_ok_def drop_thread_def Let_def
      dest!: set_delete_mem)

lemma sweep_batch_acyclic:
  assumes base: "base_delete_ok E"
  shows "saver_acyclic (ckpt_saver w) \<Longrightarrow> saver_acyclic (ckpt_saver (snd (sweep_batch E xs n w)))"
proof (induction xs arbitrary: n w)
  case Nil
  then show ?case by simp
next
  case (Cons x xs)
  obtain r w1 where d: "threads_delete E no_auth (ex_id x) w = (r, w1)" by fastforce
  then have "w1 = w \<or> w1 = delete_thread_rows E (ex_id x) w"
    by (auto simp: threads_delete_def no_auth_def split: option.splits)
  then have "saver_acyclic (ckpt_saver w1)"
    using Cons.prems delete_thread_acyclic[OF base] by (auto simp: delete_thread_rows_def)
  with Cons d show ?case by (cases r) auto
qed

lemma sweep_batches_returns:
  assumes base: "base_delete_ok E"
  shows "saver_acyclic (ckpt_saver w) \<Longrightarrow> \<exists>r. sweep_batches E bs n w = Some r"
proof (induction bs arbitrary: n w)
  case Nil
  then show ?case by simp
next
  case (Cons b bs)
  let ?keep = "map ex_id (filter (\<lambda>x. ttl_strategy (ex_policy x) = ''keep_latest'') b)"
  obtain w1 where w1: "(if ?keep = [] then Some w else prune_batches E [?keep] w) = Some w1"
    "saver_acyclic (ckpt_saver w1)"
    using prune_batches_returns[OF Cons.prems, of E "[?keep]"] Cons.prems by metis
  obtain r w2 where b: "sweep_batch E b n w1 = (r, w2)" by fastforce
  then have "saver_acyclic (ckpt_saver w2)" using sweep_batch_acyclic[OF base w1(2), of b n] by simp
  with b Cons.IH show ?case unfolding sweep_batches.simps Let_def w1(1) by (cases r) auto
qed

text \<open>
  C22. The sweep returns. When every stored checkpoint has a smaller id than its children, a sweep
  ends, with its counts or with the exception of a TTL it cannot add to a time; in the latter case
  nothing has changed.
\<close>

theorem sweep_returns:
  assumes "base_delete_ok E" and "world_inv w" and "saver_acyclic (ckpt_saver w)"
  shows "\<exists>res w'. threads_sweep_ttl E cfg now limit batch_size w = Some (res, w') \<and>
    ((\<exists>e. res = Inl e) \<longrightarrow> w' = w)"
proof -
  have "\<exists>r. threads_sweep_ttl E cfg now limit batch_size w = Some r"
  proof (cases "expired_threads cfg now limit w")
    case (Inl e)
    then show ?thesis by (simp add: threads_sweep_ttl_def Let_def)
  next
    case (Inr xs)
    obtain r w1 where sw: "sweep_batches E (chunks batch_size xs) (0, 0) w = Some (r, w1)"
      using sweep_batches_returns[OF assms(1,3)] by fast
    with Inr show ?thesis by (cases r) (auto simp: threads_sweep_ttl_def Let_def)
  qed
  then obtain res w' where r: "threads_sweep_ttl E cfg now limit batch_size w = Some (res, w')" by auto
  with sweep_exact[OF assms(1,2) r] show ?thesis by (cases res) auto
qed

theorem sweep_returns_witness:
  "\<exists>res w'. threads_sweep_ttl demo_env demo_cfg 60000005 None 100 demo_ttl_world = Some (res, w')"
proof -
  have "saver_acyclic (ckpt_saver demo_ttl_world)" by code_simp
  from sweep_returns[OF demo_delete_ok demo_ttl_world_inv this] show ?thesis by blast
qed

lemma collect_expired_Inl:
  assumes "collect_expired f ts = Inr xs" and "t \<in> set ts"
  shows "\<exists>r. f t = Inr r"
  using collect_expired_Inr[OF assms(1)] assms(2) by blast

text \<open>
  One unrepresentable TTL stops every sweep. When a thread without active runs has an override
  whose minutes are infinite or not a number (validation accepts the texts \<open>inf\<close> and \<open>nan\<close>), every
  sweep raises and nothing at all is swept.
\<close>

theorem sweep_stopped_by_infinite_ttl:
  assumes "t \<in> set (threads w)" and "\<not> has_active_runs (t_id t) w"
    and "map_of (thread_ttls w) (t_id t) = Some st" and "override st = Some p"
    and "ttl_minutes p = Not_a_Number \<or> (\<exists>neg. ttl_minutes p = Infinity neg)"
    and "last_swept st = None" and "case limit of None \<Rightarrow> True | Some n \<Rightarrow> 0 < n"
  shows "\<exists>e. threads_sweep_ttl E cfg now limit batch_size w = Some (Inl e, w)"
proof -
  have "effective_thread_ttl (thread_ttl cfg) (thread_ttls w) (t_id t) = Inr (Some p, st)"
    using assms(3,4) by (simp add: effective_thread_ttl_def Let_def dget_default_def)
  moreover have "\<exists>e. plus_minutes (t_updated t) (ttl_minutes p) = Inl e"
    using assms(5) by (auto simp: plus_minutes_def)
  ultimately have "\<exists>e. expired_entry cfg now w t = Inl e"
    using assms(2,6) by (auto simp: expired_entry_def already_swept_def)
  then have "\<nexists>xs. collect_expired (expired_entry cfg now w) (threads w) = Inr xs"
    using collect_expired_Inl[OF _ assms(1)] by (metis Inl_Inr_False)
  then obtain e where "expired_threads cfg now limit w = Inl e"
    by (cases "collect_expired (expired_entry cfg now w) (threads w)") (auto simp: expired_threads_def)
  moreover have "\<not> (case limit of None \<Rightarrow> False | Some n \<Rightarrow> n \<le> 0)"
    using assms(7) by (auto split: option.splits)
  ultimately show ?thesis by (simp add: threads_sweep_ttl_def Let_def)
qed

definition nan_world :: world where
  "nan_world = demo_ttl_world
     \<lparr>thread_ttls := snd (set_thread_ttl_override ''v'' [(''ttl'', PStr ''nan'')] (thread_ttls demo_ttl_world))\<rparr>"

theorem sweep_stopped_by_infinite_ttl_witness:
  "\<exists>e. threads_sweep_ttl demo_env demo_cfg 60000005 None 100 nan_world = Some (Inl e, nan_world)"
proof -
  have "map_of (thread_ttls nan_world) ''v'' =
      Some \<lparr>override = Some \<lparr>ttl_strategy = ''delete'', ttl_minutes = Not_a_Number\<rparr>, last_swept = None\<rparr>"
    by code_simp
  moreover have "demo_thread ''v'' ''idle'' \<in> set (threads nan_world)" "\<not> has_active_runs ''v'' nan_world"
    by (simp_all add: nan_world_def demo_ttl_world_def has_active_runs_def world_init_def)
  moreover have "t_id (demo_thread ''v'' ''idle'') = ''v''" by (simp add: demo_thread_def)
  ultimately show ?thesis
    using sweep_stopped_by_infinite_ttl[of "demo_thread ''v'' ''idle''" nan_world
        "\<lparr>override = Some \<lparr>ttl_strategy = ''delete'', ttl_minutes = Not_a_Number\<rparr>, last_swept = None\<rparr>"
        "\<lparr>ttl_strategy = ''delete'', ttl_minutes = Not_a_Number\<rparr>" None]
    by simp
qed

end
