(* ===== verification/Thread_Results.thy ===== *)
theory Thread_Results
  imports Thread_Sweep
begin

text \<open>
  What the operations on threads do: the pages of a search and the count describe one sorted list of
  matches, deletion cascades to everything stored under a thread and nothing else, the joint status
  update leaves a thread busy exactly when it has active runs, and the error paths of creation and
  search.
\<close>

section \<open>Search\<close>

lemma default_state_updated_fields [simp]:
  "t_metadata (default_state_updated t) = t_metadata t" "t_values (default_state_updated t) = t_values t"
  "t_status (default_state_updated t) = t_status t" "t_updated (default_state_updated t) = t_updated t"
  "t_created (default_state_updated t) = t_created t"
  "default_state_updated (default_state_updated t) = default_state_updated t"
  by (simp_all add: default_state_updated_def split: option.split)

lemma thread_matches_default [simp]:
  "thread_matches filters metadata vals status (default_state_updated t) = thread_matches filters metadata vals status t"
  by (simp only: thread_matches_def values_match_def default_state_updated_fields)

definition touched :: "(thread \<Rightarrow> bool res) \<Rightarrow> thread \<Rightarrow> thread" where
  "touched P t = (if P t = Inr True then default_state_updated t else t)"

lemma collect_threads_spec:
  "(\<exists>us. fst (collect_threads P ts) = Inr us) \<longleftrightarrow> (\<forall>t\<in>set ts. \<exists>b. P t = Inr b)"
  "fst (collect_threads P ts) = Inr us \<Longrightarrow>
     us = map default_state_updated (filter (\<lambda>t. P t = Inr True) ts) \<and> snd (collect_threads P ts) = map (touched P) ts"
proof (induction ts arbitrary: us)
  case Nil
  {
    case 1 show ?case by simp
  next
    case 2 then show ?case by simp
  }
next
  case (Cons t ts)
  {
    case 1
    show ?case using Cons.IH(1) by (cases "P t") (auto simp: case_prod_unfold Let_def res_simps)
  next
    case 2
    then show ?case using Cons.IH(2)
      by (cases "P t") (auto simp: case_prod_unfold Let_def res_simps touched_def)
  }
qed

lemma collect_threads_again:
  assumes stable: "\<And>t. P (default_state_updated t) = P t"
  shows "fst (collect_threads P (map (touched P) ts)) = fst (collect_threads P ts)"
proof (induction ts)
  case Nil
  then show ?case by simp
next
  case (Cons t ts)
  then show ?case
    by (cases "P t") (auto simp: case_prod_unfold Let_def touched_def stable)
qed

lemma filter_res_collect:
  "fst (collect_threads P ts) = Inr us \<Longrightarrow> \<exists>ts'. filter_res P ts = Inr ts' \<and> length ts' = length us"
proof (induction ts arbitrary: us)
  case Nil
  then show ?case by simp
next
  case (Cons t ts)
  then show ?case
    by (cases "P t") (fastforce simp: case_prod_unfold Let_def res_simps)+
qed

text \<open>
  All pages of a search are slices of one list. When a search returns, there is one sorted list
  of the matching threads such that the page is its slice, every further page asked for afterwards
  (any offset and limit) is its slice too, and \<open>count\<close> is its length: following the cursors yields
  every match exactly once.
\<close>

theorem search_pages_partition:
  assumes "fst (threads_search A [] metadata vals status limit offset sort_by sort_order w) = Inr (us, cursor)"
  shows "\<exists>matches. (us, cursor) = page offset limit matches \<and>
    threads_count A metadata vals status w = Inr (length matches) \<and>
    (\<forall>limit' offset'. fst (threads_search A [] metadata vals status limit' offset' sort_by sort_order
        (snd (threads_search A [] metadata vals status limit offset sort_by sort_order w)))
      = Inr (page offset' limit' matches))"
proof -
  from assms obtain filters where A: "A ''threads'' ''search'' None = Inr filters"
    by (auto simp: threads_search_def attempt_def split: sum.splits)
  let ?P = "thread_matches filters metadata vals status"
  from assms A obtain ms where ms: "fst (collect_threads ?P (threads w)) = Inr ms"
    "(us, cursor) = page offset limit (sort_threads sort_by sort_order ms)"
    by (auto simp: threads_search_def case_prod_unfold Let_def res_simps)
  let ?w1 = "snd (threads_search A [] metadata vals status limit offset sort_by sort_order w)"
  have "threads ?w1 = map (touched ?P) (threads w)"
    using A collect_threads_spec(2)[OF ms(1)] by (simp add: threads_search_def case_prod_unfold Let_def)
  then have again: "fst (collect_threads ?P (threads ?w1)) = Inr ms"
    using collect_threads_again[of ?P "threads w"] ms(1) by simp
  have "fst (threads_search A [] metadata vals status l o' sort_by sort_order ?w1) =
      Inr (page o' l (sort_threads sort_by sort_order ms))" for l o'
    using A again by (simp add: threads_search_def[of A "[]" metadata vals status l o'] case_prod_unfold Let_def)
  moreover have "threads_count A metadata vals status w = Inr (length (sort_threads sort_by sort_order ms))"
    using A filter_res_collect[OF ms(1)]
    by (auto simp: threads_count_def sort_threads_def split: option.split)
  ultimately show ?thesis using ms(2) by blast
qed

theorem search_pages_partition_witness:
  "threads_count no_auth [] [] (Some ''busy'') demo_world = Inr 2"
proof -
  let ?s = "threads_search no_auth [] [] [] (Some ''busy'') 10 0 None None demo_world"
  have "bind_res (fst ?s) (\<lambda>(us, c). Inr (map t_id us, c)) = Inr ([''t'', ''u''], None)" by code_simp
  then obtain us c where s: "fst ?s = Inr (us, c)" "length us = 2" "c = None"
    by (auto simp: res_simps)
  from search_pages_partition[OF s(1)] s(2,3) show ?thesis
    by (auto simp: page_def py_slice_def)
qed

text \<open>
  A thread that never ran breaks every search by values. As long as one stored thread holds the
  value \<open>None\<close> it was created with, searching or counting with a \<open>values\<close> filter (and no other
  one) raises.
\<close>

theorem fresh_thread_breaks_values_search:
  assumes "t \<in> set (threads w)" and "t_values t = Some PNone" and "vals \<noteq> []"
  shows "(\<exists>e. fst (threads_search no_auth [] [] vals None limit offset sort_by sort_order w) = Inl e) \<and>
    (\<exists>e. threads_count no_auth [] vals None w = Inl e)"
proof -
  let ?P = "thread_matches PNone [] vals None"
  have "?P t = Inl type_error"
    using assms(2,3) by (simp add: thread_matches_def values_match_def is_jsonb_contained_None)
  then have no: "\<nexists>us. fst (collect_threads ?P (threads w)) = Inr us"
    using collect_threads_spec(1)[of ?P "threads w"] assms(1) by (metis Inl_Inr_False)
  then obtain e where e: "fst (collect_threads ?P (threads w)) = Inl e"
    by (cases "fst (collect_threads ?P (threads w))") auto
  have "\<nexists>ts. filter_res ?P (threads w) = Inr ts"
  proof
    assume "\<exists>ts. filter_res ?P (threads w) = Inr ts"
    moreover have "filter_res ?P ts = Inr us \<Longrightarrow> \<forall>t\<in>set ts. \<exists>b. ?P t = Inr b" for ts us
      by (induction ts arbitrary: us) (auto simp: res_simps)
    ultimately show False using no collect_threads_spec(1)[of ?P "threads w"] by blast
  qed
  then obtain e' where "filter_res ?P (threads w) = Inl e'"
    by (cases "filter_res ?P (threads w)") auto
  with e show ?thesis
    by (simp add: threads_search_def threads_count_def no_auth_def case_prod_unfold Let_def)
qed

theorem fresh_thread_breaks_values_search_witness:
  "\<exists>e. threads_count no_auth [] [(''k'', PInt 1)] None demo_world = Inl e"
proof -
  have "demo_thread ''t'' ''busy'' \<in> set (threads demo_world)" by (simp add: demo_world_def)
  from fresh_thread_breaks_values_search[OF this, of "[(''k'', PInt 1)]"] show ?thesis
    by (simp add: demo_thread_def)
qed

section \<open>Deletion\<close>

text \<open>
  C11. Deleting a thread is complete and touches nothing else. After a successful delete, no row of
  any table, no TTL entry, no checkpoint, write or blob belongs to the thread; every run, cron and
  row of another thread is as before, and the size total drops by exactly the thread's bytes.
\<close>

theorem delete_thread_complete:
  assumes "base_delete_ok E" and "world_inv w" and "threads_delete E A tid w = (Inr d, w')"
  shows "d = tid \<and> tid \<in> t_id ` set (threads w) \<and>
    threads w' = filter (\<lambda>t. t_id t \<noteq> tid) (threads w) \<and> runs w' = filter (\<lambda>r. r_thread r \<noteq> tid) (runs w) \<and>
    crons w' = filter (\<lambda>c. c_thread c \<noteq> Some tid) (crons w) \<and>
    map_of (thread_ttls w') = (map_of (thread_ttls w))(tid := None) \<and>
    (\<forall>t. namespaces_of (ckpt_saver w') t = (if t = tid then [] else namespaces_of (ckpt_saver w) t)) \<and>
    stored_bytes (ckpt_saver w') tid = 0 \<and>
    ss_total_bytes (sizes (ckpt_saver w')) =
      ss_total_bytes (sizes (ckpt_saver w)) - stored_bytes (ckpt_saver w) tid"
proof -
  from assms(3) obtain t where t: "find_thread tid w = Some t" and w': "w' = delete_thread_rows E tid w" "d = t_id t"
    by (auto simp: threads_delete_def attempt_def split: sum.splits option.splits if_splits)
  let ?s = "ckpt_saver w" and ?s' = "ckpt_saver w'"
  have inv: "saver_inv ?s" by (rule world_inv_parts(6)[OF assms(2)])
  have base: "base_delete_thread E tid ?s = drop_thread tid ?s" using assms(1) by (simp add: base_delete_ok_def)
  have s': "?s' = (drop_thread tid ?s)\<lparr>sizes := snd (remove_thread tid (sizes ?s))\<rparr>"
    by (simp add: w' delete_thread_rows_def saver_delete_thread_def base Let_def drop_thread_def)
  have inv': "saver_inv ?s'" using saver_delete_thread_inv[OF assms(1) inv] by (simp add: w' delete_thread_rows_def)
  have entry: "thread_entry (sizes s) u = (stored_bytes s u, storage_count s u)" if "saver_inv s" for s u
    using that by (simp add: saver_inv_def ledger_exact_def)
  have "stored_bytes ?s' tid = 0"
    using entry[OF inv', of tid] by (simp add: s' thread_entry_remove)
  moreover have "ss_total_bytes (sizes ?s') = ss_total_bytes (sizes ?s) - stored_bytes ?s tid"
    using ckpt.total_remove[of "sizes ?s" tid] inv entry[OF inv, of tid]
    by (simp add: s' saver_inv_def thread_bytes_def)
  moreover have "namespaces_of ?s' u = (if u = tid then [] else namespaces_of ?s u)" for u
    by (simp add: s' drop_thread_def namespaces_of_def dget_default_def dict_simps)
  ultimately show ?thesis
    using find_thread_id[OF t] world_inv_parts(1)[OF assms(2)]
    by (simp add: w' delete_thread_rows_def delete_first_filter dict_simps)
qed

theorem delete_thread_complete_witness:
  "threads (snd (threads_delete demo_env no_auth ''t'' demo_ttl_world)) = [demo_thread ''v'' ''idle''] \<and>
   thread_ttls (snd (threads_delete demo_env no_auth ''t'' demo_ttl_world)) = []"
proof -
  have t: "''t'' \<in> t_id ` set (threads demo_ttl_world)" by (simp add: demo_ttl_world_def demo_thread_def)
  note d = sweep_delete[OF demo_ttl_world_inv t, of demo_env]
  note all = delete_thread_complete[OF demo_delete_ok demo_ttl_world_inv d]
  have "filter (\<lambda>t. t_id t \<noteq> ''t'') (threads demo_ttl_world) = [demo_thread ''v'' ''idle'']"
    by (simp add: demo_ttl_world_def demo_thread_def)
  moreover have "(map_of (thread_ttls demo_ttl_world))(''t'' := None) = Map.empty"
    by (simp add: demo_ttl_world_def)
  ultimately show ?thesis unfolding d snd_conv using all by simp
qed

section \<open>Status\<close>

lemma status_update_status [simp]: "t_status (status_update patch now status checkpoint exn t) = status"
  by (simp add: status_update_def)

lemma joint_update_status [simp]: "t_status (joint_update patch now g status checkpoint exn t) = status"
  by (simp add: joint_update_def)

lemma update_first_hit: "find P xs = Some x \<Longrightarrow> f x \<in> set (update_first P f xs)"
  by (induction xs) (auto split: if_splits)

lemma find_thread_update:
  "(\<And>t. t_id (f t) = t_id t) \<Longrightarrow> find_thread tid w = Some t \<Longrightarrow> find_thread tid (update_thread tid f w) = Some (f t)"
  by (simp add: thread_table.lookup_update)

lemma find_thread_saver [simp]:
  "find_thread tid (w\<lparr>ckpt_saver := s\<rparr>) = find_thread tid w" "find_thread tid (w\<lparr>runs := rs\<rparr>) = find_thread tid w"
  by (simp_all add: find_thread_def)

lemma runs_delete_no_auth:
  "find_thread tid (snd (runs_delete E no_auth rid tid w)) = find_thread tid w"
  by (simp add: runs_delete_def no_auth_def delete_run_row_def Let_def)

text \<open>
  C32. After the joint status update a thread is busy exactly when it has active runs. The update
  that ends a run stores the run's new status (or deletes it on rollback) and leaves its thread busy
  if a pending or running run remains on it, and otherwise with the status that follows from the
  checkpoint and the exception.
\<close>

theorem joint_status_reflects_runs:
  assumes "threads_set_joint_status E no_auth patch now tid rid run_status graph_id checkpoint exn w = (Inr u, w')"
  shows "\<exists>t. find_thread tid w' = Some t \<and>
    t_status t = (if has_active_runs tid w' then ''busy'' else base_joint_status checkpoint exn) \<and>
    map_of (t_metadata t) ''graph_id'' = Some (PStr graph_id)"
proof -
  from assms obtain t r where t: "find_thread tid w = Some t" and r: "find_run rid tid w = Some r"
    by (fastforce simp: threads_set_joint_status_def split: if_splits)
  define w1 where "w1 = (if run_status = ''rollback'' then snd (runs_delete E no_auth rid tid w)
                         else set_run_status now rid tid run_status w)"
  have t1: "find_thread tid w1 = Some t"
    using t by (simp add: w1_def runs_delete_no_auth set_run_status_def)
  define status where "status = (if is_active run_status \<or> has_active_runs tid w1 then ''busy''
                                 else base_joint_status checkpoint exn)"
  have w': "w' = update_thread tid (joint_update patch now graph_id status checkpoint exn) w1"
    using assms t r
    by (auto simp: threads_set_joint_status_def w1_def status_def Let_def case_prod_unfold attempt_def split: sum.splits if_splits)
  have active: "has_active_runs tid w1" if "is_active run_status"
  proof -
    have "run_status \<noteq> ''rollback''" using that by (auto simp: is_active_def)
    moreover have "r_thread r = tid" using r by (auto simp: find_run_def dest: find_SomeD)
    ultimately have "r\<lparr>r_status := run_status, r_updated := now\<rparr> \<in> set (runs w1)" "r_thread r = tid"
      using update_first_hit[OF r[unfolded find_run_def], of "\<lambda>r. r\<lparr>r_status := run_status, r_updated := now\<rparr>"]
      by (simp_all add: w1_def set_run_status_def)
    then show ?thesis unfolding has_active_runs_def list_ex_iff using that by (intro bexI) auto
  qed
  have "status = (if has_active_runs tid w' then ''busy'' else base_joint_status checkpoint exn)"
    using active by (auto simp: status_def w' has_active_runs_def)
  then show ?thesis
    using find_thread_update[OF _ t1, of "joint_update patch now graph_id status checkpoint exn"]
    by (simp add: w') (simp add: joint_update_def dict_simps)
qed

theorem joint_status_reflects_runs_witness:
  "\<exists>t. find_thread ''t'' (snd (threads_set_joint_status demo_env no_auth id 9 ''t'' ''r1'' ''success'' ''g'' None None demo_world))
       = Some t \<and> t_status t = ''busy''"
proof -
  let ?r = "threads_set_joint_status demo_env no_auth id 9 ''t'' ''r1'' ''success'' ''g'' None None demo_world"
  have ok: "?r = (Inr (), snd ?r)"
    by (simp add: threads_set_joint_status_def demo_world_def find_thread_def demo_thread_def find_run_def demo_run_def Let_def)
  have "has_active_runs ''t'' (snd ?r)"
    by (simp add: threads_set_joint_status_def demo_world_def find_thread_def demo_thread_def find_run_def
        demo_run_def Let_def set_run_status_def has_active_runs_def is_active_def)
  then show ?thesis using joint_status_reflects_runs[OF ok] by (elim exE conjE) (rule exI, rule conjI, assumption, simp)
qed

section \<open>Creation\<close>

text \<open>
  A rejected creation stores the thread. When \<open>put\<close> of a new thread comes with a TTL the
  validation rejects, the caller gets the error, and the thread is stored nevertheless, without a
  TTL of its own.
\<close>

theorem rejected_put_stores_thread:
  assumes "A ''threads'' ''create'' (Some tid) = Inr filters" and "find_thread tid w = None"
    and "normalize_ttl_config (Some ttl) = Inl e"
  shows "fst (threads_put A now tid metadata if_exists (Some ttl) w) = Inl e \<and>
    find_thread tid (snd (threads_put A now tid metadata if_exists (Some ttl) w)) = Some (new_thread tid metadata now) \<and>
    thread_ttls (snd (threads_put A now tid metadata if_exists (Some ttl) w)) = thread_ttls w"
proof -
  have "find (\<lambda>t. t_id t = tid) (threads w @ [new_thread tid metadata now]) = Some (new_thread tid metadata now)"
  proof -
    have "find P (xs @ [x]) = Some x" if "find P xs = None" "P x" for P :: "thread \<Rightarrow> bool" and xs x
      using that by (induction xs) (auto split: if_splits)
    then show ?thesis using assms(2) by (simp add: find_thread_def new_thread_def)
  qed
  with assms show ?thesis
    by (simp add: threads_put_def store_ttl_def set_thread_ttl_override_def Let_def find_thread_def)
qed

theorem rejected_put_stores_thread_witness:
  "find_thread ''t'' (snd (threads_put no_auth 5 ''t'' [] ''raise'' (Some [(''ttl'', PInt (- 1))]) world_init))
   = Some (new_thread ''t'' [] 5)"
proof -
  have 1: "no_auth ''threads'' ''create'' (Some ''t'') = Inr PNone" by (simp add: no_auth_def)
  have 2: "find_thread ''t'' world_init = None" by (simp add: find_thread_def world_init_def)
  have 3: "normalize_ttl_config (Some [(''ttl'', PInt (- 1))]) = Inl (HTTPException 422)" 
    by (simp add: normalize_ttl_config_def strategy_of_def ttl_value_of_def py_float_def is_negative_def float_limit_def dget_default_def)
  from rejected_put_stores_thread[of no_auth, OF 1 2 3, of 5 "[]" "''raise''"] show ?thesis by simp
qed

end
