(* ===== verification/Assistants.thy ===== *)
theory Assistants
  imports Thread_Results
begin

text \<open>
  The class \<open>Assistants\<close> of \<open>ops.py\<close>: search, count, lookup, creation, patching with its version
  history, the switch back to an older version, and deletion with its cascade (threads on request,
  in-flight runs, versions, crons). \<open>assert_graph_exists\<close> of the API server is the argument \<open>G\<close>.
  Searches return rows; the selected columns are in \<open>Projection\<close>.
\<close>

section \<open>Search and lookup\<close>

definition assistant_matches ::
  "pyval \<Rightarrow> string option \<Rightarrow> string option \<Rightarrow> pdict \<Rightarrow> assistant \<Rightarrow> bool res" where
  "assistant_matches filters graph_id name metadata a =
     (if \<not> (case graph_id of None \<Rightarrow> True | Some g \<Rightarrow> g = [] \<or> a_graph a = g) then Inr False
      else if \<not> (case name of None \<Rightarrow> True | Some n \<Rightarrow> n = [] \<or> sublist (str_lower n) (str_lower (a_name a))) then Inr False
      else bind_res (if metadata = [] then Inr True else is_jsonb_contained (PDict (a_metadata a)) metadata) (\<lambda>ok.
        if \<not> ok then Inr False else passes filters (a_metadata a)))"

definition assistant_sort_columns :: "string list" where
  "assistant_sort_columns = [''assistant_id'', ''graph_id'', ''name'', ''created_at'', ''updated_at'']"

definition assistant_sort_key :: "string \<Rightarrow> assistant \<Rightarrow> column" where
  "assistant_sort_key sort_by a =
     (if sort_by = ''assistant_id'' then CText (a_id a)
      else if sort_by = ''graph_id'' then CText (str_lower (a_graph a))
      else if sort_by = ''name'' then CText (str_lower (a_name a))
      else if sort_by = ''created_at'' then CTime (a_created a)
      else CTime (a_updated a))"

definition sort_assistants :: "string option \<Rightarrow> string option \<Rightarrow> assistant list \<Rightarrow> assistant list" where
  "sort_assistants sort_by sort_order xs =
     (case sort_by of
        None \<Rightarrow> py_sorted a_created True xs
      | Some s \<Rightarrow>
          if str_lower s \<in> set assistant_sort_columns
          then py_sorted (assistant_sort_key (str_lower s)) (\<not> is_ascending sort_order) xs
          else py_sorted a_created True xs)"

definition check_graph :: "(string \<Rightarrow> unit res) \<Rightarrow> string option \<Rightarrow> unit res" where
  "check_graph G graph_id = (case graph_id of None \<Rightarrow> Inr () | Some g \<Rightarrow> G g)"

definition assistants_search ::
  "auth \<Rightarrow> (string \<Rightarrow> unit res) \<Rightarrow> string option \<Rightarrow> string option \<Rightarrow> pdict \<Rightarrow> nat \<Rightarrow> nat \<Rightarrow> string option \<Rightarrow>
   string option \<Rightarrow> world \<Rightarrow> (assistant list \<times> nat option) res" where
  "assistants_search A G graph_id name metadata limit offset sort_by sort_order w =
     bind_res (A ''assistants'' ''search'' None) (\<lambda>filters.
     bind_res (check_graph G graph_id) (\<lambda>_.
     bind_res (filter_res (assistant_matches filters graph_id name metadata) (assistants w)) (\<lambda>xs.
       Inr (page offset limit (sort_assistants sort_by sort_order xs)))))"

definition assistants_count ::
  "auth \<Rightarrow> (string \<Rightarrow> unit res) \<Rightarrow> string option \<Rightarrow> string option \<Rightarrow> pdict \<Rightarrow> world \<Rightarrow> nat res" where
  "assistants_count A G graph_id name metadata w =
     bind_res (A ''assistants'' ''search'' None) (\<lambda>filters.
     bind_res (check_graph G graph_id) (\<lambda>_.
     bind_res (filter_res (assistant_matches filters graph_id name metadata) (assistants w)) (\<lambda>xs.
       Inr (length xs))))"

definition assistants_get :: "auth \<Rightarrow> uuid \<Rightarrow> world \<Rightarrow> assistant list res" where
  "assistants_get A aid w =
     bind_res (A ''assistants'' ''read'' (Some aid)) (\<lambda>filters.
       filter_res (\<lambda>a. if a_id a = aid then passes filters (a_metadata a) else Inr False) (assistants w))"

section \<open>Creation\<close>

text \<open>
  A request gives a configurable or a context, not both; whichever is given is kept in both places.
\<close>

definition context_clash :: "pdict \<Rightarrow> pdict option \<Rightarrow> bool" where
  "context_clash config context \<longleftrightarrow> get_configurable config \<noteq> [] \<and> context \<noteq> None \<and> context \<noteq> Some []"

definition sync_context :: "pdict \<Rightarrow> pdict option \<Rightarrow> pdict \<times> pdict option" where
  "sync_context config context =
     (if get_configurable config \<noteq> [] then (config, Some (get_configurable config))
      else case context of
             Some (kv # rest) \<Rightarrow> (AList.update ''configurable'' (PDict (kv # rest)) config, context)
           | _ \<Rightarrow> (config, context))"

record assistant_request =
  aq_graph :: string
  aq_config :: pdict
  aq_context :: "pdict option"
  aq_metadata :: pdict
  aq_name :: string
  aq_description :: "string option"

definition or_empty :: "pdict option \<Rightarrow> pdict" where
  "or_empty d = (case d of None \<Rightarrow> [] | Some x \<Rightarrow> x)"

definition new_assistant :: "uuid \<Rightarrow> assistant_request \<Rightarrow> time \<Rightarrow> assistant" where
  "new_assistant aid q now =
     (case sync_context (aq_config q) (aq_context q) of (config, context) \<Rightarrow>
        \<lparr>a_id = aid, a_graph = aq_graph q, a_name = aq_name q, a_description = aq_description q,
         a_created = now, a_updated = now, a_config = config, a_context = or_empty context,
         a_metadata = aq_metadata q, a_version = 1\<rparr>)"

definition version_of :: "assistant \<Rightarrow> time \<Rightarrow> assistant_version" where
  "version_of a now =
     \<lparr>v_assistant = a_id a, v_version = a_version a, v_graph = a_graph a, v_config = a_config a,
      v_context = a_context a, v_metadata = a_metadata a, v_created = now, v_name = a_name a,
      v_description = a_description a\<rparr>"

definition assistants_put ::
  "auth \<Rightarrow> (string \<Rightarrow> unit res) \<Rightarrow> time \<Rightarrow> uuid \<Rightarrow> assistant_request \<Rightarrow> string \<Rightarrow> world \<Rightarrow> assistant res \<times> world" where
  "assistants_put A G now aid q if_exists w =
     attempt (A ''assistants'' ''create'' (Some aid)) w (\<lambda>filters.
     if context_clash (aq_config q) (aq_context q) then (Inl (HTTPException 400), w)
     else attempt (G (aq_graph q)) w (\<lambda>_.
       (let new = new_assistant aid q now;
            create = (Inr new, w\<lparr>assistants := assistants w @ [new],
                                assistant_versions := assistant_versions w @ [version_of new now]\<rparr>)
        in case find_assistant aid w of
             None \<Rightarrow> create
           | Some a \<Rightarrow> attempt (passes filters (a_metadata a)) w (\<lambda>ok.
               if \<not> ok \<or> if_exists = ''raise'' then (Inl (HTTPException 409), w)
               else if if_exists = ''do_nothing'' then (Inr a, w)
               else create))))"

section \<open>Patching and versions\<close>

record assistant_patch =
  ap_graph :: "string option"
  ap_config :: pdict
  ap_context :: "pdict option"
  ap_metadata :: pdict
  ap_name :: "string option"
  ap_description :: "string option"

definition the_default :: "'a \<Rightarrow> 'a option \<Rightarrow> 'a" where
  "the_default d x = (case x of None \<Rightarrow> d | Some y \<Rightarrow> y)"

definition versions_of :: "uuid \<Rightarrow> world \<Rightarrow> int list" where
  "versions_of aid w = map v_version (filter (\<lambda>v. v_assistant v = aid) (assistant_versions w))"

text \<open>\<open>max\<close> over no version raises \<open>ValueError\<close>, unless the whole table is empty.\<close>

definition next_version :: "uuid \<Rightarrow> world \<Rightarrow> int res" where
  "next_version aid w =
     (if assistant_versions w = [] then Inr 1
      else case versions_of aid w of
             [] \<Rightarrow> Inl value_error
           | v # vs \<Rightarrow> Inr (fold max vs v + 1))"

definition patched_assistant :: "assistant_patch \<Rightarrow> int \<Rightarrow> time \<Rightarrow> assistant \<Rightarrow> assistant" where
  "patched_assistant p version now a =
     (case sync_context (ap_config p) (ap_context p) of (config, context) \<Rightarrow>
        a\<lparr>a_graph := the_default (a_graph a) (ap_graph p),
          a_config := (if config = [] then a_config a else config),
          a_context := the_default (a_context a) context,
          a_metadata := dict_merge (a_metadata a) (ap_metadata p),
          a_name := the_default (a_name a) (ap_name p),
          a_description := (case ap_description p of None \<Rightarrow> a_description a | Some d \<Rightarrow> Some d),
          a_updated := now, a_version := version\<rparr>)"

definition update_assistant :: "uuid \<Rightarrow> (assistant \<Rightarrow> assistant) \<Rightarrow> world \<Rightarrow> world" where
  "update_assistant aid f w = w\<lparr>assistants := update_first (\<lambda>a. a_id a = aid) f (assistants w)\<rparr>"

definition assistants_patch ::
  "auth \<Rightarrow> (string \<Rightarrow> unit res) \<Rightarrow> time \<Rightarrow> uuid \<Rightarrow> assistant_patch \<Rightarrow> world \<Rightarrow> assistant res \<times> world" where
  "assistants_patch A G now aid p w =
     attempt (A ''assistants'' ''update'' (Some aid)) w (\<lambda>filters.
     if context_clash (ap_config p) (ap_context p) then (Inl (HTTPException 400), w)
     else attempt (check_graph G (ap_graph p)) w (\<lambda>_.
     case find_assistant aid w of
       None \<Rightarrow> (Inl (HTTPException 404), w)
     | Some a \<Rightarrow> attempt (passes filters (a_metadata a)) w (\<lambda>ok.
         if \<not> ok then (Inl (HTTPException 404), w)
         else attempt (next_version aid w) w (\<lambda>version.
           (let a' = patched_assistant p version now a
            in (Inr a', (update_assistant aid (patched_assistant p version now) w)
                          \<lparr>assistant_versions := assistant_versions w @ [version_of a' now]\<rparr>))))))"

definition restored_assistant :: "assistant_version \<Rightarrow> time \<Rightarrow> assistant \<Rightarrow> assistant" where
  "restored_assistant v now a =
     a\<lparr>a_config := v_config v, a_metadata := v_metadata v, a_version := v_version v, a_updated := now,
       a_name := v_name v, a_description := v_description v\<rparr>"

definition assistants_set_latest :: "auth \<Rightarrow> time \<Rightarrow> uuid \<Rightarrow> int \<Rightarrow> world \<Rightarrow> assistant res \<times> world" where
  "assistants_set_latest A now aid version w =
     attempt (A ''assistants'' ''update'' (Some aid)) w (\<lambda>filters.
     case find_assistant aid w of
       None \<Rightarrow> (Inl (HTTPException 404), w)
     | Some a \<Rightarrow> attempt (passes filters (a_metadata a)) w (\<lambda>ok.
         if \<not> ok then (Inl (HTTPException 404), w)
         else case find (\<lambda>v. v_assistant v = aid \<and> v_version v = version) (assistant_versions w) of
                None \<Rightarrow> (Inl (HTTPException 404), w)
              | Some v \<Rightarrow> (Inr (restored_assistant v now a), update_assistant aid (restored_assistant v now) w)))"

definition version_matches :: "pyval \<Rightarrow> pdict \<Rightarrow> assistant_version \<Rightarrow> bool res" where
  "version_matches filters metadata v =
     bind_res (if metadata = [] then Inr True else is_jsonb_contained (PDict (v_metadata v)) metadata) (\<lambda>ok.
       if \<not> ok then Inr False else passes filters (v_metadata v))"

definition assistants_get_versions ::
  "auth \<Rightarrow> uuid \<Rightarrow> pdict \<Rightarrow> nat \<Rightarrow> nat \<Rightarrow> world \<Rightarrow> assistant_version list res" where
  "assistants_get_versions A aid metadata limit offset w =
     bind_res (A ''assistants'' ''read'' (Some aid)) (\<lambda>filters.
       if find_assistant aid w = None then Inl (HTTPException 404)
       else bind_res (filter_res (\<lambda>v. if v_assistant v = aid then version_matches filters metadata v else Inr False)
                        (assistant_versions w)) (\<lambda>vs.
              Inr (py_slice offset limit (py_sorted v_version True vs))))"

section \<open>Deletion\<close>

definition threads_of_assistant :: "uuid \<Rightarrow> world \<Rightarrow> uuid list" where
  "threads_of_assistant aid w =
     map t_id (filter (\<lambda>t. map_of (t_metadata t) ''assistant_id'' = Some (PStr aid)) (threads w))"

definition delete_assistant_rows :: "uuid \<Rightarrow> world \<Rightarrow> world" where
  "delete_assistant_rows aid w =
     w\<lparr>assistants := filter (\<lambda>a. a_id a \<noteq> aid) (assistants w),
       assistant_versions := filter (\<lambda>v. v_assistant v \<noteq> aid) (assistant_versions w),
       crons := filter (\<lambda>c. c_assistant c \<noteq> aid) (crons w)\<rparr>"

definition assistants_delete ::
  "saver_env \<Rightarrow> auth \<Rightarrow> time \<Rightarrow> nat \<Rightarrow> uuid \<Rightarrow> bool \<Rightarrow> world \<Rightarrow> uuid res \<times> world" where
  "assistants_delete E A now ms aid delete_threads w =
     attempt (A ''assistants'' ''delete'' (Some aid)) w (\<lambda>filters.
     case find_assistant aid w of
       None \<Rightarrow> (Inl (HTTPException 404), w)
     | Some a \<Rightarrow> attempt (passes filters (a_metadata a)) w (\<lambda>ok.
         if \<not> ok then (Inl (HTTPException 404), w)
         else case (if delete_threads then delete_each E A (threads_of_assistant aid w) w else (Inr 0, w)) of
           (res, w1) \<Rightarrow> attempt res w1 (\<lambda>_.
             case runs_cancel E A now ms None ''interrupt'' None None (Some aid) w1 of (res2, w2) \<Rightarrow>
               attempt res2 w2 (\<lambda>_. (Inr aid, delete_assistant_rows aid w2)))))"

interpretation assistant_table: row_table a_id find_assistant update_assistant assistants
  by unfold_locales (simp_all add: find_assistant_def update_assistant_def)

end
