(* ===== verification/Cancelling.thy ===== *)
theory Cancelling
  imports Runs_Props
begin

text \<open>
  \<open>Runs.cancel\<close> for any caller: which runs a call selects when the caller's filters hide some threads,
  what it does to their rows, and what the listeners of their workers are told.
\<close>

section \<open>Visible threads\<close>

definition may_see :: "pyval \<Rightarrow> uuid \<Rightarrow> world \<Rightarrow> bool" where
  "may_see filters tid w \<longleftrightarrow> \<not> truthy filters \<or>
     (case find_thread tid w of None \<Rightarrow> False | Some t \<Rightarrow> check_filter_match (t_metadata t) filters = Inr True)"

definition same_meta :: "world \<Rightarrow> world \<Rightarrow> bool" where
  "same_meta w w' \<longleftrightarrow> map (\<lambda>t. (t_id t, t_metadata t)) (threads w') = map (\<lambda>t. (t_id t, t_metadata t)) (threads w)"

lemma same_meta_refl [simp]: "same_meta w w" "same_meta w (w\<lparr>runs := rs\<rparr>)" "same_meta w (w\<lparr>streams := sm\<rparr>)"
  by (simp_all add: same_meta_def)

lemma same_meta_trans: "same_meta w w1 \<Longrightarrow> same_meta w1 w2 \<Longrightarrow> same_meta w w2"
  by (simp add: same_meta_def)

lemma find_same_meta:
  "map (\<lambda>t. (t_id t, t_metadata t)) ts' = map (\<lambda>t. (t_id t, t_metadata t)) ts \<Longrightarrow>
   map_option t_metadata (find (\<lambda>t. t_id t = tid) ts') = map_option t_metadata (find (\<lambda>t. t_id t = tid) ts)"
  by (induction ts' arbitrary: ts) (auto simp: map_eq_Cons_conv)

lemma may_see_same: 
  assumes "same_meta w w'"
  shows "may_see filters tid w' = may_see filters tid w"
  using find_same_meta[OF assms[unfolded same_meta_def], of tid]
  by (auto simp: may_see_def find_thread_def split: option.split)

lemma same_meta_update:
  assumes "\<And>t. t_id (f t) = t_id t" and "\<And>t. t_metadata (f t) = t_metadata t"
  shows "same_meta w (update_thread tid f w)"
proof -
  have "map (\<lambda>t. (t_id t, t_metadata t)) (update_first P f ts) = map (\<lambda>t. (t_id t, t_metadata t)) ts" for P ts
    using assms by (induction ts) auto
  then show ?thesis by (simp add: same_meta_def update_thread_def)
qed

lemma get_with_filters_sees:
  assumes "fst (get_with_filters tid filters w) = Inr x" and "truthy filters"
  shows "x \<noteq> None \<longleftrightarrow> may_see filters tid w"
  using assms
  by (cases "find_thread tid w"; cases "passes filters (t_metadata (the (find_thread tid w)))")
    (auto simp: get_with_filters_def may_see_def passes_def split: if_splits)

lemma get_with_filters_meta: "same_meta w (snd (get_with_filters tid filters w))"
  by (auto simp: get_with_filters_def default_state_updated_def split: option.split
      intro!: attempt_keeps[where P = "same_meta w"] same_meta_update)

section \<open>The selected runs\<close>

lemma filter_visible_exact:
  assumes "truthy filters" and "fst (filter_visible filters is w) = Inr js"
  shows "js = filter (\<lambda>i. may_see filters (r_thread (runs w ! i)) w) is"
  using assms(2)
proof (induction "is" arbitrary: w js)
  case Nil
  then show ?case by simp
next
  case (Cons i "is")
  let ?tid = "r_thread (runs w ! i)"
  let ?w1 = "snd (get_with_filters ?tid filters w)"
  from Cons.prems obtain x js' where x: "fst (get_with_filters ?tid filters w) = Inr x"
    and js': "fst (filter_visible filters is ?w1) = Inr js'" "js = (if x = None then js' else i # js')"
    by (cases "fst (get_with_filters ?tid filters w)"; cases "fst (filter_visible filters is ?w1)")
      (auto simp: case_prod_unfold split: if_splits)
  have "runs ?w1 = runs w" using same_keeps(2)[OF get_with_filters_same] by blast
  with Cons.IH[OF js'(1)] have "js' = filter (\<lambda>i. may_see filters (r_thread (runs w ! i)) w) is"
    by (simp add: may_see_same[OF get_with_filters_meta])
  with js'(2) get_with_filters_sees[OF x assms(1)] show ?case by (cases x) simp_all
qed

lemma filter_visible_meta: "same_meta w (snd (filter_visible filters is w))"
proof (induction "is" arbitrary: w)
  case Nil
  then show ?case by simp
next
  case (Cons i "is")
  note step = get_with_filters_meta[of w "r_thread (runs w ! i)" filters]
  show ?case
    using step same_meta_trans[OF step Cons.IH]
    by (auto simp: case_prod_unfold intro!: attempt_keeps[where P = "same_meta w"])
qed

text \<open>A selected run: it matches the arguments, and the caller may see its thread.\<close>

definition selected ::
  "pyval \<Rightarrow> uuid list option \<Rightarrow> uuid option \<Rightarrow> string list \<Rightarrow> uuid option \<Rightarrow> world \<Rightarrow> run \<Rightarrow> bool" where
  "selected filters run_ids tid statuses aid w r \<longleftrightarrow>
     is_run_match run_ids tid statuses aid r \<and> may_see filters (r_thread r) w"

lemma candidates_exact:
  assumes args: "cancel_args_ok run_ids tid status aid" "status_list status = Inr statuses"
    and js: "fst (cancel_candidates filters run_ids tid statuses aid w) = Inr js"
  shows "js = filter (\<lambda>i. selected filters run_ids tid statuses aid w (runs w ! i)) [0..<length (runs w)]"
proof -
  let ?match = "\<lambda>i. is_run_match run_ids tid statuses aid (runs w ! i)"
  define cs where "cs = map fst (filter (\<lambda>(i, r). is_run_match run_ids tid statuses aid r) (enumerate 0 (runs w)))"
  have "enumerate 0 (runs w) = map (\<lambda>i. (i, runs w ! i)) [0..<length (runs w)]"
    by (intro nth_equalityI) (simp_all add: nth_enumerate_eq)
  then have cs: "cs = filter ?match [0..<length (runs w)]"
    by (simp add: cs_def filter_map comp_def)
  have eq: "cancel_candidates filters run_ids tid statuses aid w =
      (if \<not> truthy filters then (Inr cs, w)
       else case tid of
         Some t \<Rightarrow> (case get_with_filters t filters w of (res, w1) \<Rightarrow>
                      attempt res w1 (\<lambda>found. (Inr (if found = None then [] else cs), w1)))
       | None \<Rightarrow> filter_visible filters cs w)"
    by (simp only: cancel_candidates_def Let_def cs_def)
  note js = js[unfolded eq]
  show ?thesis
  proof (cases "truthy filters")
    case False
    with js show ?thesis by (simp add: cs selected_def may_see_def)
  next
    case True
    show ?thesis
    proof (cases tid)
      case None
      with True js have "fst (filter_visible filters cs w) = Inr js"
        by simp
      from filter_visible_exact[OF True this] show ?thesis by (simp add: cs selected_def conj_commute)
    next
      case (Some t)
      have "statuses = []" "aid = None" using args Some by (auto simp: cancel_args_ok_def status_list_def split: if_splits)
      then have own: "r_thread (runs w ! i) = t" if "?match i" for i using that Some by (simp add: is_run_match_def)
      from True js Some obtain x where x: "fst (get_with_filters t filters w) = Inr x" "js = (if x = None then [] else cs)"
        by (cases "fst (get_with_filters t filters w)")
          (auto simp: case_prod_unfold split: if_splits)
      have "js = (if may_see filters t w then cs else [])" using x get_with_filters_sees[OF x(1) True] by auto
      then show ?thesis using own by (auto simp: cs selected_def intro!: filter_cong)
    qed
  qed
qed

lemma candidates_meta: "same_meta w (snd (cancel_candidates filters run_ids tid statuses aid w))"
proof (cases tid)
  case None
  then show ?thesis by (simp add: cancel_candidates_def Let_def filter_visible_meta)
next
  case (Some t)
  then show ?thesis
    using get_with_filters_meta[of w t filters]
    by (auto simp: cancel_candidates_def Let_def case_prod_unfold intro!: attempt_keeps[where P = "same_meta w"])
qed

section \<open>What a candidate becomes\<close>

text \<open>Looking for queues leaves everything a listener of a cancellation depends on.\<close>

definition same_control :: "stream_manager \<Rightarrow> stream_manager \<Rightarrow> bool" where
  "same_control sm sm' \<longleftrightarrow> sm_control_keys sm' = sm_control_keys sm \<and>
     sm_control_queues sm' = sm_control_queues sm \<and> contents sm' = contents sm"

lemma same_control_trans: "same_control a b \<Longrightarrow> same_control b c \<Longrightarrow> same_control a c"
  by (simp add: same_control_def)

lemma cancel_one_frame:
  "same_control (streams w) (streams (snd (snd (cancel_one action now tid i w))))"
  "same_meta w (snd (snd (cancel_one action now tid i w)))"
  "map r_id (runs (snd (snd (cancel_one action now tid i w)))) = map r_id (runs w)"
proof -
  show "same_control (streams w) (streams (snd (snd (cancel_one action now tid i w))))"
    by (simp add: cancel_one_def Let_def case_prod_unfold get_queues_def same_control_def)
  have touch: "same_meta w (w\<lparr>streams := sm\<rparr>)" for sm by simp
  have idle: "same_meta w (update_thread t (idle_thread now) (w\<lparr>streams := sm\<rparr>))" for t sm
    by (rule same_meta_trans[OF touch same_meta_update]) (simp_all add: idle_thread_def)
  have rows: "same_meta w v \<Longrightarrow> same_meta w (v\<lparr>runs := rs\<rparr>)" for v rs by (simp add: same_meta_def)
  show "same_meta w (snd (snd (cancel_one action now tid i w)))"
    by (auto simp: cancel_one_def Let_def case_prod_unfold touch intro!: rows idle touch)
  show "map r_id (runs (snd (snd (cancel_one action now tid i w)))) = map r_id (runs w)"
    by (cases "i < length (runs w)")
      (auto simp: cancel_one_def Let_def case_prod_unfold map_update list_update_same_conv list_update_beyond)
qed

lemma cancel_each_frame:
  "same_control (streams w) (streams (snd (snd (cancel_each action now tid is w)))) \<and>
   same_meta w (snd (snd (cancel_each action now tid is w)))"
proof (induction "is" arbitrary: w)
  case Nil
  then show ?case by (simp add: same_control_def)
next
  case (Cons i "is")
  let ?w1 = "snd (snd (cancel_one action now tid i w))"
  from Cons.IH[of ?w1] cancel_one_frame(1,2)[where w = w and action = action and now = now and tid = tid and i = i]
  show ?case
    by (auto simp: case_prod_unfold intro: same_control_trans same_meta_trans)
qed

lemma cancel_each_calls:
  assumes "action \<noteq> ''rollback''" and "\<forall>i\<in>set is. i < length (runs w)"
  shows "fst (cancel_each action now tid is w) = map (\<lambda>i. Publish (r_id (runs w ! i))) is"
  using assms(2)
proof (induction "is" arbitrary: w)
  case Nil
  then show ?case by simp
next
  case (Cons i "is")
  let ?w1 = "snd (snd (cancel_one action now tid i w))"
  have ids: "map r_id (runs ?w1) = map r_id (runs w)" by (rule cancel_one_frame)
  from map_eq_imp_length_eq[OF this] have len: "length (runs ?w1) = length (runs w)" .
  have "r_id (runs ?w1 ! k) = r_id (runs w ! k)" if "k < length (runs w)" for k
    using arg_cong[OF ids, of "\<lambda>xs. xs ! k"] that len by simp
  with Cons.IH[of ?w1] Cons.prems len cancel_one_eager(3)[OF assms(1)]
  show ?case by (simp add: case_prod_unfold)
qed

section \<open>What the listeners are told\<close>

definition publish_all :: "nat \<Rightarrow> string \<Rightarrow> uuid option \<Rightarrow> uuid option list \<Rightarrow> stream_manager \<Rightarrow> stream_manager" where
  "publish_all ms action tid rids sm =
     fold (\<lambda>rid. stream_put ms (run_key rid) tid (control_message rid action) False) rids sm"

lemma gather_publishes:
  "gather_calls E A ms action tid (map Publish rids) w = (Inr (), w\<lparr>streams := publish_all ms action tid rids (streams w)\<rparr>)"
  by (induction rids arbitrary: w) (simp_all add: run_call_def publish_all_def)

text \<open>A listener finds the action in the control key or behind what it has read, if its run is among them.\<close>

lemma publish_all_tells:
  "map_option m_data (get_control_key k tid (publish_all ms action tid rids sm)) =
     (if k \<in> run_key ` set rids then Some action else map_option m_data (get_control_key k tid sm)) \<and>
   (\<exists>new. contents (publish_all ms action tid rids sm) q = contents sm q @ new \<and> (\<forall>m\<in>set new. m_data m = action) \<and>
      (k \<in> run_key ` set rids \<and> q \<in> set (dd_get (sm_control_queues sm) (thread_key tid) k) \<longrightarrow> new \<noteq> []))"
proof (induction rids arbitrary: sm)
  case Nil
  then show ?case by (simp add: publish_all_def)
next
  case (Cons rid rids)
  let ?sm1 = "stream_put ms (run_key rid) tid (control_message rid action) False sm"
  let ?n = "count_list (recipients (run_key rid) tid (control_message rid action) sm) q"
  have step: "publish_all ms action tid (rid # rids) sm = publish_all ms action tid rids ?sm1"
    by (simp add: publish_all_def)
  have key: "map_option m_data (get_control_key k tid ?sm1) =
      (if k = run_key rid then Some action else map_option m_data (get_control_key k tid sm))"
    unfolding control_key_after_put using control_message_topic[of rid action]
    by (simp add: stamped_def) (simp add: control_message_def)
  have data: "m_data (stamped ms (control_message rid action)) = action" by (simp add: stamped_def control_message_def)
  have reached: "?n \<noteq> 0" if "q \<in> set (dd_get (sm_control_queues sm) (thread_key tid) k)" "k = run_key rid"
    using that by (simp add: recipients_def control_message_topic count_list_0_iff)
  from Cons.IH[of ?sm1] obtain new where new: "contents (publish_all ms action tid rids ?sm1) q = contents ?sm1 q @ new"
    "\<forall>m\<in>set new. m_data m = action"
    "k \<in> run_key ` set rids \<Longrightarrow> q \<in> set (dd_get (sm_control_queues sm) (thread_key tid) k) \<Longrightarrow> new \<noteq> []"
    by (auto simp: stream_put_fields)
  have "\<exists>new. contents (publish_all ms action tid (rid # rids) sm) q = contents sm q @ new \<and> (\<forall>m\<in>set new. m_data m = action) \<and>
      (k \<in> run_key ` set (rid # rids) \<and> q \<in> set (dd_get (sm_control_queues sm) (thread_key tid) k) \<longrightarrow> new \<noteq> [])"
    unfolding step new(1) stream_put_fields(1)
    using new(2,3) reached data
    by (intro exI[of _ "replicate ?n (stamped ms (control_message rid action)) @ new"]) (auto simp: image_iff)
  moreover note Cons.IH[of ?sm1, THEN conjunct1]
  ultimately show ?case unfolding step key by auto
qed

section \<open>A cancellation that succeeds\<close>

lemma cancel_succeeds:
  assumes success: "runs_cancel E A now ms run_ids action tid status aid w = (Inr (), w')" and action: "action \<noteq> ''rollback''"
  obtains f statuses where "A ''threads'' ''update'' tid = Inr f" and "status_list status = Inr statuses"
    and "runs w' = map (\<lambda>r. if selected f run_ids tid statuses aid w r \<and> is_active (r_status r)
                              then interrupted now r else r) (runs w)"
    and "same_meta w w'"
    and "tid \<noteq> None \<Longrightarrow> \<exists>sm. same_control (streams w) sm \<and>
           streams w' = publish_all ms action tid (map r_id (filter (selected f run_ids tid statuses aid w) (runs w))) sm"
proof -
  have args: "cancel_args_ok run_ids tid status aid" using success by (auto simp: runs_cancel_def split: if_splits)
  from success args obtain f where f: "A ''threads'' ''update'' tid = Inr f"
    by (cases "A ''threads'' ''update'' tid") (simp_all add: runs_cancel_def)
  from success args f obtain statuses where st: "status_list status = Inr statuses"
    by (cases "status_list status") (simp_all add: runs_cancel_def)
  obtain cands w1 where c: "cancel_candidates f run_ids tid statuses aid w = (cands, w1)" by fastforce
  from success args f st c obtain js where js: "cands = Inr js" by (cases cands) (simp_all add: runs_cancel_def)
  define calls where "calls = fst (cancel_each action now tid js w1)"
  define cancelable where "cancelable = fst (snd (cancel_each action now tid js w1))"
  define w2 where "w2 = snd (snd (cancel_each action now tid js w1))"
  let ?sel = "selected f run_ids tid statuses aid w"
  have exact: "js = filter (\<lambda>i. ?sel (runs w ! i)) [0..<length (runs w)]"
    using candidates_exact[OF args st, of f w js] c js by simp
  have same: "same_but_defaults w w1" using cancel_candidates_same[of w f run_ids tid statuses aid] c by simp
  note w1 = same_keeps(2,6)[OF same]
  have meta: "same_meta w w2"
    using candidates_meta[of w f run_ids tid statuses aid] cancel_each_frame[of w1 action now tid js] c
    by (auto simp: w2_def intro: same_meta_trans)
  have js_ok: "distinct js" "\<forall>i\<in>set js. i < length (runs w1)" by (simp_all add: exact w1)
  note each = cancel_each_eager[OF action js_ok, of now tid, folded cancelable_def w2_def calls_def]
  have rows: "runs w2 = map (\<lambda>r. if ?sel r \<and> is_active (r_status r) then interrupted now r else r) (runs w)"
    using each by (intro nth_equalityI) (auto simp: w1 exact)
  have end_state: "w' = (if js = [] then w1 else if cancelable then snd (gather_calls E A ms action tid calls w2) else w2)"
    and published: "tid \<noteq> None \<Longrightarrow> js \<noteq> [] \<and> cancelable"
    using success args f st c js
    by (auto simp: runs_cancel_def case_prod_unfold calls_def cancelable_def w2_def cancel_args_ok_def split: if_splits)
  have told: "calls = map Publish (map r_id (filter ?sel (runs w)))"
  proof -
    have "filter ?sel (runs w) = map (\<lambda>i. runs w ! i) js"
      using map_nth[of "runs w"] filter_map[of ?sel "(!) (runs w)" "[0..<length (runs w)]"] by (simp add: exact comp_def)
    with cancel_each_calls[OF action js_ok(2), of now tid] show ?thesis by (simp add: calls_def w1 comp_def)
  qed
  have idle: "js = [] \<Longrightarrow> w2 = w1" by (simp add: w2_def)
  have "snd (gather_calls E A ms action tid calls w2) =
      w2\<lparr>streams := publish_all ms action tid (map r_id (filter ?sel (runs w))) (streams w2)\<rparr>"
    by (simp only: told gather_publishes snd_conv)
  then have keep: "runs w' = runs w2" "threads w' = threads w2"
    using end_state idle by (cases "js = []"; cases cancelable; simp)+
  have meta': "same_meta w w'" using meta by (simp add: same_meta_def keep)
  have "\<exists>sm. same_control (streams w) sm \<and> streams w' = publish_all ms action tid (map r_id (filter ?sel (runs w))) sm"
    if "tid \<noteq> None"
  proof (intro exI conjI)
    show "same_control (streams w) (streams w2)"
      using cancel_each_frame[of w1 action now tid js] by (simp add: w2_def w1)
    show "streams w' = publish_all ms action tid (map r_id (filter ?sel (runs w))) (streams w2)"
      using end_state published[OF that] unfolding told gather_publishes by simp
  qed
  with that[OF f st _ meta'] rows keep show ?thesis by simp
qed

section \<open>Properties\<close>

text \<open>
  C31. An interruption by thread and run ids takes effect. Let \<open>cancel\<close> succeed for a caller with any
  filters. Then, with the filters the handler answered, the selected runs are the ones of the thread with
  one of the ids, if the caller may see the thread. Every selected pending run is interrupted; a selected
  running run keeps everything but its status and the time of its update; every other run is as before, and
  none is added, removed or moved. And the workers learn of it: whoever starts to listen for a selected run
  under its thread is told to interrupt it, and so is a listener already registered there that has heard
  nothing in what it has taken from its queue and what still waits in it.
\<close>

theorem interruption_takes_effect:
  assumes "runs_cancel E A now ms (Some ids) ''interrupt'' (Some tid) None None w = (Inr (), w')"
  shows "\<exists>f. A ''threads'' ''update'' (Some tid) = Inr f \<and>
    (let sel = (\<lambda>r. r_thread r = tid \<and> r_id r \<in> Some ` set ids \<and> may_see f tid w)
     in length (runs w') = length (runs w) \<and>
        (\<forall>i<length (runs w). let r = runs w ! i; r' = runs w' ! i
           in (\<not> (sel r \<and> is_active (r_status r)) \<longrightarrow> r' = r) \<and>
              (sel r \<and> r_status r = ''pending'' \<longrightarrow> r' = interrupted now r) \<and>
              r\<lparr>r_status := r_status r', r_updated := r_updated r'\<rparr> = r') \<and>
        (\<forall>r\<in>set (runs w). \<forall>rid. sel r \<and> r_id r = Some rid \<longrightarrow>
           (\<forall>inputs. listen_for_cancellation rid (Some tid) (streams w') inputs = Some Interrupt_signal) \<and>
           (\<forall>started seen q. q \<in> set (dd_get (sm_control_queues (streams w)) (ThreadKey tid) rid) \<and>
              listen_for_cancellation rid (Some tid) started (map Some (seen @ contents (streams w) q)) = None \<longrightarrow>
              listen_for_cancellation rid (Some tid) started (map Some (seen @ contents (streams w') q)) =
                Some Interrupt_signal)))"
proof -
  have "''interrupt'' \<noteq> ''rollback''" by simp
  from cancel_succeeds[OF assms this] obtain f statuses where f: "A ''threads'' ''update'' (Some tid) = Inr f"
    and st: "status_list None = Inr statuses"
    and rows: "runs w' = map (\<lambda>r. if selected f (Some ids) (Some tid) statuses None w r \<and> is_active (r_status r)
                              then interrupted now r else r) (runs w)"
    and told: "\<exists>sm. same_control (streams w) sm \<and> streams w' =
      publish_all ms ''interrupt'' (Some tid) (map r_id (filter (selected f (Some ids) (Some tid) statuses None w) (runs w))) sm"
    by blast
  define sel where "sel = (\<lambda>r::run. r_thread r = tid \<and> r_id r \<in> Some ` set ids \<and> may_see f tid w)"
  have "statuses = []" using st by (simp add: status_list_def)
  then have sel: "selected f (Some ids) (Some tid) statuses None w = sel"
    by (auto simp: fun_eq_iff sel_def selected_def is_run_match_def)
  from told obtain sm where sm: "same_control (streams w) sm"
    "streams w' = publish_all ms ''interrupt'' (Some tid) (map r_id (filter sel (runs w))) sm" unfolding sel by blast
  have hears: "(\<forall>inputs. listen_for_cancellation rid (Some tid) (streams w') inputs = Some Interrupt_signal) \<and>
      (q \<in> set (dd_get (sm_control_queues (streams w)) (ThreadKey tid) rid) \<and>
       listen_for_cancellation rid (Some tid) started (map Some (seen @ contents (streams w) q)) = None \<longrightarrow>
       listen_for_cancellation rid (Some tid) started (map Some (seen @ contents (streams w') q)) = Some Interrupt_signal)"
    if r: "r \<in> set (runs w)" "sel r" "r_id r = Some rid" for r rid started seen q
  proof -
    have rid: "rid \<in> run_key ` set (map r_id (filter sel (runs w)))"
      using r by (force simp: run_key_def image_iff intro!: bexI[of _ r])
    note tells = publish_all_tells[of rid "Some tid" ms "''interrupt''" "map r_id (filter sel (runs w))" sm q,
        folded sm(2)]
    from tells rid obtain m where m: "get_control_key rid (Some tid) (streams w') = Some m" "m_data m = ''interrupt''" by auto
    from tells rid sm(1) obtain new where new: "contents (streams w') q = contents (streams w) q @ new"
      "\<forall>m\<in>set new. m_data m = ''interrupt''"
      "q \<in> set (dd_get (sm_control_queues (streams w)) (ThreadKey tid) rid) \<Longrightarrow> new \<noteq> []"
      by (auto simp: same_control_def thread_key_def)
    have "listen_loop (map Some new) = Some Interrupt_signal" if "new \<noteq> []"
      using that new(2) by (cases new) auto
    with new(3) m show ?thesis
      using listen_more[of rid "Some tid" started "seen @ contents (streams w) q" "map Some new"]
      by (auto simp: new(1)) (simp add: listen_for_cancellation_def)
  qed
  have row: "(\<not> (sel r \<and> is_active (r_status r)) \<longrightarrow> r' = r) \<and> (sel r \<and> r_status r = ''pending'' \<longrightarrow> r' = interrupted now r) \<and>
      r\<lparr>r_status := r_status r', r_updated := r_updated r'\<rparr> = r'"
    if "r' = (if sel r \<and> is_active (r_status r) then interrupted now r else r)" for r r'
    using that by (auto simp: interrupted_def is_active_def)
  have "length (runs w') = length (runs w)" by (simp add: rows)
  moreover have "(\<not> (sel (runs w ! i) \<and> is_active (r_status (runs w ! i))) \<longrightarrow> runs w' ! i = runs w ! i) \<and>
      (sel (runs w ! i) \<and> r_status (runs w ! i) = ''pending'' \<longrightarrow> runs w' ! i = interrupted now (runs w ! i)) \<and>
      (runs w ! i)\<lparr>r_status := r_status (runs w' ! i), r_updated := r_updated (runs w' ! i)\<rparr> = runs w' ! i"
    if "i < length (runs w)" for i
    by (rule row) (simp add: rows sel that)
  ultimately show ?thesis
    using f hears unfolding Let_def sel_def by (intro exI[of _ f]) blast
qed

theorem interruption_takes_effect_witness:
  "\<exists>w'. runs_cancel demo_env no_auth 9 1 (Some [''r2'', ''r1'']) ''interrupt'' (Some ''t'') None None demo_world = (Inr (), w') \<and>
     r_status (runs w' ! 2) = ''interrupted'' \<and> runs w' ! 1 = runs demo_world ! 1 \<and>
     listen_for_cancellation ''r1'' (Some ''t'') (streams w') [] = Some Interrupt_signal"
proof -
  let ?c = "runs_cancel demo_env no_auth 9 1 (Some [''r2'', ''r1'']) ''interrupt'' (Some ''t'') None None demo_world"
  have "fst ?c = Inr ()" by code_simp
  then have c: "?c = (Inr (), snd ?c)" by (metis prod.collapse)
  have rows: "runs demo_world =
      [demo_run ''r1'' ''t'' ''running'' 1, demo_run ''r3'' ''u'' ''pending'' 3, demo_run ''r2'' ''t'' ''pending'' 2]"
    by (simp add: demo_world_def)
  from interruption_takes_effect[OF c]
  have other: "runs (snd ?c) ! 1 = runs demo_world ! 1" and second: "runs (snd ?c) ! 2 = interrupted 9 (runs demo_world ! 2)"
    and heard: "listen_for_cancellation ''r1'' (Some ''t'') (streams (snd ?c)) [] = Some Interrupt_signal"
    by (auto simp: Let_def rows demo_run_def no_auth_def may_see_def nth_Cons_numeral dest!: spec[of _ 1] spec[of _ 2])
  from c other second heard show ?thesis by (intro exI[of _ "snd ?c"]) (simp add: interrupted_def)
qed

end
