(* ===== verification/Assistants_Props.thy ===== *)
theory Assistants_Props
  imports Assistants Cancelling
begin

text \<open>
  Every operation on assistants preserves the invariant of the runtime state and the version history:
  versions of an assistant are pairwise distinct, and only stored assistants have some. Patching
  appends a new highest version, switching back restores a version except for its graph and context,
  and deletion cascades to versions, crons and in-flight runs.
\<close>

section \<open>The invariants\<close>

lemma rows_ok_crons:
  "rows_ok tids rs ttls cs aids \<Longrightarrow> (\<And>c. c \<in> set cs' \<Longrightarrow> c \<in> set cs \<and> c_assistant c \<in> aids') \<Longrightarrow>
   rows_ok tids rs ttls cs' aids'"
  unfolding rows_ok_def by (elim conjE, intro conjI ballI) auto

lemma world_inv_cron:
  assumes "world_inv w" and "c \<in> set (crons w)"
  shows "c_assistant c \<in> a_id ` set (assistants w)" and "c_thread c = Some t \<Longrightarrow> t \<in> t_id ` set (threads w)"
  using assms unfolding world_inv_def rows_ok_def set_map
  by (blast dest: bspec, elim conjE) (drule (1) bspec, simp)

lemma inv_assistants:
  assumes "world_inv w" and "a_id ` set (assistants w) \<subseteq> a_id ` set as"
  shows "world_inv (w\<lparr>assistants := as, assistant_versions := vs\<rparr>)"
proof -
  have "rows_ok (map t_id (threads w)) (runs w) (thread_ttls w) (crons w) (a_id ` set as)"
  proof (rule rows_ok_crons)
    show "rows_ok (map t_id (threads w)) (runs w) (thread_ttls w) (crons w) (a_id ` set (assistants w))"
      using assms(1) by (simp add: world_inv_def)
  qed (use world_inv_cron(1)[OF assms(1)] assms(2) in blast)
  with assms(1) show ?thesis by (simp add: world_inv_def)
qed

lemma inv_update_assistant [simp]:
  "(\<And>a. a_id (f a) = a_id a) \<Longrightarrow> world_inv w \<Longrightarrow> world_inv ((update_assistant aid f w)\<lparr>assistant_versions := vs\<rparr>)"
  "(\<And>a. a_id (f a) = a_id a) \<Longrightarrow> world_inv w \<Longrightarrow> world_inv (update_assistant aid f w)"
  using inv_assistants[of w "assistants (update_assistant aid f w)" vs]
    inv_assistants[of w "assistants (update_assistant aid f w)" "assistant_versions w"]
    assistant_table.keys_update[of f aid w]
  by (simp_all add: update_assistant_def flip: set_map)

lemma patched_assistant_id [simp]: "a_id (patched_assistant p n now a) = a_id a"
  by (simp add: patched_assistant_def case_prod_unfold)

lemma restored_assistant_id [simp]: "a_id (restored_assistant v now a) = a_id a"
  by (simp add: restored_assistant_def)

lemma new_assistant_id [simp]: "a_id (new_assistant aid q now) = aid"
  by (simp add: new_assistant_def case_prod_unfold)

lemma version_of_key [simp]: "v_assistant (version_of a now) = a_id a" "v_version (version_of a now) = a_version a"
  by (simp_all add: version_of_def)

lemma assistants_put_inv: "world_inv w \<Longrightarrow> world_inv (snd (assistants_put A G now aid q if_exists w))"
  by (auto simp: assistants_put_def Let_def intro!: attempt_keeps[where P = world_inv] inv_assistants split: option.split)

lemma assistants_patch_inv: "world_inv w \<Longrightarrow> world_inv (snd (assistants_patch A G now aid p w))"
  by (auto simp: assistants_patch_def Let_def intro!: attempt_keeps[where P = world_inv] split: option.split)

lemma assistants_set_latest_inv: "world_inv w \<Longrightarrow> world_inv (snd (assistants_set_latest A now aid n w))"
  by (auto simp: assistants_set_latest_def intro!: attempt_keeps[where P = world_inv] split: option.split)

lemma delete_assistant_rows_inv:
  assumes "world_inv w"
  shows "world_inv (delete_assistant_rows aid w)"
proof -
  have "rows_ok (map t_id (threads w)) (runs w) (thread_ttls w) (filter (\<lambda>c. c_assistant c \<noteq> aid) (crons w))
      (a_id ` set (filter (\<lambda>a. a_id a \<noteq> aid) (assistants w)))"
  proof (rule rows_ok_crons)
    show "rows_ok (map t_id (threads w)) (runs w) (thread_ttls w) (crons w) (a_id ` set (assistants w))"
      using assms by (simp add: world_inv_def)
  qed (use world_inv_cron(1)[OF assms] in fastforce)
  with assms show ?thesis by (simp add: world_inv_def delete_assistant_rows_def)
qed

lemma assistants_delete_inv:
  assumes "base_delete_ok E" and "world_inv w"
  shows "world_inv (snd (assistants_delete E A now ms aid delete_threads w))"
proof -
  have d: "world_inv (snd (if delete_threads then delete_each E A (threads_of_assistant aid w) w else (Inr 0, w)))"
    using delete_each_inv[OF assms] assms(2) by simp
  show ?thesis
    using assms(2) d
    by (auto simp: assistants_delete_def case_prod_unfold runs_cancel_inv delete_assistant_rows_inv
        intro!: attempt_keeps[where P = world_inv] split: option.split)
qed

section \<open>Versions\<close>

definition versions_inv :: "world \<Rightarrow> bool" where
  "versions_inv w \<longleftrightarrow>
     distinct (map a_id (assistants w)) \<and>
     distinct (map (\<lambda>v. (v_assistant v, v_version v)) (assistant_versions w)) \<and>
     v_assistant ` set (assistant_versions w) \<subseteq> a_id ` set (assistants w)"

lemma fold_max_ge: "x \<in> set (v # vs) \<Longrightarrow> x \<le> fold max vs (v::int)"
  using Max.set_eq_fold[of v vs] by (metis List.finite_set Max_ge)

lemma next_version_above:
  assumes "next_version aid w = Inr n" and "v \<in> set (assistant_versions w)" and "v_assistant v = aid"
  shows "v_version v < n"
proof -
  have mem: "v_version v \<in> set (versions_of aid w)" using assms(2,3) by (auto simp: versions_of_def)
  then obtain x xs where xs: "versions_of aid w = x # xs" by (cases "versions_of aid w") auto
  have "assistant_versions w \<noteq> []" using assms(2) by auto
  with assms(1) xs have "n = fold max xs x + 1" by (simp add: next_version_def)
  moreover have "v_version v \<le> fold max xs x" using mem unfolding xs by (rule fold_max_ge)
  ultimately show ?thesis by simp
qed

lemma versions_inv_add:
  assumes "versions_inv w" and "v_assistant v \<in> a_id ` set as" and "distinct (map a_id as)"
    and "a_id ` set (assistants w) \<subseteq> a_id ` set as"
    and "\<And>u. u \<in> set (assistant_versions w) \<Longrightarrow> v_assistant u = v_assistant v \<Longrightarrow> v_version u \<noteq> v_version v"
  shows "versions_inv (w\<lparr>assistants := as, assistant_versions := assistant_versions w @ [v]\<rparr>)"
proof -
  have "(v_assistant v, v_version v) \<notin> (\<lambda>v. (v_assistant v, v_version v)) ` set (assistant_versions w)"
    using assms(5) by fastforce
  moreover have "v_assistant ` set (assistant_versions w) \<subseteq> a_id ` set as"
    using assms(1,4) unfolding versions_inv_def by (blast dest: subset_trans)
  ultimately show ?thesis using assms(1-3) by (simp add: versions_inv_def)
qed

lemma versions_inv_update:
  "(\<And>a. a_id (f a) = a_id a) \<Longrightarrow> versions_inv (update_assistant aid f w) = versions_inv w"
  using assistant_table.keys_update[of f aid w]
  by (simp add: versions_inv_def update_assistant_def flip: set_map)

lemma versions_inv_put:
  assumes inv: "versions_inv w" and known: "if_exists \<in> {''raise'', ''do_nothing''}"
  shows "versions_inv (snd (assistants_put A G now aid q if_exists w))"
proof -
  have "versions_inv (w\<lparr>assistants := assistants w @ [new_assistant aid q now],
      assistant_versions := assistant_versions w @ [version_of (new_assistant aid q now) now]\<rparr>)"
    if "find_assistant aid w = None"
    using that inv by (intro versions_inv_add) (auto simp: versions_inv_def assistant_table.lookup_None)
  with inv known show ?thesis
    by (auto simp: assistants_put_def Let_def intro!: attempt_keeps[where P = versions_inv] split: option.split)
qed

lemma versions_inv_patch:
  assumes inv: "versions_inv w"
  shows "versions_inv (snd (assistants_patch A G now aid p w))"
proof -
  let ?f = "\<lambda>n. patched_assistant p n now"
  have step: "versions_inv ((update_assistant aid (?f n) w)
      \<lparr>assistant_versions := assistant_versions w @ [version_of (?f n a) now]\<rparr>)"
    if n: "next_version aid w = Inr n" and a: "find_assistant aid w = Some a" for n a
  proof -
    have u: "versions_inv (update_assistant aid (?f n) w)" using inv by (simp add: versions_inv_update)
    have "a_id a = aid" "aid \<in> a_id ` set (assistants w)" using assistant_table.lookup_mem[OF a] by auto
    moreover have "a_version (?f n a) = n" by (simp add: patched_assistant_def case_prod_unfold)
    moreover have "map a_id (assistants (update_assistant aid (?f n) w)) = map a_id (assistants w)"
      by (rule assistant_table.keys_update) simp
    then have "a_id ` set (assistants (update_assistant aid (?f n) w)) = a_id ` set (assistants w)"
      by (metis set_map)
    ultimately show ?thesis
      using versions_inv_add[OF u, of "version_of (?f n a) now" "assistants (update_assistant aid (?f n) w)"]
        next_version_above[OF n] u
      by (fastforce simp: versions_inv_def update_assistant_def)
  qed
  from inv show ?thesis
    by (auto simp: assistants_patch_def Let_def step intro!: attempt_keeps[where P = versions_inv] split: option.split)
qed

lemma versions_inv_set_latest: "versions_inv w \<Longrightarrow> versions_inv (snd (assistants_set_latest A now aid n w))"
  by (auto simp: assistants_set_latest_def versions_inv_update intro!: attempt_keeps[where P = versions_inv] split: option.split)

section \<open>Deletion\<close>

text \<open>Operations on threads and runs leave the assistants and their versions alone.\<close>

definition keeps_assistants :: "world \<Rightarrow> world \<Rightarrow> bool" where
  "keeps_assistants w w' \<longleftrightarrow> assistants w' = assistants w \<and> assistant_versions w' = assistant_versions w"

lemma keeps_refl [simp]: "keeps_assistants w w"
  by (simp add: keeps_assistants_def)

lemma keeps_trans: "keeps_assistants w w1 \<Longrightarrow> keeps_assistants w1 w2 \<Longrightarrow> keeps_assistants w w2"
  by (simp add: keeps_assistants_def)

lemma same_keeps_assistants: "same_but_defaults w w' \<Longrightarrow> keeps_assistants w w'"
  by (auto simp: same_but_defaults_def keeps_assistants_def)

lemma keeps_update_thread [simp]: "keeps_assistants w (update_thread tid f w') = keeps_assistants w w'"
  by (simp add: keeps_assistants_def)

lemma keeps_fields [simp]:
  "keeps_assistants w (w'\<lparr>runs := rs\<rparr>) = keeps_assistants w w'"
  "keeps_assistants w (w'\<lparr>streams := sm\<rparr>) = keeps_assistants w w'"
  "keeps_assistants w (w'\<lparr>ckpt_saver := s\<rparr>) = keeps_assistants w w'"
  by (simp_all add: keeps_assistants_def)

lemma threads_delete_keeps: "keeps_assistants w (snd (threads_delete E A tid w))"
proof -
  have "keeps_assistants w (delete_thread_rows E tid w)"
    by (simp add: delete_thread_rows_def keeps_assistants_def)
  then show ?thesis
    by (auto simp: threads_delete_def intro!: attempt_keeps[where P = "keeps_assistants w"] split: option.split)
qed

lemma delete_each_keeps: "keeps_assistants w (snd (delete_each E A tids w))"
proof (induction tids arbitrary: w)
  case Nil
  then show ?case by simp
next
  case (Cons tid tids)
  obtain r w1 where d: "threads_delete E A tid w = (r, w1)" by fastforce
  with threads_delete_keeps[of w E A tid] have k: "keeps_assistants w w1" by simp
  with keeps_trans[OF k Cons] d show ?case
    by (cases r rule: sum.exhaust) (auto simp: case_prod_unfold split: exc.split)
qed

lemma runs_delete_keeps: "keeps_assistants w (snd (runs_delete E A rid tid w))"
proof -
  have "keeps_assistants w (snd (delete_run_row E rid tid w'))" if "keeps_assistants w w'" for w'
    using that by (simp add: delete_run_row_def Let_def)
  then show ?thesis
    using same_keeps_assistants[OF get_with_filters_same]
    by (auto simp: runs_delete_def case_prod_unfold intro!: attempt_keeps[where P = "keeps_assistants w"])
qed

lemma cancel_each_keeps: "keeps_assistants w (snd (snd (cancel_each action now tid is w)))"
proof (induction "is" arbitrary: w)
  case Nil
  then show ?case by simp
next
  case (Cons i "is")
  have "keeps_assistants w (snd (snd (cancel_one action now tid i w)))"
    by (simp add: cancel_one_def Let_def case_prod_unfold)
  from keeps_trans[OF this Cons] show ?case by (simp add: case_prod_unfold)
qed

lemma gather_calls_keeps: "keeps_assistants w (snd (gather_calls E A ms action tid cs w))"
proof (induction cs arbitrary: w)
  case Nil
  then show ?case by simp
next
  case (Cons c cs)
  have "keeps_assistants w (snd (run_call E A ms action tid c w))"
    using runs_delete_keeps by (auto simp: run_call_def case_prod_unfold split: cancel_call.split option.split)
  from keeps_trans[OF this Cons] show ?case by (simp add: case_prod_unfold)
qed

lemma runs_cancel_keeps: "keeps_assistants w (snd (runs_cancel E A now ms run_ids action tid status aid w))"
proof -
  have cands: "keeps_assistants w (snd (cancel_candidates filters run_ids tid statuses aid w))" for filters statuses aid
    using cancel_candidates_same same_keeps_assistants by blast
  note each = keeps_trans[OF cands cancel_each_keeps]
  note all = keeps_trans[OF each gather_calls_keeps]
  show ?thesis
    unfolding runs_cancel_def
    by (auto simp: case_prod_unfold cands each all intro!: attempt_keeps[where P = "keeps_assistants w"])
qed

lemma versions_inv_keeps: "keeps_assistants w w' \<Longrightarrow> versions_inv w' = versions_inv w"
  by (simp add: keeps_assistants_def versions_inv_def)

lemma versions_inv_delete:
  assumes inv: "versions_inv w"
  shows "versions_inv (snd (assistants_delete E A now ms aid delete_threads w))"
proof -
  have rows: "versions_inv (delete_assistant_rows aid w)" if "versions_inv w" for w
    using that by (auto simp: versions_inv_def delete_assistant_rows_def distinct_map_filter)
  have d: "keeps_assistants w (snd (if delete_threads then delete_each E A (threads_of_assistant aid w) w else (Inr 0, w)))"
    by (simp add: delete_each_keeps)
  note c = keeps_trans[OF d runs_cancel_keeps]
  show ?thesis
    using inv rows versions_inv_keeps[OF d] versions_inv_keeps[OF c]
    by (auto simp: assistants_delete_def case_prod_unfold intro!: attempt_keeps[where P = versions_inv] split: option.split)
qed

lemma cancel_assistant_runs:
  assumes "runs_cancel E A now ms None ''interrupt'' None None (Some aid) w = (Inr (), w')"
  obtains f where "A ''threads'' ''update'' None = Inr f" and "same_meta w w'"
    and "runs w' = map (\<lambda>r. if r_assistant r = aid \<and> is_active (r_status r) \<and> may_see f (r_thread r) w
                              then interrupted now r else r) (runs w)"
proof -
  have "''interrupt'' \<noteq> ''rollback''" by simp
  from cancel_succeeds[OF assms this] obtain f statuses where f: "A ''threads'' ''update'' None = Inr f" "same_meta w w'"
    and rows: "runs w' = map (\<lambda>r. if selected f None None statuses (Some aid) w r \<and> is_active (r_status r)
                                    then interrupted now r else r) (runs w)" by blast
  have "selected f None None statuses (Some aid) w r \<and> is_active (r_status r) \<longleftrightarrow>
      r_assistant r = aid \<and> is_active (r_status r) \<and> may_see f (r_thread r) w" for r
    by (auto simp: selected_def is_run_match_def)
  with that[OF f] rows show ?thesis by simp
qed

section \<open>Properties\<close>

text \<open>
  C28. The version history stays a history. Creating, patching, switching and deleting assistants
  keeps assistant ids distinct, the versions of an assistant pairwise distinct, and versions only of
  stored assistants.
\<close>

theorem version_history_preserved:
  assumes "versions_inv w" and "if_exists \<in> {''raise'', ''do_nothing''}"
  shows "versions_inv (snd (assistants_put A G now aid q if_exists w)) \<and>
    versions_inv (snd (assistants_patch A G now aid p w)) \<and>
    versions_inv (snd (assistants_set_latest A now aid n w)) \<and>
    versions_inv (snd (assistants_delete E A now ms aid delete_threads w))"
  using versions_inv_put[OF assms] versions_inv_patch[OF assms(1)] versions_inv_set_latest[OF assms(1)]
    versions_inv_delete[OF assms(1)] by blast

definition demo_request :: "string \<Rightarrow> assistant_request" where
  "demo_request g = \<lparr>aq_graph = g, aq_config = [], aq_context = None, aq_metadata = [], aq_name = ''n'',
     aq_description = None\<rparr>"

definition demo_patch :: "string \<Rightarrow> assistant_patch" where
  "demo_patch g = \<lparr>ap_graph = Some g, ap_config = [], ap_context = None, ap_metadata = [], ap_name = None,
     ap_description = None\<rparr>"

definition any_graph :: "string \<Rightarrow> unit res" where
  "any_graph g = Inr ()"

definition demo_assistant :: "uuid \<Rightarrow> assistant" where
  "demo_assistant aid = new_assistant aid (demo_request ''g'') 3"

definition demo_assistants :: world where
  "demo_assistants = demo_world\<lparr>assistants := [demo_assistant ''a''],
     assistant_versions := [version_of (demo_assistant ''a'') 3]\<rparr>"

lemma demo_assistant_id [simp]: "a_id (demo_assistant aid) = aid"
  by (simp add: demo_assistant_def)

lemma demo_versions_inv: "versions_inv demo_assistants"
  by (simp add: versions_inv_def demo_assistants_def)

theorem version_history_preserved_witness:
  "versions_inv (snd (assistants_patch no_auth any_graph 5 ''a'' (demo_patch ''h'') demo_assistants)) \<and>
   map v_version (assistant_versions (snd (assistants_patch no_auth any_graph 5 ''a'' (demo_patch ''h'') demo_assistants)))
     = [1, 2]"
proof -
  have "map v_version (assistant_versions (snd (assistants_patch no_auth any_graph 5 ''a'' (demo_patch ''h'') demo_assistants)))
      = [1, 2]" by code_simp
  then show ?thesis
    using version_history_preserved[OF demo_versions_inv, of "''raise''" no_auth any_graph 5 "''a''" undefined
        "demo_patch ''h''"] by simp
qed

text \<open>
  C29. A patch appends the next version. A successful patch adds one version row above all earlier
  versions of the assistant, with exactly the fields the assistant now has, and changes no other
  assistant and no earlier version.
\<close>

theorem patch_appends_version:
  assumes "assistants_patch A G now aid p w = (Inr a', w')"
  shows "\<exists>a n. find_assistant aid w = Some a \<and> a' = patched_assistant p n now a \<and>
    find_assistant aid w' = Some a' \<and> (\<forall>b. b \<noteq> aid \<longrightarrow> find_assistant b w' = find_assistant b w) \<and>
    assistant_versions w' = assistant_versions w @ [version_of a' now] \<and>
    (\<forall>v\<in>set (assistant_versions w). v_assistant v = aid \<longrightarrow> v_version v < n)"
proof -
  from assms obtain a n where a: "find_assistant aid w = Some a" and n: "next_version aid w = Inr n"
    and a': "a' = patched_assistant p n now a"
    and w': "w' = (update_assistant aid (patched_assistant p n now) w)
      \<lparr>assistant_versions := assistant_versions w @ [version_of a' now]\<rparr>"
    by (auto simp: assistants_patch_def attempt_def Let_def split: sum.splits option.splits if_splits)
  have f: "find_assistant b w' = find_assistant b (update_assistant aid (patched_assistant p n now) w)" for b
    by (simp add: w' find_assistant_def)
  show ?thesis
    using a a' w' f next_version_above[OF n] assistant_table.lookup_update[of "patched_assistant p n now" _ aid w]
    by (intro exI[of _ a] exI[of _ n]) auto
qed

theorem patch_appends_version_witness:
  "\<exists>a' w'. assistants_patch no_auth any_graph 5 ''a'' (demo_patch ''h'') demo_assistants = (Inr a', w') \<and>
     find_assistant ''a'' w' = Some a'"
proof -
  have "bind_res (fst (assistants_patch no_auth any_graph 5 ''a'' (demo_patch ''h'') demo_assistants)) (\<lambda>a. Inr (a_version a))
      = Inr 2" by code_simp
  then obtain a' w' where r: "assistants_patch no_auth any_graph 5 ''a'' (demo_patch ''h'') demo_assistants = (Inr a', w')"
    by (cases "assistants_patch no_auth any_graph 5 ''a'' (demo_patch ''h'') demo_assistants") (auto simp: res_simps)
  from patch_appends_version[OF r] r show ?thesis by blast
qed

text \<open>
  Switching back does not restore everything. A successful switch to a version gives the
  assistant the configuration, metadata, name, description and number of the stored version, but the
  graph and the context stay those of the version it was at.
\<close>

theorem set_latest_restores:
  assumes "assistants_set_latest A now aid n w = (Inr a', w')"
  shows "\<exists>a v. find_assistant aid w = Some a \<and> v \<in> set (assistant_versions w) \<and> v_assistant v = aid \<and>
    v_version v = n \<and> a_version a' = n \<and> a_config a' = v_config v \<and> a_metadata a' = v_metadata v \<and>
    a_name a' = v_name v \<and> a_description a' = v_description v \<and>
    a_graph a' = a_graph a \<and> a_context a' = a_context a \<and>
    find_assistant aid w' = Some a' \<and> assistant_versions w' = assistant_versions w"
proof -
  from assms obtain a v where a: "find_assistant aid w = Some a"
    and v: "find (\<lambda>v. v_assistant v = aid \<and> v_version v = n) (assistant_versions w) = Some v"
    and a': "a' = restored_assistant v now a" and w': "w' = update_assistant aid (restored_assistant v now) w"
    by (auto simp: assistants_set_latest_def attempt_def split: sum.splits option.splits if_splits)
  have "find_assistant aid w' = Some a'"
    using assistant_table.lookup_update[of "restored_assistant v now" aid aid w] a by (simp add: a' w')
  moreover have "assistant_versions w' = assistant_versions w" by (simp add: w' update_assistant_def)
  ultimately show ?thesis
    using a find_SomeD[OF v] by (intro exI[of _ a] exI[of _ v]) (auto simp: a' restored_assistant_def)
qed

theorem set_latest_restores_witness:
  "let w1 = snd (assistants_patch no_auth any_graph 5 ''a'' (demo_patch ''h'') demo_assistants) in
   \<exists>a' w'. assistants_set_latest no_auth 6 ''a'' 1 w1 = (Inr a', w') \<and> a_version a' = 1 \<and> a_graph a' = ''h''"
proof -
  let ?w1 = "snd (assistants_patch no_auth any_graph 5 ''a'' (demo_patch ''h'') demo_assistants)"
  have "bind_res (fst (assistants_set_latest no_auth 6 ''a'' 1 ?w1)) (\<lambda>a. Inr (a_graph a)) = Inr ''h''" by code_simp
  then obtain a' w' where r: "assistants_set_latest no_auth 6 ''a'' 1 ?w1 = (Inr a', w')" "a_graph a' = ''h''"
    by (cases "assistants_set_latest no_auth 6 ''a'' 1 ?w1") (auto simp: res_simps)
  from set_latest_restores[OF r(1)] r show ?thesis unfolding Let_def by blast
qed

text \<open>
  C30. Deleting an assistant is complete, as far as the caller can see. If \<open>delete\<close> succeeds, for any caller,
  the assistant's row, all its versions and all its crons are gone and other assistants and versions are
  untouched. A run of the assistant is still pending or running only if it is on a thread the caller may not
  see, by the filters the handler answers for updating threads; so for a caller without filters there is none.
\<close>

theorem delete_assistant_complete:
  assumes "assistants_delete E A now ms aid delete_threads w = (Inr d, w')"
  shows "d = aid \<and> assistants w' = filter (\<lambda>a. a_id a \<noteq> aid) (assistants w) \<and>
    assistant_versions w' = filter (\<lambda>v. v_assistant v \<noteq> aid) (assistant_versions w) \<and>
    (\<forall>c\<in>set (crons w'). c_assistant c \<noteq> aid) \<and>
    (\<exists>f. A ''threads'' ''update'' None = Inr f \<and>
       (\<forall>r\<in>set (runs w'). r_assistant r = aid \<and> may_see f (r_thread r) w' \<longrightarrow> \<not> is_active (r_status r)))"
proof -
  define w1 where "w1 = snd (if delete_threads then delete_each E A (threads_of_assistant aid w) w else (Inr 0, w))"
  let ?c = "runs_cancel E A now ms None ''interrupt'' None None (Some aid) w1"
  have w': "d = aid" "w' = delete_assistant_rows aid (snd ?c)" "fst ?c = Inr ()"
    using assms
    by (auto simp: assistants_delete_def attempt_def case_prod_unfold w1_def split: sum.splits option.splits if_splits)
  have "keeps_assistants w w1" unfolding w1_def by (simp add: delete_each_keeps)
  from keeps_trans[OF this runs_cancel_keeps]
  have kept: "assistants (snd ?c) = assistants w" "assistant_versions (snd ?c) = assistant_versions w"
    by (simp_all add: keeps_assistants_def)
  have "?c = (Inr (), snd ?c)" using w'(3) by (metis prod.collapse)
  from cancel_assistant_runs[OF this] obtain f where f: "A ''threads'' ''update'' None = Inr f" "same_meta w1 (snd ?c)"
    and rows: "runs (snd ?c) = map (\<lambda>r. if r_assistant r = aid \<and> is_active (r_status r) \<and> may_see f (r_thread r) w1
                                        then interrupted now r else r) (runs w1)" by blast
  have "same_meta w1 w'" using f(2) by (simp add: same_meta_def w' delete_assistant_rows_def)
  note sees = may_see_same[OF this]
  have "\<not> is_active (r_status r)" if r: "r \<in> set (runs (snd ?c))" "r_assistant r = aid" "may_see f (r_thread r) w'" for r
  proof -
    from r(1) obtain r0 where r0: "r = (if r_assistant r0 = aid \<and> is_active (r_status r0) \<and> may_see f (r_thread r0) w1
        then interrupted now r0 else r0)"
      unfolding rows set_map by (elim imageE)
    with r(2,3) show ?thesis
      by (cases "is_active (r_status r0) \<and> may_see f (r_thread r0) w1") (auto simp: interrupted_def is_active_def sees)
  qed
  with f(1) kept show ?thesis by (auto simp: w' delete_assistant_rows_def)
qed

text \<open>A caller who may update the threads of one owner only.\<close>

definition demo_caller :: auth where
  "demo_caller = (\<lambda>resource action subject.
     Inr (if resource = ''threads'' \<and> action = ''update'' then PDict [(''owner'', PStr ''me'')] else PNone))"

definition demo_shared :: world where
  "demo_shared = demo_assistants
     \<lparr>threads := [(demo_thread ''t'' ''busy'')\<lparr>t_metadata := [(''owner'', PStr ''me'')]\<rparr>, demo_thread ''u'' ''busy'']\<rparr>"

lemma demo_delete:
  "assistants_delete demo_env demo_caller 9 1 ''a'' False demo_shared = (Inr ''a'', delete_assistant_rows ''a''
     (snd (runs_cancel demo_env demo_caller 9 1 None ''interrupt'' None None (Some ''a'') demo_shared)))"
proof -
  have "fst (runs_cancel demo_env demo_caller 9 1 None ''interrupt'' None None (Some ''a'') demo_shared) = Inr ()" by code_simp
  moreover have "find_assistant ''a'' demo_shared = Some (demo_assistant ''a'')"
    by (simp add: demo_shared_def demo_assistants_def find_assistant_def)
  moreover have "demo_caller ''assistants'' ''delete'' s = Inr PNone" for s by (simp add: demo_caller_def)
  ultimately show ?thesis by (simp add: assistants_delete_def case_prod_unfold)
qed

theorem delete_assistant_complete_witness:
  "\<exists>w'. assistants_delete demo_env demo_caller 9 1 ''a'' False demo_shared = (Inr ''a'', w') \<and> assistants w' = [] \<and>
     map (\<lambda>r. (r_id r, r_status r)) (runs w') =
       [(Some ''r1'', ''interrupted''), (Some ''r3'', ''pending''), (Some ''r2'', ''interrupted'')]"
proof -
  let ?w = "snd (runs_cancel demo_env demo_caller 9 1 None ''interrupt'' None None (Some ''a'') demo_shared)"
  have "map (\<lambda>r. (r_id r, r_status r)) (runs ?w) =
      [(Some ''r1'', ''interrupted''), (Some ''r3'', ''pending''), (Some ''r2'', ''interrupted'')]"
    by code_simp
  then have runs: "map (\<lambda>r. (r_id r, r_status r)) (runs (delete_assistant_rows ''a'' ?w)) =
      [(Some ''r1'', ''interrupted''), (Some ''r3'', ''pending''), (Some ''r2'', ''interrupted'')]"
    by (simp add: delete_assistant_rows_def)
  have "assistants (delete_assistant_rows ''a'' ?w) = filter (\<lambda>a. a_id a \<noteq> ''a'') (assistants demo_shared)"
    using delete_assistant_complete[OF demo_delete] by blast
  also have "\<dots> = []" by (simp add: demo_shared_def demo_assistants_def)
  finally have "assistants (delete_assistant_rows ''a'' ?w) = []" .
  with runs show ?thesis by (intro exI[of _ "delete_assistant_rows ''a'' ?w"] conjI demo_delete)
qed

text \<open>
  The runs the caller may not see outlive the assistant they belong to, and can still be handed out.
\<close>

theorem hidden_runs_outlive_assistant:
  assumes "assistants_delete E A now ms aid False w = (Inr d, w')" and "A ''threads'' ''update'' None = Inr f"
    and "r \<in> set (runs w)" and "r_assistant r = aid" and "\<not> may_see f (r_thread r) w"
  shows "r \<in> set (runs w') \<and> find_assistant aid w' = None"
proof -
  let ?c = "runs_cancel E A now ms None ''interrupt'' None None (Some aid) w"
  have w': "w' = delete_assistant_rows aid (snd ?c)" "fst ?c = Inr ()"
    using assms(1)
    by (auto simp: assistants_delete_def attempt_def case_prod_unfold split: sum.splits option.splits if_splits)
  have "?c = (Inr (), snd ?c)" using w'(2) by (metis prod.collapse)
  from cancel_assistant_runs[OF this] obtain f' where f': "A ''threads'' ''update'' None = Inr f'"
    and rows: "runs (snd ?c) = map (\<lambda>r. if r_assistant r = aid \<and> is_active (r_status r) \<and> may_see f' (r_thread r) w
                                        then interrupted now r else r) (runs w)" by blast
  have "f' = f" using f' assms(2) by simp
  with rows assms(3,5) have "r \<in> set (runs (snd ?c))" by force
  then show ?thesis by (auto simp: w'(1) delete_assistant_rows_def assistant_table.lookup_None)
qed

theorem hidden_runs_outlive_assistant_witness:
  "find_assistant ''a'' (snd (assistants_delete demo_env demo_caller 9 1 ''a'' False demo_shared)) = None"
proof -
  have f: "demo_caller ''threads'' ''update'' None = Inr (PDict [(''owner'', PStr ''me'')])" by (simp add: demo_caller_def)
  have u: "demo_run ''r3'' ''u'' ''pending'' 3 \<in> set (runs demo_shared)"
    by (simp add: demo_shared_def demo_assistants_def demo_world_def)
  have "check_filter_match [] (PDict [(''owner'', PStr ''me'')]) = Inr False" by code_simp
  then have "\<not> may_see (PDict [(''owner'', PStr ''me'')]) (r_thread (demo_run ''r3'' ''u'' ''pending'' 3)) demo_shared"
    by (simp add: may_see_def demo_shared_def find_thread_def demo_thread_def demo_run_def)
  from hidden_runs_outlive_assistant[OF demo_delete f u _ this] show ?thesis
    unfolding demo_delete snd_conv by (simp add: demo_run_def)
qed

text \<open>
  A restart duplicates versions. Start-up removes a system assistant but not its versions, so
  registering the assistant again adds a second row with version 1: whatever looks for version 1
  then finds the older row.
\<close>

lemma drop_alternate_head: "P x \<Longrightarrow> set (drop_alternate P (x # xs)) \<subseteq> set xs"
proof -
  have sub: "set (drop_alternate P ys) \<subseteq> set ys" for ys by (induction P ys rule: drop_alternate.induct) auto
  assume "P x"
  then show ?thesis using sub by (cases xs) auto
qed

lemma start_pool_head_gone:
  assumes "assistants w = a # rest" and "created_by_system (a_metadata a)" and "a_id a \<notin> a_id ` set rest"
  shows "find_assistant (a_id a) (start_pool w) = None"
proof -
  have "assistants (start_pool w) = drop_alternate (\<lambda>a. created_by_system (a_metadata a)) (a # rest)"
    using remove_while_iterating_prefix[of "\<lambda>a. created_by_system (a_metadata a)" "[]" "a # rest"] assms(1)
    by (simp add: start_pool_def)
  then have "set (assistants (start_pool w)) \<subseteq> set rest"
    using drop_alternate_head[of "\<lambda>a. created_by_system (a_metadata a)" a rest] assms(2) by simp
  with assms(3) show ?thesis by (auto simp: assistant_table.lookup_None)
qed

theorem restart_duplicates_version:
  assumes "assistants w = a # rest" and "created_by_system (a_metadata a)" and "a_id a \<notin> a_id ` set rest"
    and "v \<in> set (assistant_versions w)" and "v_assistant v = a_id a" and "v_version v = 1"
    and "G (aq_graph q) = Inr ()" and "\<not> context_clash (aq_config q) (aq_context q)"
  shows "let w' = snd (assistants_put no_auth G now (a_id a) q ''do_nothing'' (start_pool w))
    in find (\<lambda>v. v_assistant v = a_id a \<and> v_version v = 1) (assistant_versions w') =
         find (\<lambda>v. v_assistant v = a_id a \<and> v_version v = 1) (assistant_versions w) \<and>
       2 \<le> length (filter (\<lambda>v. v_assistant v = a_id a \<and> v_version v = 1) (assistant_versions w'))"
proof -
  let ?P = "\<lambda>v. v_assistant v = a_id a \<and> v_version v = 1"
  define new where "new = new_assistant (a_id a) q now"
  have vs: "assistant_versions (snd (assistants_put no_auth G now (a_id a) q ''do_nothing'' (start_pool w))) =
      assistant_versions w @ [version_of new now]"
    using start_pool_head_gone[OF assms(1,2,3)] assms(7,8)
    by (simp add: assistants_put_def no_auth_def Let_def new_def start_pool_def)
  have new: "?P (version_of new now)" by (simp add: new_def) (simp add: new_assistant_def case_prod_unfold)
  have "v \<in> set (filter ?P (assistant_versions w))" using assms(4-6) by simp
  then have "1 \<le> length (filter ?P (assistant_versions w))" by (cases "filter ?P (assistant_versions w)") auto
  moreover have "find ?P (xs @ ys) = find ?P xs" if "v \<in> set xs" for xs ys :: "assistant_version list"
    using that assms(5,6) by (induction xs) auto
  ultimately show ?thesis using new assms(4) by (simp add: vs Let_def)
qed

definition system_world :: world where
  "system_world = world_init
     \<lparr>assistants := [(demo_assistant ''a'')\<lparr>a_metadata := [(''created_by'', PStr ''system'')]\<rparr>],
      assistant_versions := [version_of (demo_assistant ''a'') 3]\<rparr>"

theorem restart_duplicates_version_witness:
  "2 \<le> length (filter (\<lambda>v. v_assistant v = ''a'' \<and> v_version v = 1)
     (assistant_versions (snd (assistants_put no_auth any_graph 9 ''a'' (demo_request ''g'') ''do_nothing'' (start_pool system_world)))))"
proof -
  let ?a = "(demo_assistant ''a'')\<lparr>a_metadata := [(''created_by'', PStr ''system'')]\<rparr>"
  have 1: "assistants system_world = ?a # []" by (simp add: system_world_def)
  have 2: "created_by_system (a_metadata ?a)" by (simp add: created_by_system_def)
  have 3: "version_of (demo_assistant ''a'') 3 \<in> set (assistant_versions system_world)" by (simp add: system_world_def)
  have 4: "v_version (version_of (demo_assistant ''a'') 3) = 1"
    by (simp add: demo_assistant_def new_assistant_def case_prod_unfold)
  have 5: "any_graph (aq_graph (demo_request ''g'')) = Inr ()" by (simp add: any_graph_def)
  have 6: "\<not> context_clash (aq_config (demo_request ''g'')) (aq_context (demo_request ''g''))"
    by (simp add: context_clash_def demo_request_def get_configurable_def dict_item_def)
  show ?thesis
    using restart_duplicates_version[of system_world ?a "[]" "version_of (demo_assistant ''a'') 3" any_graph
        "demo_request ''g''" 9] 1 2 3 4 5 6
    by (simp add: Let_def)
qed

end
