(* ===== verification/Crons.thy ===== *)
theory Crons
  imports Assistants_Props
begin

text \<open>
  The class \<open>Crons\<close> of \<open>ops.py\<close>: creation with its authorization and existence checks, update,
  lookup, deletion, the crons that are due, search and count. The cron library and the API server's
  helpers are parameters (\<open>cron_env\<close>): whether a schedule is valid, its next date after a time in a
  time zone (which may raise), the assistant a payload names, and the ids of system assistants.
\<close>

section \<open>Parameters and rows\<close>

record cron_env =
  schedule_valid :: "string \<Rightarrow> bool"
  next_cron_date :: "string \<Rightarrow> time \<Rightarrow> string option \<Rightarrow> time res"
  get_assistant_id :: "pyval \<Rightarrow> uuid res"
  system_assistant_ids :: "uuid list"

definition find_cron :: "uuid \<Rightarrow> world \<Rightarrow> cron option" where
  "find_cron cid w = find (\<lambda>c. c_id c = cid) (crons w)"

definition update_cron :: "uuid \<Rightarrow> (cron \<Rightarrow> cron) \<Rightarrow> world \<Rightarrow> world" where
  "update_cron cid f w = w\<lparr>crons := update_first (\<lambda>c. c_id c = cid) f (crons w)\<rparr>"

interpretation cron_table: row_table c_id find_cron update_cron crons
  by unfold_locales (simp_all add: find_cron_def update_cron_def)

definition check_schedule :: "cron_env \<Rightarrow> string \<Rightarrow> unit res" where
  "check_schedule C schedule = (if schedule_valid C schedule then Inr () else Inl (HTTPException 422))"

text \<open>
  The cron id is kept in the payload's \<open>config.configurable\<close>; \<open>config\<close> and \<open>configurable\<close> are
  objects or absent.
\<close>

definition set_cron_id :: "uuid \<Rightarrow> pdict \<Rightarrow> pdict" where
  "set_cron_id cid payload =
     (let config = dict_item payload ''config''; configurable = dict_item config ''configurable''
      in AList.update ''config''
           (PDict (AList.update ''configurable'' (PDict (AList.update ''cron_id'' (PStr cid) configurable)) config))
           payload)"

section \<open>Creation\<close>

text \<open>\<open>cq_thread\<close>: \<open>None\<close> without a thread, \<open>Some None\<close> for a text that is not a UUID.\<close>

record cron_request =
  cq_payload :: pdict
  cq_schedule :: string
  cq_thread :: "uuid option option"
  cq_on_completed :: "string option"
  cq_end_time :: "time option"
  cq_metadata :: pdict
  cq_enabled :: bool
  cq_timezone :: "string option"
  cq_user :: "string option"

definition request_thread :: "cron_request \<Rightarrow> uuid option res" where
  "request_thread q =
     (case cq_thread q of
        None \<Rightarrow> Inr None
      | Some None \<Rightarrow> Inl (HTTPException 422)
      | Some (Some t) \<Rightarrow> Inr (Some t))"

definition on_run_completed :: "uuid option \<Rightarrow> string option \<Rightarrow> string option" where
  "on_run_completed tid choice =
     (case tid of
        Some _ \<Rightarrow> None
      | None \<Rightarrow> (case choice of None \<Rightarrow> Some ''delete'' | Some s \<Rightarrow> Some (if s = [] then ''delete'' else s)))"

text \<open>The assistant of a payload, if the caller may read it.\<close>

definition cron_assistant :: "cron_env \<Rightarrow> auth \<Rightarrow> pdict \<Rightarrow> world \<Rightarrow> uuid res" where
  "cron_assistant C A payload w =
     bind_res (case map_of payload ''assistant_id'' of None \<Rightarrow> Inl key_error | Some v \<Rightarrow> get_assistant_id C v) (\<lambda>aid.
     bind_res (if aid \<in> set (system_assistant_ids C) then Inr (PList []) else A ''assistants'' ''read'' (Some aid)) (\<lambda>filters.
       case find_assistant aid w of
         None \<Rightarrow> Inl (HTTPException 404)
       | Some a \<Rightarrow> bind_res (passes filters (a_metadata a)) (\<lambda>ok.
           if ok then Inr aid else Inl (HTTPException 404))))"

definition cron_thread_ok :: "auth \<Rightarrow> uuid option \<Rightarrow> world \<Rightarrow> unit res" where
  "cron_thread_ok A tid w =
     (case tid of
        None \<Rightarrow> Inr ()
      | Some t \<Rightarrow>
          bind_res (A ''threads'' ''read'' (Some t)) (\<lambda>filters.
            case find_thread t w of
              None \<Rightarrow> Inl (HTTPException 404)
            | Some row \<Rightarrow> bind_res (passes filters (t_metadata row)) (\<lambda>ok.
                if ok then Inr () else Inl (HTTPException 404))))"

definition new_cron :: "cron_request \<Rightarrow> uuid \<Rightarrow> uuid option \<Rightarrow> uuid \<Rightarrow> time \<Rightarrow> time \<Rightarrow> cron" where
  "new_cron q cid tid aid next now =
     \<lparr>c_id = cid, c_assistant = aid, c_thread = tid, c_user = cq_user q, c_end_time = cq_end_time q,
      c_schedule = cq_schedule q, c_timezone = cq_timezone q,
      c_payload = AList.update ''assistant_id'' (PStr aid) (set_cron_id cid (cq_payload q)),
      c_next_run = next, c_metadata = cq_metadata q,
      c_on_completed = on_run_completed tid (cq_on_completed q), c_enabled = cq_enabled q,
      c_created = now, c_updated = now\<rparr>"

definition crons_put :: "cron_env \<Rightarrow> auth \<Rightarrow> time \<Rightarrow> uuid \<Rightarrow> cron_request \<Rightarrow> world \<Rightarrow> cron option res \<times> world" where
  "crons_put C A now cid q w =
     attempt (request_thread q) w (\<lambda>tid.
     attempt (A ''crons'' ''create'' (Some cid)) w (\<lambda>filters.
     attempt (check_schedule C (cq_schedule q)) w (\<lambda>_.
     attempt (cron_assistant C A (set_cron_id cid (cq_payload q)) w) w (\<lambda>aid.
     attempt (cron_thread_ok A tid w) w (\<lambda>_.
     case find_cron cid w of
       Some c \<Rightarrow> attempt (passes filters (c_metadata c)) w (\<lambda>ok. (Inr (if ok then Some c else None), w))
     | None \<Rightarrow> attempt (next_cron_date C (cq_schedule q) now (cq_timezone q)) w (\<lambda>next.
         (let c = new_cron q cid tid aid next now in (Inr (Some c), w\<lparr>crons := crons w @ [c]\<rparr>))))))))"

section \<open>Update\<close>

record cron_update =
  cu_schedule :: "string option"
  cu_end_time :: "time option"
  cu_clear_end_time :: bool
  cu_enabled :: "bool option"
  cu_on_completed :: "string option"
  cu_payload :: "pdict option"
  cu_metadata :: "pdict option"
  cu_timezone :: "string option"

definition has_updates :: "cron_update \<Rightarrow> bool" where
  "has_updates u \<longleftrightarrow> cu_clear_end_time u \<or> cu_schedule u \<noteq> None \<or> cu_end_time u \<noteq> None \<or> cu_enabled u \<noteq> None \<or>
     cu_on_completed u \<noteq> None \<or> cu_payload u \<noteq> None \<or> cu_metadata u \<noteq> None \<or> cu_timezone u \<noteq> None"

text \<open>
  The first half of the update: time zone, schedule and next date. It works on the stored row, so
  what it changed before an exception stays changed.
\<close>

definition reschedule :: "cron_env \<Rightarrow> time \<Rightarrow> cron_update \<Rightarrow> cron \<Rightarrow> unit res \<times> cron" where
  "reschedule C now u c =
     (let c1 = (case cu_timezone u of None \<Rightarrow> c | Some tz \<Rightarrow> c\<lparr>c_timezone := Some tz\<rparr>)
      in case cu_schedule u of
           Some s \<Rightarrow>
             (case check_schedule C s of
                Inl e \<Rightarrow> (Inl e, c1)
              | Inr _ \<Rightarrow>
                  (let c2 = c1\<lparr>c_schedule := s\<rparr>
                   in case next_cron_date C s now (c_timezone c2) of
                        Inl e \<Rightarrow> (Inl e, c2)
                      | Inr next \<Rightarrow> (Inr (), c2\<lparr>c_next_run := next\<rparr>)))
         | None \<Rightarrow>
             (case cu_timezone u of
                None \<Rightarrow> (Inr (), c1)
              | Some tz \<Rightarrow>
                  (case next_cron_date C (c_schedule c1) now (Some tz) of
                     Inl e \<Rightarrow> (Inl e, c1)
                   | Inr next \<Rightarrow> (Inr (), c1\<lparr>c_next_run := next\<rparr>))))"

definition merged_payload :: "uuid \<Rightarrow> pdict \<Rightarrow> pdict \<Rightarrow> pdict" where
  "merged_payload cid existing payload =
     (let merged = dict_merge existing payload;
          aid = dget_default existing ''assistant_id'' (item_or_none merged ''assistant_id'')
      in set_cron_id cid (AList.update ''assistant_id'' aid merged))"

definition finish_update :: "time \<Rightarrow> cron_update \<Rightarrow> cron \<Rightarrow> cron" where
  "finish_update now u c =
     c\<lparr>c_end_time := (if cu_clear_end_time u then None
                     else case cu_end_time u of None \<Rightarrow> c_end_time c | Some t \<Rightarrow> Some t),
       c_enabled := the_default (c_enabled c) (cu_enabled u),
       c_on_completed := (case cu_on_completed u of None \<Rightarrow> c_on_completed c | Some s \<Rightarrow> Some s),
       c_metadata := (case cu_metadata u of None \<Rightarrow> c_metadata c | Some m \<Rightarrow> dict_merge (c_metadata c) m),
       c_payload := (case cu_payload u of None \<Rightarrow> c_payload c | Some p \<Rightarrow> merged_payload (c_id c) (c_payload c) p),
       c_updated := now\<rparr>"

definition crons_modify :: "cron_env \<Rightarrow> auth \<Rightarrow> time \<Rightarrow> uuid \<Rightarrow> cron_update \<Rightarrow> world \<Rightarrow> cron res \<times> world" where
  "crons_modify C A now cid u w =
     attempt (A ''crons'' ''update'' (Some cid)) w (\<lambda>filters.
       if \<not> has_updates u then (Inl (HTTPException 400), w)
       else case find_cron cid w of
         None \<Rightarrow> (Inl (HTTPException 404), w)
       | Some c \<Rightarrow> attempt (passes filters (c_metadata c)) w (\<lambda>ok.
           if \<not> ok then (Inl (HTTPException 404), w)
           else case reschedule C now u c of (res, c1) \<Rightarrow>
             attempt res (update_cron cid (\<lambda>_. c1) w) (\<lambda>_.
               (Inr (finish_update now u c1), update_cron cid (\<lambda>_. finish_update now u c1) w))))"

section \<open>Lookup, deletion, due crons\<close>

definition crons_get :: "auth \<Rightarrow> uuid \<Rightarrow> world \<Rightarrow> cron list res" where
  "crons_get A cid w =
     bind_res (A ''crons'' ''read'' (Some cid)) (\<lambda>filters.
       filter_res (\<lambda>c. if c_id c = cid then passes filters (c_metadata c) else Inr False) (crons w))"

definition crons_delete :: "auth \<Rightarrow> uuid \<Rightarrow> world \<Rightarrow> uuid option res \<times> world" where
  "crons_delete A cid w =
     attempt (A ''crons'' ''delete'' (Some cid)) w (\<lambda>filters.
     attempt (filter_res (\<lambda>c. if c_id c = cid then bind_res (passes filters (c_metadata c)) (\<lambda>ok. Inr (\<not> ok))
                              else Inr True) (crons w)) w (\<lambda>kept.
       (Inr (if length kept < length (crons w) then Some cid else None), w\<lparr>crons := kept\<rparr>)))"

definition crons_next :: "time \<Rightarrow> world \<Rightarrow> cron list" where
  "crons_next now w =
     filter (\<lambda>c. c_enabled c \<and> \<not> (case c_end_time c of None \<Rightarrow> False | Some t \<Rightarrow> t < now) \<and> \<not> now < c_next_run c) (crons w)"

definition crons_set_next_run_date :: "uuid \<Rightarrow> time \<Rightarrow> world \<Rightarrow> world" where
  "crons_set_next_run_date cid next w = update_cron cid (\<lambda>c. c\<lparr>c_next_run := next\<rparr>) w"

section \<open>Search\<close>

definition cron_matches ::
  "pyval \<Rightarrow> uuid option \<Rightarrow> uuid option \<Rightarrow> bool option \<Rightarrow> pdict \<Rightarrow> cron \<Rightarrow> bool res" where
  "cron_matches filters aid tid enabled metadata c =
     (if (aid \<noteq> None \<and> aid \<noteq> Some (c_assistant c)) \<or> (tid \<noteq> None \<and> tid \<noteq> c_thread c) \<or>
         (enabled \<noteq> None \<and> enabled \<noteq> Some (c_enabled c)) then Inr False
      else bind_res (if metadata = [] then Inr True else is_jsonb_contained (PDict (c_metadata c)) metadata) (\<lambda>ok.
        if \<not> ok then Inr False else passes filters (c_metadata c)))"

text \<open>The filters of the thread a cron runs on; a cron without thread is exempt.\<close>

definition cron_thread_visible :: "pyval \<Rightarrow> world \<Rightarrow> cron \<Rightarrow> bool res" where
  "cron_thread_visible filters w c =
     (case c_thread c of
        None \<Rightarrow> Inr True
      | Some t \<Rightarrow> check_filter_match (case find_thread t w of None \<Rightarrow> [] | Some row \<Rightarrow> t_metadata row) filters)"

definition visible_crons ::
  "auth \<Rightarrow> uuid option \<Rightarrow> uuid option \<Rightarrow> bool option \<Rightarrow> pdict \<Rightarrow> world \<Rightarrow> cron list res" where
  "visible_crons A aid tid enabled metadata w =
     bind_res (A ''crons'' ''search'' None) (\<lambda>filters.
     bind_res (case tid of None \<Rightarrow> A ''threads'' ''search'' None | Some t \<Rightarrow> A ''threads'' ''read'' (Some t)) (\<lambda>thread_filters.
     bind_res (filter_res (cron_matches filters aid tid enabled metadata) (crons w)) (\<lambda>cs.
       if truthy thread_filters then filter_res (cron_thread_visible thread_filters w) cs else Inr cs)))"

definition cron_time_columns :: "string list" where
  "cron_time_columns = [''next_run_date'', ''end_time'', ''created_at'', ''updated_at'']"

definition cron_text_columns :: "string list" where
  "cron_text_columns = [''cron_id'', ''assistant_id'', ''thread_id'']"

definition cron_text_key :: "string \<Rightarrow> cron \<Rightarrow> string" where
  "cron_text_key sort_by c =
     str_lower (if sort_by = ''cron_id'' then c_id c else if sort_by = ''assistant_id'' then c_assistant c
                else opt_str (c_thread c))"

definition cron_time_key :: "string \<Rightarrow> cron \<Rightarrow> time" where
  "cron_time_key sort_by c =
     (if sort_by = ''next_run_date'' then c_next_run c
      else if sort_by = ''end_time'' then (case c_end_time c of None \<Rightarrow> datetime_min | Some t \<Rightarrow> t)
      else if sort_by = ''created_at'' then c_created c else c_updated c)"

definition sort_crons :: "string option \<Rightarrow> string option \<Rightarrow> cron list \<Rightarrow> cron list res" where
  "sort_crons sort_by sort_order cs =
     (case sort_by of
        None \<Rightarrow> Inr (py_sorted c_created True cs)
      | Some s \<Rightarrow>
          if s = [] then Inr (py_sorted c_created True cs)
          else if str_lower s \<in> set cron_text_columns
               then Inr (py_sorted (cron_text_key (str_lower s)) (\<not> is_ascending sort_order) cs)
          else if str_lower s \<in> set cron_time_columns
               then Inr (py_sorted (cron_time_key (str_lower s)) (\<not> is_ascending sort_order) cs)
          else Inl (HTTPException 422))"

text \<open>One row more than the page is fetched to know whether there is a next page.\<close>

definition cron_page :: "nat \<Rightarrow> nat \<Rightarrow> cron list \<Rightarrow> cron list \<times> nat option" where
  "cron_page offset limit cs =
     (let p = py_slice offset (limit + 1) cs
      in if limit < length p then (take limit p, Some (offset + limit)) else (p, None))"

definition crons_search ::
  "auth \<Rightarrow> uuid option \<Rightarrow> uuid option \<Rightarrow> bool option \<Rightarrow> pdict \<Rightarrow> nat \<Rightarrow> nat \<Rightarrow> string option \<Rightarrow> string option \<Rightarrow>
   world \<Rightarrow> (cron list \<times> nat option) res" where
  "crons_search A aid tid enabled metadata limit offset sort_by sort_order w =
     bind_res (visible_crons A aid tid enabled metadata w) (\<lambda>cs.
     bind_res (sort_crons sort_by sort_order cs) (\<lambda>cs. Inr (cron_page offset limit cs)))"

definition crons_count :: "auth \<Rightarrow> uuid option \<Rightarrow> uuid option \<Rightarrow> pdict \<Rightarrow> world \<Rightarrow> nat res" where
  "crons_count A aid tid metadata w =
     bind_res (visible_crons A aid tid None metadata w) (\<lambda>cs. Inr (length cs))"

end
