(* ===== verification/State.thy ===== *)
theory State
  imports Crons_Props
begin

text \<open>
  The class \<open>Threads.State\<close> of \<open>ops.py\<close>: reading a thread's state and its history, and adding state to a
  thread, one update or a batch. Executing a graph (\<open>get_graph\<close> and the methods of the graph it yields)
  is outside \<open>src/\<close> and a parameter (\<open>graph_env\<close>): it reads the saver, an update also changes it.
  Also the authorization checks of the stream endpoints. Graph ids are texts.
\<close>

section \<open>Parameters\<close>

record snapshot =
  sn_values :: pyval
  sn_next :: "string list"
  sn_tasks :: "(string \<times> pyval list) list"
  sn_metadata :: "pdict option"
  sn_config :: "pdict option"

definition empty_snapshot :: snapshot where
  "empty_snapshot = \<lparr>sn_values = PDict [], sn_next = [], sn_tasks = [], sn_metadata = None, sn_config = None\<rparr>"

text \<open>
  The first arguments of a graph operation are the graph id, the thread's configuration for loading it,
  and the request's configuration.
\<close>

record graph_env =
  get_state :: "string \<Rightarrow> pdict \<Rightarrow> pdict \<Rightarrow> bool \<Rightarrow> saver \<Rightarrow> snapshot res"
  update_state :: "string \<Rightarrow> pdict \<Rightarrow> pdict \<Rightarrow> pyval \<Rightarrow> string option \<Rightarrow> saver \<Rightarrow> pdict res \<times> saver"
  bulk_update :: "string \<Rightarrow> pdict \<Rightarrow> pdict \<Rightarrow> (pyval \<times> pyval) list list \<Rightarrow> saver \<Rightarrow> pdict res \<times> saver"
  state_history :: "string \<Rightarrow> pdict \<Rightarrow> pdict \<Rightarrow> nat \<Rightarrow> pdict option \<Rightarrow> pdict option \<Rightarrow> saver \<Rightarrow> snapshot list res"
  map_cmd :: "pyval \<Rightarrow> pyval"
  state_message :: "snapshot \<Rightarrow> uuid \<Rightarrow> string"
  encode_event :: "string \<Rightarrow> string \<Rightarrow> string"
  patch_interrupt :: "pyval \<Rightarrow> pyval"

section \<open>Configurations\<close>

definition config_thread :: "pdict \<Rightarrow> uuid res" where
  "config_thread config =
     (case map_of (get_configurable config) ''thread_id'' of Some (PStr t) \<Rightarrow> Inr t | _ \<Rightarrow> Inl key_error)"

definition merge_config :: "pdict \<Rightarrow> pdict \<Rightarrow> pdict" where
  "merge_config thread_config config =
     AList.update ''configurable'' (PDict (dict_merge (get_configurable thread_config) (get_configurable config))) thread_config"

text \<open>\<open>config["configurable"].setdefault(k, v)\<close>.\<close>

definition default_configurable :: "string \<Rightarrow> pyval \<Rightarrow> pdict \<Rightarrow> pdict" where
  "default_configurable k v config =
     AList.update ''configurable''
       (PDict (if map_of (get_configurable config) k = None then AList.update k v (get_configurable config)
               else get_configurable config)) config"

definition metadata_graph :: "pdict \<Rightarrow> string option" where
  "metadata_graph metadata = (case map_of metadata ''graph_id'' of Some (PStr g) \<Rightarrow> if g = [] then None else Some g | _ \<Rightarrow> None)"

text \<open>The graph of the thread's metadata, else of its first run.\<close>

definition thread_graph :: "pdict \<Rightarrow> uuid \<Rightarrow> world \<Rightarrow> string option res" where
  "thread_graph metadata tid w =
     (case metadata_graph metadata of
        Some g \<Rightarrow> Inr (Some g)
      | None \<Rightarrow>
          (case find (\<lambda>r. r_thread r = tid) (runs w) of
             None \<Rightarrow> Inr None
           | Some r \<Rightarrow>
               (case map_of (dict_item (dict_item (r_kwargs r) ''config'') ''configurable'') ''graph_id'' of
                  None \<Rightarrow> Inl key_error
                | Some (PStr g) \<Rightarrow> Inr (if g = [] then None else Some g)
                | Some _ \<Rightarrow> Inr None)))"

section \<open>Reading\<close>

definition clean_metadata :: "snapshot \<Rightarrow> snapshot" where
  "clean_metadata s =
     (case sn_metadata s of
        None \<Rightarrow> s
      | Some m \<Rightarrow> if map_of m ''checkpoint_ns'' = Some (PStr []) then s\<lparr>sn_metadata := Some (AList.delete ''checkpoint_ns'' m)\<rparr> else s)"

definition state_get :: "auth \<Rightarrow> api_config \<Rightarrow> graph_env \<Rightarrow> pdict \<Rightarrow> bool \<Rightarrow> world \<Rightarrow> snapshot res \<times> world" where
  "state_get A cfg G config subgraphs w =
     attempt (config_thread config) w (\<lambda>tid.
     case threads_get cfg A tid False w of (found, w1) \<Rightarrow>
     attempt found w1 (\<lambda>(t, _).
     attempt (thread_graph (t_metadata t) tid w1) w1 (\<lambda>graph.
       case graph of
         None \<Rightarrow> (Inr empty_snapshot, w1)
       | Some g \<Rightarrow>
           (bind_res (get_state G g (merge_config (t_config t) config) config subgraphs (ckpt_saver w1)) (\<lambda>s.
              Inr (clean_metadata s)), w1))))"

definition before_param :: "pyval option \<Rightarrow> pdict option" where
  "before_param before =
     (case before of
        Some (PStr s) \<Rightarrow> Some [(''configurable'', PDict [(''checkpoint_id'', PStr s)])]
      | Some (PDict d) \<Rightarrow> Some d
      | _ \<Rightarrow> None)"

definition state_list ::
  "auth \<Rightarrow> api_config \<Rightarrow> graph_env \<Rightarrow> pdict \<Rightarrow> nat \<Rightarrow> pyval option \<Rightarrow> pdict option \<Rightarrow> world \<Rightarrow> snapshot list res \<times> world" where
  "state_list A cfg G config limit before metadata w =
     attempt (config_thread config) w (\<lambda>tid.
     attempt (A ''threads'' ''read'' (Some tid)) w (\<lambda>filters.
     case threads_get cfg A tid False w of (found, w1) \<Rightarrow>
     attempt found w1 (\<lambda>(t, _).
     attempt (check_filter_match (t_metadata t) filters) w1 (\<lambda>ok.
       if \<not> ok then (Inr [], w1)
       else case metadata_graph (t_metadata t) of
              None \<Rightarrow> (Inr [], w1)
            | Some g \<Rightarrow> (state_history G g (merge_config (t_config t) config) config limit metadata
                          (before_param before) (ckpt_saver w1), w1)))))"

section \<open>Updating\<close>

definition state_payload :: "snapshot \<Rightarrow> checkpoint_payload" where
  "state_payload s = \<lparr>cp_next = sn_next s \<noteq> [], cp_values = sn_values s, cp_tasks = sn_tasks s\<rparr>"

text \<open>After an update: the new state becomes the thread's status and values, and is published.\<close>

definition record_update ::
  "auth \<Rightarrow> api_config \<Rightarrow> graph_env \<Rightarrow> time \<Rightarrow> nat \<Rightarrow> pdict \<Rightarrow> uuid \<Rightarrow> world \<Rightarrow> unit res \<times> world" where
  "record_update A cfg G now ms config tid w =
     (case state_get A cfg G config False w of (res, w1) \<Rightarrow>
      attempt res w1 (\<lambda>s.
      case threads_set_status (patch_interrupt G) now tid (Some (state_payload s)) None w1 of (done, w2) \<Rightarrow>
      attempt done w2 (\<lambda>_.
        (Inr (), w2\<lparr>streams := thread_publish (encode_event G) ms tid ''state_update'' (state_message G s tid) (streams w2)\<rparr>))))"

text \<open>The answer is \<open>next_config["configurable"]\<close>; \<open>post\<close> also reads its \<open>checkpoint_id\<close>.\<close>

definition state_post ::
  "auth \<Rightarrow> api_config \<Rightarrow> graph_env \<Rightarrow> time \<Rightarrow> nat \<Rightarrow> pdict \<Rightarrow> pyval \<Rightarrow> string option \<Rightarrow> world \<Rightarrow> pdict res \<times> world" where
  "state_post A cfg G now ms config vals as_node w =
     attempt (config_thread config) w (\<lambda>tid.
     attempt (A ''threads'' ''update'' (Some tid)) w (\<lambda>filters.
     case threads_get cfg A tid False w of (found, w1) \<Rightarrow>
     attempt found w1 (\<lambda>(t, _).
     attempt (check_filter_match (t_metadata t) filters) w1 (\<lambda>ok.
     if \<not> ok then (Inl (HTTPException 403), w1)
     else if has_active_runs tid w1 then (Inl (HTTPException 409), w1)
     else attempt (thread_graph (t_metadata t) tid w1) w1 (\<lambda>graph.
       case graph of
         None \<Rightarrow> (Inl (HTTPException 400), w1)
       | Some g \<Rightarrow>
           (let config1 = default_configurable ''graph_id'' (PStr g) config
            in case update_state G g (merge_config (t_config t) config)
                      (default_configurable ''checkpoint_ns'' (PStr []) config1) vals as_node (ckpt_saver w1) of
                 (res, s) \<Rightarrow>
                   attempt res (w1\<lparr>ckpt_saver := s\<rparr>) (\<lambda>next_config.
                   case record_update A cfg G now ms config1 tid (w1\<lparr>ckpt_saver := s\<rparr>) of (recorded, w2) \<Rightarrow>
                   attempt recorded w2 (\<lambda>_.
                     (if map_of (get_configurable next_config) ''checkpoint_id'' = None then Inl key_error
                      else Inr (get_configurable next_config), w2)))))))))"

definition state_update :: "graph_env \<Rightarrow> pdict \<Rightarrow> pyval \<times> pyval" where
  "state_update G u =
     (if truthy (item_or_none u ''command'') then map_cmd G (item_or_none u ''command'') else item_or_none u ''values'',
      item_or_none u ''as_node'')"

text \<open>\<open>supersteps\<close>: the lists of updates. There is no check for runs in flight, unlike in \<open>post\<close>.\<close>

definition state_bulk ::
  "auth \<Rightarrow> api_config \<Rightarrow> graph_env \<Rightarrow> time \<Rightarrow> nat \<Rightarrow> pdict \<Rightarrow> pdict list list \<Rightarrow> world \<Rightarrow> pdict res \<times> world" where
  "state_bulk A cfg G now ms config supersteps w =
     attempt (config_thread config) w (\<lambda>tid.
     attempt (A ''threads'' ''update'' (Some tid)) w (\<lambda>filters.
     case threads_get cfg A tid False w of (found, w1) \<Rightarrow>
     attempt found w1 (\<lambda>(t, _).
     attempt (check_filter_match (t_metadata t) filters) w1 (\<lambda>ok.
     if \<not> ok then (Inl (HTTPException 403), w1)
     else case metadata_graph (t_metadata t) of
         None \<Rightarrow> (Inl (HTTPException 400), w1)
       | Some g \<Rightarrow>
           (let config1 = default_configurable ''checkpoint_ns'' (PStr [])
                            (default_configurable ''graph_id'' (PStr g) config)
            in case bulk_update G g (merge_config (t_config t) config) config1
                      (map (map (state_update G)) supersteps) (ckpt_saver w1) of
                 (res, s) \<Rightarrow>
                   attempt res (w1\<lparr>ckpt_saver := s\<rparr>) (\<lambda>next_config.
                   case record_update A cfg G now ms config1 tid (w1\<lparr>ckpt_saver := s\<rparr>) of (recorded, w2) \<Rightarrow>
                   attempt recorded w2 (\<lambda>_. (Inr (get_configurable next_config), w2))))))))"

section \<open>Access to streams\<close>

definition check_stream_auth :: "auth \<Rightarrow> uuid \<Rightarrow> world \<Rightarrow> unit res \<times> world" where
  "check_stream_auth A tid w =
     attempt (A ''threads'' ''read'' (Some tid)) w (\<lambda>filters.
       if truthy filters
       then (case get_with_filters tid filters w of (res, w1) \<Rightarrow>
               attempt res w1 (\<lambda>t. (if t = None then Inl (HTTPException 404) else Inr (), w1)))
       else (Inr (), w))"

section \<open>The invariant\<close>

text \<open>What the runtime relies on in a graph: it changes the saver through the saver's operations only.\<close>

definition graph_ok :: "graph_env \<Rightarrow> bool" where
  "graph_ok G \<longleftrightarrow>
     (\<forall>g tc c v n s. saver_inv s \<longrightarrow> saver_inv (snd (update_state G g tc c v n s))) \<and>
     (\<forall>g tc c us s. saver_inv s \<longrightarrow> saver_inv (snd (bulk_update G g tc c us s)))"

lemma state_get_inv: "world_inv w \<Longrightarrow> world_inv (snd (state_get A cfg G config subgraphs w))"
  using threads_get_inv
  by (auto simp: state_get_def case_prod_unfold intro!: attempt_keeps[where P = world_inv] split: option.split)

lemma state_list_inv: "world_inv w \<Longrightarrow> world_inv (snd (state_list A cfg G config limit before metadata w))"
  using threads_get_inv
  by (auto simp: state_list_def case_prod_unfold intro!: attempt_keeps[where P = world_inv] split: option.split)

lemma check_stream_auth_inv: "world_inv w \<Longrightarrow> world_inv (snd (check_stream_auth A tid w))"
  using same_keeps(1)[OF get_with_filters_same]
  by (auto simp: check_stream_auth_def case_prod_unfold intro!: attempt_keeps[where P = world_inv])

lemma thread_publish_wf: "sm_wf sm \<Longrightarrow> sm_wf (thread_publish encode ms tid event msg sm)"
  using stream_step_wf[of sm "MPutThread ms tid _"] by (simp add: thread_publish_def)

lemma record_update_inv:
  assumes "world_inv w"
  shows "world_inv (snd (record_update A cfg G now ms config tid w))"
proof -
  have "world_inv (w2\<lparr>streams := thread_publish (encode_event G) ms tid ''state_update'' x (streams w2)\<rparr>)"
    if "world_inv w2" for w2 x
    using that world_inv_parts(7)[OF that] by (intro inv_streams thread_publish_wf)
  then show ?thesis
    using state_get_inv[OF assms] threads_set_status_inv
    by (auto simp: record_update_def case_prod_unfold intro!: attempt_keeps[where P = world_inv])
qed

lemma state_post_inv:
  assumes "graph_ok G" and "world_inv w"
  shows "world_inv (snd (state_post A cfg G now ms config vals as_node w))"
proof -
  have get: "world_inv (snd (threads_get cfg A tid False w))" for tid by (rule threads_get_inv[OF assms(2)])
  have upd: "world_inv (w1\<lparr>ckpt_saver := snd (update_state G g tc c v n (ckpt_saver w1))\<rparr>)" if "world_inv w1" for w1 g tc c v n
    using that assms(1) world_inv_parts(6)[OF that] by (intro inv_saver) (simp_all add: graph_ok_def)
  show ?thesis
    using assms(2) get upd record_update_inv
    by (auto simp: state_post_def case_prod_unfold Let_def intro!: attempt_keeps[where P = world_inv] split: option.split)
qed

lemma state_bulk_inv:
  assumes "graph_ok G" and "world_inv w"
  shows "world_inv (snd (state_bulk A cfg G now ms config supersteps w))"
proof -
  have get: "world_inv (snd (threads_get cfg A tid False w))" for tid by (rule threads_get_inv[OF assms(2)])
  have upd: "world_inv (w1\<lparr>ckpt_saver := snd (bulk_update G g tc c us (ckpt_saver w1))\<rparr>)" if "world_inv w1" for w1 g tc c us
    using that assms(1) world_inv_parts(6)[OF that] by (intro inv_saver) (simp_all add: graph_ok_def)
  show ?thesis
    using assms(2) get upd record_update_inv
    by (auto simp: state_bulk_def case_prod_unfold Let_def intro!: attempt_keeps[where P = world_inv] split: option.split)
qed

section \<open>State updates and runs in flight\<close>

lemma threads_get_no_auth:
  assumes "find_thread tid w = Some t"
  shows "threads_get cfg no_auth tid False w =
    (Inr (default_state_updated t, None), update_thread tid default_state_updated w)"
  using assms by (simp add: threads_get_def no_auth_def get_with_filters_def)

lemma no_auth_apply: "no_auth resource action subject = Inr PNone"
  by (simp add: no_auth_def)

lemma attempt_saver: "ckpt_saver s = c \<Longrightarrow> (\<And>x. r = Inr x \<Longrightarrow> ckpt_saver (snd (f x)) = c) \<Longrightarrow> ckpt_saver (snd (attempt r s f)) = c"
  by (cases r) simp_all

lemma record_update_saver: "ckpt_saver (snd (record_update A cfg G now ms config tid w)) = ckpt_saver w"
proof -
  have get: "ckpt_saver (snd (threads_get cfg A tid b w)) = ckpt_saver w" for tid b w
    using same_keeps(3)[OF get_with_filters_same]
    by (auto simp: threads_get_def case_prod_unfold intro!: attempt_saver split: option.split)
  have sg: "ckpt_saver (snd (state_get A cfg G config b w)) = ckpt_saver w" for b w
    using get by (auto simp: state_get_def case_prod_unfold intro!: attempt_saver split: option.split)
  have st: "ckpt_saver (snd (threads_set_status p now tid c e w)) = ckpt_saver w" for p c e w
    by (simp add: threads_set_status_def Let_def)
  show ?thesis
    using sg st by (auto simp: record_update_def case_prod_unfold intro!: attempt_saver)
qed

lemma default_state_fields [simp]:
  "t_metadata (default_state_updated t) = t_metadata t" "t_config (default_state_updated t) = t_config t"
  by (simp_all add: default_state_updated_def split: option.split)

text \<open>
  C39. Only \<open>post\<close> protects a running thread. While a run is pending or running on a thread, adding one
  state update is refused with 409 and neither the runs nor the checkpoints change; the same update
  sent as a batch is not refused: the graph's batch update is applied to the checkpoints of the thread
  the run is working on.
\<close>

theorem bulk_update_ignores_runs:
  assumes "config_thread config = Inr tid" and "find_thread tid w = Some t" and "has_active_runs tid w"
    and "metadata_graph (t_metadata t) = Some g"
  shows "fst (state_post no_auth cfg G now ms config vals as_node w) = Inl (HTTPException 409) \<and>
    ckpt_saver (snd (state_post no_auth cfg G now ms config vals as_node w)) = ckpt_saver w \<and>
    runs (snd (state_post no_auth cfg G now ms config vals as_node w)) = runs w \<and>
    ckpt_saver (snd (state_bulk no_auth cfg G now ms config supersteps w)) =
      snd (bulk_update G g (merge_config (t_config t) config)
             (default_configurable ''checkpoint_ns'' (PStr []) (default_configurable ''graph_id'' (PStr g) config))
             (map (map (state_update G)) supersteps) (ckpt_saver w))"
proof -
  have free: "check_filter_match m PNone = Inr True" for m
    by (simp add: check_filter_match_def max_filter_depth_def numeral_3_eq_3)
  have active: "has_active_runs tid (update_thread tid default_state_updated w)"
    using assms(3) by (simp add: has_active_runs_def)
  have post: "state_post no_auth cfg G now ms config vals as_node w =
      (Inl (HTTPException 409), update_thread tid default_state_updated w)"
    using active by (simp add: state_post_def assms(1) threads_get_no_auth[OF assms(2)] no_auth_apply free)
  let ?w1 = "update_thread tid default_state_updated w"
  obtain res s where b: "bulk_update G g (merge_config (t_config t) config)
             (default_configurable ''checkpoint_ns'' (PStr []) (default_configurable ''graph_id'' (PStr g) config))
             (map (map (state_update G)) supersteps) (ckpt_saver w) = (res, s)" by fastforce
  have "ckpt_saver (snd (state_bulk no_auth cfg G now ms config supersteps w)) = s"
    using record_update_saver assms(4) b
    by (auto simp: state_bulk_def assms(1) threads_get_no_auth[OF assms(2)] no_auth_apply free Let_def
        case_prod_unfold intro!: attempt_saver)
  with post b show ?thesis by simp
qed

definition demo_graph :: graph_env where
  "demo_graph =
     \<lparr>get_state = (\<lambda>g tc c b s. Inr empty_snapshot), update_state = (\<lambda>g tc c v n s. (Inr c, s)),
      bulk_update = (\<lambda>g tc c us s. (Inr c, saver_clear s)), state_history = (\<lambda>g tc c n m b s. Inr []),
      map_cmd = id, state_message = (\<lambda>s t. t), encode_event = (\<lambda>a b. b), patch_interrupt = id\<rparr>"

definition demo_config :: pdict where
  "demo_config = [(''configurable'', PDict [(''thread_id'', PStr ''t'')])]"

definition demo_busy :: world where
  "demo_busy = world_init\<lparr>threads := [(demo_thread ''t'' ''busy'')\<lparr>t_metadata := [(''graph_id'', PStr ''g'')]\<rparr>],
     runs := [demo_run ''r1'' ''t'' ''running'' 1]\<rparr>"

theorem bulk_update_ignores_runs_witness:
  "fst (state_post no_auth demo_cfg demo_graph 5 0 demo_config PNone None demo_busy) = Inl (HTTPException 409) \<and>
   ckpt_saver (snd (state_bulk no_auth demo_cfg demo_graph 5 0 demo_config [] demo_busy)) = saver_clear (ckpt_saver demo_busy)"
proof -
  have 1: "config_thread demo_config = Inr ''t''" by code_simp
  have 2: "find_thread ''t'' demo_busy = Some ((demo_thread ''t'' ''busy'')\<lparr>t_metadata := [(''graph_id'', PStr ''g'')]\<rparr>)"
    by (simp add: find_thread_def demo_busy_def demo_thread_def)
  have 3: "has_active_runs ''t'' demo_busy" by code_simp
  have 4: "metadata_graph (t_metadata ((demo_thread ''t'' ''busy'')\<lparr>t_metadata := [(''graph_id'', PStr ''g'')]\<rparr>)) = Some ''g''"
    by (simp add: metadata_graph_def)
  from bulk_update_ignores_runs[OF 1 2 3 4, of demo_cfg demo_graph 5 0 PNone None "[]"]
  show ?thesis by (simp add: demo_graph_def)
qed

end
