(* ===== verification/System.thy ===== *)
theory System
  imports State
begin

text \<open>
  The whole runtime as a transition system: one step is one call of an operation of \<open>ops.py\<close>, of the
  checkpoint saver or of the stream manager, with any arguments, by any caller and in any order. The
  invariant of the runtime state holds in every state that such calls can reach.
\<close>

section \<open>Searching runs\<close>

lemma filter_runs_visible_same: "same_but_defaults w (snd (filter_runs_visible filters tid rs w))"
proof (induction rs arbitrary: w)
  case Nil
  then show ?case by simp
next
  case (Cons r rs)
  obtain res w1 where g: "get_with_filters tid filters w = (res, w1)" by fastforce
  have w1: "same_but_defaults w w1" using get_with_filters_same[of w tid filters] g by simp
  obtain rest w2 where f: "filter_runs_visible filters tid rs w1 = (rest, w2)" by fastforce
  have "same_but_defaults w w2" using Cons.IH[of w1] f same_trans[OF w1] by simp
  with w1 show ?case by (simp add: g f attempt_def split: sum.split)
qed

lemma runs_search_inv: "world_inv w \<Longrightarrow> world_inv (snd (runs_search A tid limit offset status w))"
  using same_keeps(1)[OF filter_runs_visible_same]
  by (auto simp: runs_search_def Let_def case_prod_unfold intro!: attempt_keeps[where P = world_inv])

lemma connection_clear_inv: "world_inv w \<Longrightarrow> world_inv (connection_clear w)"
  by (simp add: connection_clear_def global_store_clear_def world_inv_def rows_ok_def single_running_def
      running_on_def ttls_valid_def)

section \<open>Steps\<close>

text \<open>
  What the API layer and \<open>uuid4\<close> guarantee of a call: a generated thread id is new, a created or
  finished run is not given the status \<open>running\<close>, \<open>if_exists\<close> is one of the two values of the API,
  new channel versions are a dictionary, and a graph changes checkpoints through the saver only.
\<close>

inductive system_step :: "saver_env \<Rightarrow> api_config \<Rightarrow> cron_env \<Rightarrow> world \<Rightarrow> world \<Rightarrow> bool"
  for E cfg C where
  runs_next: "system_step E cfg C w (snd (runs_next now limit w))"
| runs_put: "fresh \<notin> t_id ` set (threads w) \<Longrightarrow> rq_status q \<noteq> ''running'' \<Longrightarrow>
    system_step E cfg C w (snd (runs_put A now fresh q w))"
| runs_get: "system_step E cfg C w (snd (runs_get A rid tid w))"
| runs_delete: "system_step E cfg C w (snd (runs_delete E A rid tid w))"
| runs_cancel: "system_step E cfg C w (snd (runs_cancel E A now ms run_ids action tid status aid w))"
| runs_search: "system_step E cfg C w (snd (runs_search A tid limit offset status w))"
| runs_set_status: "status \<noteq> ''running'' \<Longrightarrow> system_step E cfg C w (runs_set_status now rid status w)"
| threads_search: "system_step E cfg C w (snd (threads_search A ids metadata vals status limit offset sort_by sort_order w))"
| threads_get: "system_step E cfg C w (snd (threads_get cfg A tid include_ttl w))"
| threads_put: "if_exists \<in> {''raise'', ''do_nothing''} \<Longrightarrow>
    system_step E cfg C w (snd (threads_put A now tid metadata if_exists ttl w))"
| threads_patch: "system_step E cfg C w (snd (threads_patch A now tid metadata ttl w))"
| threads_set_status: "system_step E cfg C w (snd (threads_set_status patch now tid checkpoint exn w))"
| threads_set_joint_status: "run_status \<noteq> ''running'' \<Longrightarrow>
    system_step E cfg C w (snd (threads_set_joint_status E A patch now tid rid run_status graph_id checkpoint exn w))"
| threads_delete: "system_step E cfg C w (snd (threads_delete E A tid w))"
| threads_prune: "threads_prune E A tids strategy batch_size w = Some (res, w') \<Longrightarrow> system_step E cfg C w w'"
| threads_copy: "can_copy w tid fresh \<Longrightarrow> system_step E cfg C w (snd (threads_copy A now fresh tid w))"
| threads_sweep: "threads_sweep_ttl E cfg now limit batch_size w = Some (swept, w') \<Longrightarrow> system_step E cfg C w w'"
| assistants_put: "system_step E cfg C w (snd (assistants_put A G now aid request if_exists w))"
| assistants_patch: "system_step E cfg C w (snd (assistants_patch A G now aid p w))"
| assistants_set_latest: "system_step E cfg C w (snd (assistants_set_latest A now aid n w))"
| assistants_delete: "system_step E cfg C w (snd (assistants_delete E A now ms aid delete_threads w))"
| crons_put: "system_step E cfg C w (snd (crons_put C A now cid cq w))"
| crons_update: "system_step E cfg C w (snd (crons_modify C A now cid u w))"
| crons_delete: "system_step E cfg C w (snd (crons_delete A cid w))"
| crons_set_next: "system_step E cfg C w (crons_set_next_run_date cid date w)"
| state_get: "system_step E cfg C w (snd (state_get A cfg H config subgraphs w))"
| state_list: "system_step E cfg C w (snd (state_list A cfg H config limit before metadata w))"
| state_post: "graph_ok H \<Longrightarrow> system_step E cfg C w (snd (state_post A cfg H now ms config vals as_node w))"
| state_bulk: "graph_ok H \<Longrightarrow> system_step E cfg C w (snd (state_bulk A cfg H now ms config supersteps w))"
| stream_auth: "system_step E cfg C w (snd (check_stream_auth A tid w))"
| saver: "op_allowed x (ckpt_saver w) \<Longrightarrow> saver_step E x (ckpt_saver w) = Some s \<Longrightarrow>
    system_step E cfg C w (w\<lparr>ckpt_saver := s\<rparr>)"
| stream: "system_step E cfg C w (w\<lparr>streams := stream_step y (streams w)\<rparr>)"
| clear: "system_step E cfg C w (connection_clear w)"

inductive reachable :: "saver_env \<Rightarrow> api_config \<Rightarrow> cron_env \<Rightarrow> world \<Rightarrow> bool" for E cfg C where
  start: "reachable E cfg C world_init"
| step: "reachable E cfg C w \<Longrightarrow> system_step E cfg C w w' \<Longrightarrow> reachable E cfg C w'"

inductive_cases reachable_cases: "reachable E cfg C w"

section \<open>Invariants of transition systems\<close>

text \<open>A predicate that holds initially and is kept by every step holds in every reachable state.\<close>

locale inductive_invariant =
  fixes init :: 's and step :: "'s \<Rightarrow> 's \<Rightarrow> bool" and good :: "'s \<Rightarrow> bool"
  assumes good_init: "good init" and good_step: "good s \<Longrightarrow> step s s' \<Longrightarrow> good s'"
begin

lemma good_steps: "step\<^sup>*\<^sup>* s s' \<Longrightarrow> good s \<Longrightarrow> good s'"
  by (induction rule: rtranclp_induct) (auto intro: good_step)

lemma good_reachable: "step\<^sup>*\<^sup>* init s \<Longrightarrow> good s"
  by (rule good_steps[OF _ good_init])

end

lemma reachable_steps: "reachable E cfg C w \<longleftrightarrow> (system_step E cfg C)\<^sup>*\<^sup>* world_init w"
proof
  show "reachable E cfg C w \<Longrightarrow> (system_step E cfg C)\<^sup>*\<^sup>* world_init w"
    by (induction rule: reachable.induct) (auto intro: rtranclp.rtrancl_into_rtrancl)
  show "(system_step E cfg C)\<^sup>*\<^sup>* world_init w \<Longrightarrow> reachable E cfg C w"
    by (induction rule: rtranclp_induct) (auto intro: reachable.intros)
qed

lemma system_step_inv:
  assumes base: "base_saver_ok E" and step: "system_step E cfg C w w'" and inv: "world_inv w"
  shows "world_inv w'"
  using step
proof (cases rule: system_step.cases)
  case (saver x s)
  with inv base show ?thesis using world_inv_parts(6)[OF inv] saver_step_inv by (blast intro: inv_saver)
next
  case (stream y)
  with inv show ?thesis using world_inv_parts(7)[OF inv] stream_step_wf by (blast intro: inv_streams)
next
  case (threads_sweep now limit batch_size swept)
  with sweep_exact[of E w cfg now limit batch_size swept w'] base inv show ?thesis
    by (simp add: base_saver_ok_def)
qed (use inv base in \<open>auto simp: base_saver_ok_def runs_next_inv runs_put_inv runs_get_inv runs_delete_inv
    runs_cancel_inv runs_search_inv runs_set_status_inv threads_search_inv threads_get_inv threads_put_inv
    threads_patch_inv threads_set_status_inv threads_set_joint_status_inv threads_delete_inv threads_copy_inv
    assistants_put_inv assistants_patch_inv assistants_set_latest_inv assistants_delete_inv crons_put_inv
    crons_modify_inv crons_delete_inv crons_set_next_run_date_inv connection_clear_inv
    state_get_inv state_list_inv state_post_inv state_bulk_inv check_stream_auth_inv
    intro: threads_prune_inv\<close>)

interpretation runtime: inductive_invariant world_init "\<lambda>w w'. base_saver_ok E \<and> system_step E cfg C w w'" world_inv
  for E cfg C
  by unfold_locales (auto intro: world_inv_init system_step_inv)

interpretation savers: inductive_invariant saver_init
  "\<lambda>s s'. base_saver_ok E \<and> (\<exists>x. op_allowed x s \<and> saver_step E x s = Some s')" saver_inv for E
  by unfold_locales (auto intro: saver_inv_init saver_step_inv)

interpretation stream_managers: inductive_invariant stream_manager_init "\<lambda>sm sm'. \<exists>x. sm' = stream_step x sm" sm_wf
  by unfold_locales (auto intro: sm_wf_init stream_step_wf)

lemma reachable_inv:
  assumes "base_saver_ok E" and "reachable E cfg C w"
  shows "world_inv w"
proof (rule runtime.good_reachable)
  show "(\<lambda>w w'. base_saver_ok E \<and> system_step E cfg C w w')\<^sup>*\<^sup>* world_init w"
    using assms by (simp add: reachable_steps)
qed

section \<open>Properties\<close>

text \<open>
  C1. Every reachable state of the runtime is consistent, whatever calls arrive in whatever order:
  thread ids are distinct, every run belongs to a stored thread, no thread ever has two running runs,
  every TTL entry belongs to a stored thread and is valid, every cron refers to a stored assistant and
  to a stored thread (if to any), and the size ledger of the saver is exact for every thread.
\<close>

theorem reachable_states_consistent:
  assumes "base_saver_ok E" and "reachable E cfg C w"
  shows "distinct (map t_id (threads w)) \<and>
    (\<forall>r\<in>set (runs w). r_thread r \<in> t_id ` set (threads w)) \<and>
    (\<forall>tid. length (filter (\<lambda>r. r_thread r = tid \<and> r_status r = ''running'') (runs w)) \<le> 1) \<and>
    ttls_valid (thread_ttls w) \<and> fst ` set (thread_ttls w) \<subseteq> t_id ` set (threads w) \<and>
    (\<forall>c\<in>set (crons w). c_assistant c \<in> a_id ` set (assistants w) \<and>
       (\<forall>tid. c_thread c = Some tid \<longrightarrow> tid \<in> t_id ` set (threads w))) \<and>
    (\<forall>tid. thread_entry (sizes (ckpt_saver w)) tid = (stored_bytes (ckpt_saver w) tid, storage_count (ckpt_saver w) tid))"
proof -
  have inv: "world_inv w" by (rule reachable_inv[OF assms])
  have crons: "\<forall>c\<in>set (crons w). c_assistant c \<in> a_id ` set (assistants w) \<and>
       (\<forall>tid. c_thread c = Some tid \<longrightarrow> tid \<in> t_id ` set (threads w))"
    using world_crons_homed[OF inv] by (simp add: cron_homed_def)
  have one: "\<forall>tid. length (filter (\<lambda>r. r_thread r = tid \<and> r_status r = ''running'') (runs w)) \<le> 1"
    using world_inv_parts(3)[OF inv] by (simp add: single_running_def running_on_def)
  have exact: "\<forall>tid. thread_entry (sizes (ckpt_saver w)) tid = (stored_bytes (ckpt_saver w) tid, storage_count (ckpt_saver w) tid)"
    using world_inv_parts(6)[OF inv] by (simp add: saver_inv_def ledger_exact_def)
  show ?thesis using world_inv_parts(1,2,4,5)[OF inv] crons one exact by blast
qed

lemma demo_reachable:
  "reachable demo_env cfg demo_cron_env (snd (threads_put no_auth 1 ''t'' [] ''raise'' None world_init))"
  by (rule reachable.step[OF reachable.start system_step.threads_put]) simp

theorem reachable_states_consistent_witness:
  "map t_id (threads (snd (threads_put no_auth 1 ''t'' [] ''raise'' None world_init))) = [''t''] \<and>
   distinct (map t_id (threads (snd (threads_put no_auth 1 ''t'' [] ''raise'' None world_init))))"
proof -
  have "map t_id (threads (snd (threads_put no_auth 1 ''t'' [] ''raise'' None world_init))) = [''t'']" by code_simp
  with reachable_states_consistent[OF demo_env_ok demo_reachable] show ?thesis by blast
qed

section \<open>Progress of the queue\<close>

lemma thread_running_update:
  "i < length rs \<Longrightarrow> r_status (rs ! i) = ''pending'' \<Longrightarrow> thread_running tid rs \<Longrightarrow> thread_running tid (rs[i := r])"
proof -
  assume i: "i < length rs" "r_status (rs ! i) = ''pending''" and "thread_running tid rs"
  then obtain j where j: "j < length rs" "r_thread (rs ! j) = tid" "r_status (rs ! j) = ''running''"
    by (auto simp: thread_running_def list_ex_iff in_set_conv_nth)
  with i have "j \<noteq> i" by auto
  with j nth_mem[of j "rs[i := r]"] have "rs ! j \<in> set (rs[i := r])" by simp
  with j(2,3) show ?thesis by (auto simp: thread_running_def list_ex_iff)
qed

lemma try_start_keeps_running:
  assumes "i < length (runs w)" and "thread_running tid (runs w)"
  shows "thread_running tid (runs (snd (try_start i w)))"
  using assms thread_running_update by (auto simp: try_start_def Let_def increment_retry_def)

lemma start_all_keeps_running:
  "\<forall>i\<in>set is. i < length (runs w) \<Longrightarrow> thread_running tid (runs w) \<Longrightarrow> thread_running tid (runs (snd (start_all is w)))"
proof (induction "is" arbitrary: w)
  case (Cons i "is")
  have len: "length (runs (snd (try_start i w))) = length (runs w)"
    by (simp add: try_start_def Let_def increment_retry_def)
  from Cons.prems have "thread_running tid (runs (snd (start_all is (snd (try_start i w)))))"
    by (intro Cons.IH) (simp_all add: len try_start_keeps_running)
  then show ?case by (simp add: case_prod_unfold)
qed simp

lemma try_start_other:
  assumes "j < length (runs w)" and "i \<noteq> j" and "\<not> thread_running (r_thread (runs w ! i)) (runs (snd (try_start j w)))"
  shows "runs (snd (try_start j w)) ! i = runs w ! i"
  using assms by (auto simp: try_start_def Let_def increment_retry_def)

lemma try_start_self:
  assumes "i < length (runs w)" and "r_status (runs w ! i) = ''pending''" and "find_thread (r_thread (runs w ! i)) w \<noteq> None"
  shows "thread_running (r_thread (runs w ! i)) (runs (snd (try_start i w)))"
  using assms
  by (auto simp: try_start_def Let_def increment_retry_def thread_running_def list_ex_iff
      intro!: bexI[of _ "(runs w ! i)\<lparr>r_status := ''running''\<rparr>"] set_update_memI)

lemma try_start_threads [simp]: "threads (snd (try_start i w)) = threads w"
  by (simp add: try_start_def Let_def increment_retry_def)

lemma start_all_starts:
  assumes "\<forall>j\<in>set is. j < length (runs w)" and "i \<in> set is" and "r_status (runs w ! i) = ''pending''"
    and "r_thread (runs w ! i) \<in> t_id ` set (threads w)"
  shows "thread_running (r_thread (runs w ! i)) (runs (snd (start_all is w)))"
  using assms
proof (induction "is" arbitrary: w)
  case (Cons j "is")
  let ?w = "snd (try_start j w)" and ?t = "r_thread (runs w ! i)"
  have len: "length (runs ?w) = length (runs w)"
    by (simp add: try_start_def Let_def increment_retry_def)
  have stored: "find_thread ?t w \<noteq> None" using Cons.prems(4) by (simp add: thread_table.lookup_None)
  have "thread_running ?t (runs (snd (start_all is ?w)))"
  proof (cases "thread_running ?t (runs ?w)")
    case True
    then show ?thesis using Cons.prems(1) by (intro start_all_keeps_running) (simp_all add: len)
  next
    case False
    with try_start_self[of i w] Cons.prems stored have ij: "i \<noteq> j" by auto
    with try_start_other[of j w i] False Cons.prems(1) have same: "runs ?w ! i = runs w ! i" by simp
    show ?thesis using Cons.IH[of ?w] Cons.prems ij by (simp add: len same)
  qed
  then show ?case by (simp add: case_prod_unfold)
qed simp

text \<open>
  C7. No free thread is left waiting. When the queue asks for at least as many runs as are due, then
  after the call every thread that had a due pending run has a running run: one that ran already, or
  the one just started.
\<close>

theorem next_serves_every_free_thread:
  assumes "r_thread r \<in> t_id ` set (threads w)" and "r \<in> set (runs w)" and "r_status r = ''pending''" and "r_created r < now"
    and "length (pending_indices now (runs w)) \<le> limit"
  shows "\<exists>r'\<in>set (runs (snd (runs_next now limit w))). r_thread r' = r_thread r \<and> r_status r' = ''running''"
proof -
  from assms(2) obtain i where i: "i < length (runs w)" "runs w ! i = r" by (auto simp: in_set_conv_nth)
  have "i \<in> set (pending_indices now (runs w))" using i assms(3,4) by (simp add: set_pending_indices)
  then have "thread_running (r_thread r) (runs (snd (start_all (pending_indices now (runs w)) w)))"
    using start_all_starts[of "pending_indices now (runs w)" w i] i assms(1,3) pending_indices_bound by auto
  then show ?thesis using assms(5) by (auto simp: runs_next_def thread_running_def list_ex_iff)
qed

theorem next_serves_every_free_thread_witness:
  "\<exists>r'\<in>set (runs (snd (runs_next 10 2 demo_world))). r_thread r' = ''u'' \<and> r_status r' = ''running''"
proof -
  have 1: "r_thread (demo_run ''r3'' ''u'' ''pending'' 3) \<in> t_id ` set (threads demo_world)"
    by (simp add: demo_world_def demo_run_def demo_thread_def)
  have 2: "demo_run ''r3'' ''u'' ''pending'' 3 \<in> set (runs demo_world)" by (simp add: demo_world_def)
  have 3: "r_status (demo_run ''r3'' ''u'' ''pending'' 3) = ''pending''" "r_created (demo_run ''r3'' ''u'' ''pending'' 3) < 10"
    by (simp_all add: demo_run_def)
  have 4: "length (pending_indices 10 (runs demo_world)) \<le> 2" by code_simp
  from next_serves_every_free_thread[OF 1 2 3 4] show ?thesis by (simp add: demo_run_def)
qed

end
