(* ===== verification/Scheduler.thy ===== *)
theory Scheduler
  imports System
begin

text \<open>
  The background queue of \<open>queue.py\<close>: a pool of runners, the scheduling loop that takes runs from
  \<open>Runs.next\<close> and starts a worker for each, the callback that gives a runner back, the metrics of
  \<open>metrics.py\<close>, the retry decorator of \<open>retry.py\<close>, and what \<open>lifespan.py\<close> does when the queue fails.
  Executing a run (\<open>langgraph_api.worker\<close>) and recognising a JavaScript graph are outside \<open>src/\<close>: a
  worker is a task that ends some time, the test is the argument \<open>is_js\<close>.
\<close>

section \<open>State\<close>

record worker =
  wk_task :: nat
  wk_runner :: nat
  wk_run :: run
  wk_attempt :: int

record scheduler =
  sc_free :: "nat list"
  sc_expired :: "nat list"
  sc_returning :: "nat list"
  sc_leaving :: "worker list"
  sc_workers :: "worker list"
  sc_tasks :: nat
  sc_stats_at :: "time option"
  sc_sweep_at :: "time option"
  sc_got_run :: bool
  sc_webhooks :: "run list"

record queue_config =
  n_jobs :: nat
  heartbeat :: time
  stats_interval :: time
  isolated_loops :: bool

definition scheduler_init :: "queue_config \<Rightarrow> scheduler" where
  "scheduler_init K =
     \<lparr>sc_free = [0..<n_jobs K], sc_expired = [], sc_returning = [], sc_leaving = [], sc_workers = [], sc_tasks = 0,
      sc_stats_at = None,
      sc_sweep_at = None, sc_got_run = False, sc_webhooks = []\<rparr>"

section \<open>Starting workers\<close>

definition graph_of_run :: "run \<Rightarrow> string option" where
  "graph_of_run r =
     (case map_of (dict_item (dict_item (r_kwargs r) ''config'') ''configurable'') ''graph_id'' of
        Some (PStr g) \<Rightarrow> if g = [] then None else Some g
      | _ \<Rightarrow> None)"

text \<open>Whether the run is a task of the shared loop; otherwise the runner's own thread takes it.\<close>

definition on_shared_loop :: "queue_config \<Rightarrow> bool \<Rightarrow> bool" where
  "on_shared_loop K js \<longleftrightarrow> \<not> isolated_loops K \<or> js"

definition worker_name :: "bool \<Rightarrow> run \<Rightarrow> int \<Rightarrow> string" where
  "worker_name js r n = (if js then ''js-run-'' else ''run-'') @ opt_str (r_id r) @ ''-attempt-'' @ int_str n"

text \<open>\<open>get_nowait\<close> raises \<open>QueueEmpty\<close> on an empty pool; it comes before the graph is looked at.\<close>

definition start_worker :: "(string \<Rightarrow> bool res) \<Rightarrow> run \<times> int \<Rightarrow> scheduler \<Rightarrow> unit res \<times> scheduler" where
  "start_worker is_js served s =
     (case sc_free s of
        [] \<Rightarrow> (Inl (PyError ''QueueEmpty''), s)
      | r # rs \<Rightarrow>
          (let s1 = s\<lparr>sc_free := rs\<rparr>
           in attempt (case graph_of_run (fst served) of None \<Rightarrow> Inr False | Some g \<Rightarrow> is_js g) s1 (\<lambda>js.
                (Inr (), s1\<lparr>sc_workers := sc_workers s @ [\<lparr>wk_task = sc_tasks s, wk_runner = r,
                                wk_run = fst served, wk_attempt = snd served\<rparr>],
                            sc_tasks := sc_tasks s + 1\<rparr>))))"

fun start_workers :: "(string \<Rightarrow> bool res) \<Rightarrow> (run \<times> int) list \<Rightarrow> scheduler \<Rightarrow> unit res \<times> scheduler" where
  "start_workers is_js [] s = (Inr (), s)"
| "start_workers is_js (x # xs) s =
     (case start_worker is_js x s of (r, s1) \<Rightarrow> attempt r s1 (\<lambda>_. start_workers is_js xs s1))"

section \<open>One iteration of the loop\<close>

definition requeue_expired :: "scheduler \<Rightarrow> scheduler" where
  "requeue_expired s = s\<lparr>sc_free := sc_free s @ sc_expired s, sc_expired := []\<rparr>"

definition overdue :: "time option \<Rightarrow> time \<Rightarrow> time \<Rightarrow> bool" where
  "overdue previous now limit \<longleftrightarrow> (case previous of None \<Rightarrow> True | Some t \<Rightarrow> limit < now - t)"

text \<open>The half second the iteration sleeps before it looks for runs.\<close>

definition poll_waits :: "scheduler \<Rightarrow> bool" where
  "poll_waits s \<longleftrightarrow> \<not> sc_got_run s \<and> sc_stats_at s \<noteq> None"

text \<open>
  The handler of the loop calls \<open>exit.aclose()\<close>; \<open>exit\<close> is Python's builtin, which has no such
  attribute, so every exception of the iteration leaves the loop as an \<open>AttributeError\<close>.
\<close>

definition scheduler_failed :: "unit res \<Rightarrow> unit res" where
  "scheduler_failed r = (case r of Inl e \<Rightarrow> Inl attribute_error | Inr u \<Rightarrow> Inr u)"

text \<open>
  \<open>clock\<close> is the loop's time, \<open>now\<close> the wall clock \<open>Runs.next\<close> reads. \<open>None\<close> is an iteration that
  waits for a runner. \<open>Runs.sweep\<close> does nothing in this runtime.
\<close>

definition poll ::
  "queue_config \<Rightarrow> (string \<Rightarrow> bool res) \<Rightarrow> time \<Rightarrow> time \<Rightarrow> world \<times> scheduler \<Rightarrow>
   (unit res \<times> world \<times> scheduler) option" where
  "poll K is_js clock now x =
     (case x of (w, s) \<Rightarrow>
       (let s0 = requeue_expired s
        in if sc_free s0 = [] then None
           else
             (let do_sweep = overdue (sc_sweep_at s0) clock (heartbeat K * 2);
                  s1 = (if overdue (sc_stats_at s0) clock (stats_interval K) then s0\<lparr>sc_stats_at := Some clock\<rparr> else s0);
                  (served, w1) = runs_next now (length (sc_free s1)) w;
                  (r, s2) = start_workers is_js served (s1\<lparr>sc_got_run := served \<noteq> []\<rparr>)
              in Some (case r of
                   Inl e \<Rightarrow> (scheduler_failed r, w1, s2)
                 | Inr _ \<Rightarrow> (Inr (), w1, if do_sweep then s2\<lparr>sc_sweep_at := Some clock\<rparr> else s2)))))"

section \<open>The end of a worker\<close>

datatype outcome = Task_cancelled | Task_failed exc | Task_done bool

text \<open>
  \<open>cleanup\<close> in two halves. First the task leaves \<open>WORKERS\<close>; until the second half its worker is in
  \<open>sc_leaving\<close>. Then the runner is handed back: at once on the shared loop; with isolated loops
  \<open>call_soon_threadsafe\<close> only queues the call of \<open>put_nowait\<close> (\<open>sc_returning\<close>), which the queue's loop makes
  later. If that raises (\<open>put_ok\<close> is false), the runner is expired. Last, a result that asks for a webhook
  starts one.
\<close>

definition discard_worker :: "worker \<Rightarrow> scheduler \<Rightarrow> scheduler" where
  "discard_worker k s =
     s\<lparr>sc_workers := filter (\<lambda>x. wk_task x \<noteq> wk_task k) (sc_workers s), sc_leaving := sc_leaving s @ [k]\<rparr>"

definition hand_back :: "queue_config \<Rightarrow> bool \<Rightarrow> worker \<Rightarrow> outcome \<Rightarrow> scheduler \<Rightarrow> scheduler" where
  "hand_back K put_ok k result s =
     (let s1 = s\<lparr>sc_leaving := remove1 k (sc_leaving s)\<rparr>;
          s2 = (if \<not> put_ok then s1\<lparr>sc_expired := sc_expired s1 @ [wk_runner k]\<rparr>
                else if isolated_loops K then s1\<lparr>sc_returning := sc_returning s1 @ [wk_runner k]\<rparr>
                else s1\<lparr>sc_free := sc_free s1 @ [wk_runner k]\<rparr>)
      in case result of Task_done True \<Rightarrow> s2\<lparr>sc_webhooks := sc_webhooks s2 @ [wk_run k]\<rparr> | _ \<Rightarrow> s2)"

definition cleanup :: "queue_config \<Rightarrow> bool \<Rightarrow> worker \<Rightarrow> outcome \<Rightarrow> scheduler \<Rightarrow> scheduler" where
  "cleanup K put_ok k result s = hand_back K put_ok k result (discard_worker k s)"

text \<open>The queue's loop makes the call that was queued first.\<close>

definition deliver_runner :: "scheduler \<Rightarrow> scheduler" where
  "deliver_runner s =
     (case sc_returning s of [] \<Rightarrow> s | r # rs \<Rightarrow> s\<lparr>sc_returning := rs, sc_free := sc_free s @ [r]\<rparr>)"

definition get_num_workers :: "scheduler \<Rightarrow> nat" where
  "get_num_workers s = length (sc_workers s)"

record pool_metrics =
  workers_max :: int
  workers_active :: int
  workers_available :: int

definition get_metrics :: "queue_config \<Rightarrow> scheduler \<Rightarrow> pool_metrics" where
  "get_metrics K s =
     \<lparr>workers_max = int (n_jobs K), workers_active = int (get_num_workers s),
      workers_available = int (n_jobs K) - int (get_num_workers s)\<rparr>"

text \<open>\<open>shutdown\<close>: the tasks that are cancelled when the loop ends.\<close>

definition cancelled_at_shutdown :: "scheduler \<Rightarrow> nat list" where
  "cancelled_at_shutdown s = map wk_task (sc_workers s)"

text \<open>
  The end of \<open>queue\<close>: the cancelled workers and webhooks are awaited together, at most for the grace
  period, and the timeout replaces the exception that ended the loop. The times are the seconds a task needs
  to end, counted from its cancellation; a job in the thread of an isolated loop is not interrupted by it.
\<close>

definition shutdown_grace :: time where
  "shutdown_grace = 5"

definition webhook_done :: "run \<Rightarrow> scheduler \<Rightarrow> scheduler" where
  "webhook_done r s = s\<lparr>sc_webhooks := remove1 r (sc_webhooks s)\<rparr>"

definition queue_result :: "(nat \<Rightarrow> time) \<Rightarrow> (run \<Rightarrow> time) \<Rightarrow> scheduler \<Rightarrow> unit res \<Rightarrow> unit res" where
  "queue_result worker_ends webhook_ends s ended =
     (if list_ex (\<lambda>k. shutdown_grace < worker_ends k) (cancelled_at_shutdown s) \<or>
         list_ex (\<lambda>r. shutdown_grace < webhook_ends r) (sc_webhooks s)
      then Inl (PyError ''TimeoutError'') else ended)"

text \<open>\<open>queue_with_signal\<close>: whether SIGINT is raised, for the way the queue ended.\<close>

definition queue_with_signal :: "unit res \<Rightarrow> bool" where
  "queue_with_signal ended =
     (case ended of Inl (PyError name) \<Rightarrow> name \<noteq> ''CancelledError'' | Inl (HTTPException _) \<Rightarrow> True | Inr _ \<Rightarrow> False)"

section \<open>Retries\<close>

text \<open>
  \<open>retry_db\<close>: the outcome of the i-th call is \<open>call i\<close>. The result is the outcome of the wrapper and
  the number of calls made.
\<close>

definition retryable :: "'a res \<Rightarrow> bool" where
  "retryable r \<longleftrightarrow> (case r of Inl e \<Rightarrow> e = PyError ''RetryableException'' | Inr _ \<Rightarrow> False)"

fun retry_from :: "nat \<Rightarrow> nat \<Rightarrow> (nat \<Rightarrow> 'a res) \<Rightarrow> 'a res \<times> nat" where
  "retry_from 0 i call = (call i, i + 1)"
| "retry_from (Suc left) i call =
     (if retryable (call i) then retry_from left (i + 1) call else (call i, i + 1))"

definition retry_db :: "(nat \<Rightarrow> 'a res) \<Rightarrow> 'a res \<times> nat" where
  "retry_db call = retry_from 2 0 call"

end
