(* ===== verification/Scheduler_Props.thy ===== *)
theory Scheduler_Props
  imports Scheduler
begin

text \<open>
  The pool of runners is never lost or shared: an invariant of all interleavings of polls, ending
  workers and other calls. A poll starts one worker for every run it takes from the queue and never
  runs out of runners; its first error ends the queue. Retries are bounded.
\<close>

section \<open>Polling\<close>

lemma length_start_all: "length (fst (start_all is w)) \<le> length is"
proof (induction "is" arbitrary: w)
  case (Cons i "is")
  from Cons[of "snd (try_start i w)"] show ?case by (auto simp: case_prod_unfold split: option.split)
qed simp

lemma length_runs_next: "length (fst (runs_next now limit w)) \<le> limit"
  unfolding runs_next_def using length_start_all[of "take limit (pending_indices now (runs w))" w] by simp

definition new_workers :: "nat \<Rightarrow> nat list \<Rightarrow> (run \<times> int) list \<Rightarrow> worker list" where
  "new_workers task runners served =
     map (\<lambda>(i, r, x). \<lparr>wk_task = i, wk_runner = r, wk_run = fst x, wk_attempt = snd x\<rparr>)
       (zip [task..<task + length served] (zip runners served))"

lemma new_workers_Cons:
  "new_workers task (r # rs) (x # xs) =
     \<lparr>wk_task = task, wk_runner = r, wk_run = fst x, wk_attempt = snd x\<rparr> # new_workers (Suc task) rs xs"
  by (simp add: new_workers_def upt_conv_Cons del: upt_Suc)

lemma new_workers_fields:
  assumes "length served \<le> length runners"
  shows "map wk_runner (new_workers task runners served) = take (length served) runners"
    and "map wk_task (new_workers task runners served) = [task..<task + length served]"
    and "map wk_run (new_workers task runners served) = map fst served"
  using assms
  by (auto simp: new_workers_def case_prod_unfold comp_def intro!: nth_equalityI)

lemma start_workers_ok:
  assumes "length served \<le> length (sc_free s)" and "\<forall>g. \<exists>b. is_js g = Inr b"
  shows "start_workers is_js served s =
    (Inr (), s\<lparr>sc_free := drop (length served) (sc_free s),
               sc_workers := sc_workers s @ new_workers (sc_tasks s) (sc_free s) served,
               sc_tasks := sc_tasks s + length served\<rparr>)"
  using assms(1)
proof (induction served arbitrary: s)
  case Nil
  then show ?case by (simp add: new_workers_def)
next
  case (Cons x xs)
  then obtain r rs where free: "sc_free s = r # rs" by (cases "sc_free s") auto
  obtain b where "(case graph_of_run (fst x) of None \<Rightarrow> Inr False | Some g \<Rightarrow> is_js g) = Inr b"
    using assms(2) by (cases "graph_of_run (fst x)") auto
  then have "start_worker is_js x s =
      (Inr (), s\<lparr>sc_free := rs, sc_workers := sc_workers s @ [\<lparr>wk_task = sc_tasks s, wk_runner = r,
          wk_run = fst x, wk_attempt = snd x\<rparr>], sc_tasks := sc_tasks s + 1\<rparr>)"
    by (simp add: start_worker_def free)
  with Cons.IH[of "s\<lparr>sc_free := rs, sc_workers := sc_workers s @ [\<lparr>wk_task = sc_tasks s, wk_runner = r,
          wk_run = fst x, wk_attempt = snd x\<rparr>], sc_tasks := sc_tasks s + 1\<rparr>"] Cons.prems
  show ?case by (simp add: free new_workers_Cons)
qed

section \<open>The pool\<close>

text \<open>The runners on their way back to the pool.\<close>

definition being_returned :: "scheduler \<Rightarrow> nat list" where
  "being_returned s = sc_returning s @ map wk_runner (sc_leaving s)"

definition pool_inv :: "nat \<Rightarrow> scheduler \<Rightarrow> bool" where
  "pool_inv n s \<longleftrightarrow>
     mset (sc_free s) + mset (sc_expired s) + mset (being_returned s) + mset (map wk_runner (sc_workers s)) = mset [0..<n] \<and>
     distinct (map wk_task (sc_workers s)) \<and> (\<forall>k\<in>set (sc_workers s). wk_task k < sc_tasks s)"

lemma pool_init: "pool_inv (n_jobs K) (scheduler_init K)"
  by (simp add: pool_inv_def scheduler_init_def being_returned_def)

lemma pool_start:
  assumes "pool_inv n s" and "m \<le> length (sc_free s)" and "length served = m"
  shows "pool_inv n (s\<lparr>sc_free := drop m (sc_free s), sc_workers := sc_workers s @ new_workers (sc_tasks s) (sc_free s) served,
    sc_tasks := sc_tasks s + m\<rparr>)"
proof -
  have len: "length served \<le> length (sc_free s)" using assms by simp
  have "mset (take m (sc_free s)) + mset (drop m (sc_free s)) = mset (sc_free s)"
    by (metis append_take_drop_id mset_append)
  then have "mset (drop m (sc_free s)) + mset (sc_expired s) + mset (being_returned s) +
      (mset (map wk_runner (sc_workers s)) + mset (take m (sc_free s))) = mset [0..<n]"
    using assms(1) by (simp add: pool_inv_def ac_simps)
  moreover have "\<forall>k\<in>set (new_workers (sc_tasks s) (sc_free s) served). wk_task k \<in> {sc_tasks s..<sc_tasks s + m}"
    using new_workers_fields(2)[OF len, of "sc_tasks s"] assms(3)
    by (metis atLeastLessThan_upt imageI list.set_map)
  ultimately show ?thesis
    using assms(1) new_workers_fields(1,2)[OF len, of "sc_tasks s"] assms(3)
    by (fastforce simp: pool_inv_def being_returned_def)
qed

lemma pool_requeue: "pool_inv n s \<Longrightarrow> pool_inv n (requeue_expired s)"
  by (simp add: pool_inv_def requeue_expired_def being_returned_def ac_simps)

lemma pool_times:
  "pool_inv n (s\<lparr>sc_stats_at := a\<rparr>) = pool_inv n s" "pool_inv n (s\<lparr>sc_sweep_at := a\<rparr>) = pool_inv n s"
  "pool_inv n (s\<lparr>sc_got_run := b\<rparr>) = pool_inv n s"
  by (simp_all add: pool_inv_def being_returned_def)

lemma remove_worker:
  "distinct (map wk_task ks) \<Longrightarrow> k \<in> set ks \<Longrightarrow>
   add_mset (wk_runner k) (mset (map wk_runner (filter (\<lambda>x. wk_task x \<noteq> wk_task k) ks))) = mset (map wk_runner ks)"
proof (induction ks)
  case (Cons x ks)
  show ?case
  proof (cases "x = k")
    case True
    with Cons.prems have "filter (\<lambda>x. wk_task x \<noteq> wk_task k) ks = ks" by (auto simp: filter_id_conv image_iff)
    with True show ?thesis by simp
  next
    case False
    with Cons.prems have "wk_task x \<noteq> wk_task k" by auto
    with False Cons show ?thesis by simp
  qed
qed simp

lemma pool_discard:
  assumes "pool_inv n s" and "k \<in> set (sc_workers s)"
  shows "pool_inv n (discard_worker k s)"
proof -
  let ?ks = "filter (\<lambda>x. wk_task x \<noteq> wk_task k) (sc_workers s)"
  have m: "add_mset (wk_runner k) (mset (map wk_runner ?ks)) = mset (map wk_runner (sc_workers s))"
    using assms by (intro remove_worker) (auto simp: pool_inv_def)
  have "mset (sc_free s) + mset (sc_expired s) + mset (being_returned s) + add_mset (wk_runner k) (mset (map wk_runner ?ks)) =
      mset [0..<n]"
    using assms(1) unfolding m by (simp add: pool_inv_def)
  moreover have "distinct (map wk_task ?ks)" using assms(1) by (simp add: pool_inv_def distinct_map_filter)
  ultimately show ?thesis
    using assms(1) by (auto simp: pool_inv_def discard_worker_def being_returned_def ac_simps)
qed

lemma pool_hand_back:
  assumes "pool_inv n s" and "k \<in> set (sc_leaving s)"
  shows "pool_inv n (hand_back K put_ok k result s)"
proof -
  have "mset (map wk_runner (sc_leaving s)) = add_mset (wk_runner k) (mset (map wk_runner (remove1 k (sc_leaving s))))"
  proof -
    have "mset (sc_leaving s) = add_mset k (mset (remove1 k (sc_leaving s)))" using assms(2) by simp
    then show ?thesis by (metis image_mset_add_mset mset_map)
  qed
  then show ?thesis
    using assms(1)
    by (auto simp: pool_inv_def hand_back_def being_returned_def Let_def ac_simps split: outcome.split bool.split)
qed

lemma pool_cleanup: "pool_inv n s \<Longrightarrow> k \<in> set (sc_workers s) \<Longrightarrow> pool_inv n (cleanup K put_ok k result s)"
  unfolding cleanup_def by (intro pool_hand_back pool_discard) (simp_all add: discard_worker_def)

lemma pool_deliver: "pool_inv n s \<Longrightarrow> pool_inv n (deliver_runner s)"
  by (auto simp: pool_inv_def deliver_runner_def being_returned_def ac_simps split: list.split)

text \<open>On the shared loop nothing is ever on its way.\<close>

lemma shared_cleanup:
  "\<not> isolated_loops K \<Longrightarrow> being_returned s = [] \<Longrightarrow> being_returned (cleanup K put_ok k result s) = []"
  by (auto simp: being_returned_def cleanup_def hand_back_def discard_worker_def Let_def split: outcome.split bool.split)

text \<open>A poll with a free runner: what it serves, and the state it leaves.\<close>

lemma poll_ok:
  assumes js: "\<forall>g. \<exists>b. is_js g = Inr b" and free: "sc_free s @ sc_expired s \<noteq> []"
    and served: "runs_next now (length (sc_free s @ sc_expired s)) w = (served, w1)"
  shows "\<exists>s'. poll K is_js clock now (w, s) = Some (Inr (), w1, s') \<and>
    sc_workers s' = sc_workers s @ new_workers (sc_tasks s) (sc_free s @ sc_expired s) served \<and>
    sc_free s' = drop (length served) (sc_free s @ sc_expired s) \<and> (pool_inv n s \<longrightarrow> pool_inv n s') \<and>
    sc_returning s' = sc_returning s \<and> sc_leaving s' = sc_leaving s \<and> sc_expired s' = []"
proof -
  define s1 where "s1 = (if overdue (sc_stats_at s) clock (stats_interval K)
      then (requeue_expired s)\<lparr>sc_stats_at := Some clock\<rparr> else requeue_expired s)\<lparr>sc_got_run := served \<noteq> []\<rparr>"
  have s1: "sc_free s1 = sc_free s @ sc_expired s" "sc_expired s1 = []" "sc_workers s1 = sc_workers s" "sc_tasks s1 = sc_tasks s"
    "sc_sweep_at s1 = sc_sweep_at s" "sc_returning s1 = sc_returning s" "sc_leaving s1 = sc_leaving s"
    by (simp_all add: s1_def requeue_expired_def)
  have len: "length served \<le> length (sc_free s1)"
    using length_runs_next[of now "length (sc_free s @ sc_expired s)" w] served by (simp add: s1)
  define s2 where "s2 = s1\<lparr>sc_free := drop (length served) (sc_free s1), sc_workers := sc_workers s1 @
      new_workers (sc_tasks s1) (sc_free s1) served, sc_tasks := sc_tasks s1 + length served\<rparr>"
  have start: "start_workers is_js served s1 = (Inr (), s2)"
    unfolding s2_def by (rule start_workers_ok[OF len js])
  have pool: "pool_inv n s2" if "pool_inv n s"
    unfolding s2_def using that len
    by (intro pool_start) (simp_all add: s1_def pool_times pool_requeue)
  let ?s' = "if overdue (sc_sweep_at s) clock (heartbeat K * 2) then s2\<lparr>sc_sweep_at := Some clock\<rparr> else s2"
  show ?thesis
  proof (intro exI[of _ ?s'] conjI)
    have "sc_free (requeue_expired s) \<noteq> []" using free by (simp add: requeue_expired_def)
    moreover have "runs_next now (length (sc_free s1)) w = (served, w1)" using served by (simp add: s1)
    ultimately show "poll K is_js clock now (w, s) = Some (Inr (), w1, ?s')"
      using start
      by (cases "overdue (sc_stats_at s) clock (stats_interval K)")
        (simp_all add: poll_def Let_def s1_def requeue_expired_def)
  qed (use pool in \<open>simp_all add: s2_def s1 pool_times\<close>)
qed

section \<open>All interleavings\<close>

text \<open>
  A step of the runtime with its queue: an iteration of the loop, the end of a worker on the shared loop,
  with isolated loops the halves of its clean-up in the runner's thread, the delivery of a runner, or a
  call that changes the rows. The loop stops at an iteration that raises.
\<close>

inductive queue_step ::
  "queue_config \<Rightarrow> (string \<Rightarrow> bool res) \<Rightarrow> world \<times> scheduler \<Rightarrow> world \<times> scheduler \<Rightarrow> bool" for K is_js where
  poll: "poll K is_js clock now x = Some (Inr (), x') \<Longrightarrow> queue_step K is_js x x'"
| finish: "k \<in> set (sc_workers s) \<Longrightarrow> queue_step K is_js (w, s) (w, cleanup K put_ok k result s)"
| discard: "isolated_loops K \<Longrightarrow> k \<in> set (sc_workers s) \<Longrightarrow> queue_step K is_js (w, s) (w, discard_worker k s)"
| hand_back: "isolated_loops K \<Longrightarrow> k \<in> set (sc_leaving s) \<Longrightarrow> queue_step K is_js (w, s) (w, hand_back K put_ok k result s)"
| deliver: "sc_returning s \<noteq> [] \<Longrightarrow> queue_step K is_js (w, s) (w, deliver_runner s)"
| call: "system_step E cfg C w w' \<Longrightarrow> queue_step K is_js (w, s) (w', s)"

inductive_cases queue_stepE: "queue_step K is_js x x'"

definition pool_ok :: "queue_config \<Rightarrow> scheduler \<Rightarrow> bool" where
  "pool_ok K s \<longleftrightarrow> pool_inv (n_jobs K) s \<and> (isolated_loops K \<or> being_returned s = [])"

lemma queue_step_pool:
  assumes js: "\<forall>g. \<exists>b. is_js g = Inr b" and "queue_step K is_js x x'" and "pool_ok K (snd x)"
  shows "pool_ok K (snd x')"
  using assms(2)
proof (cases rule: queue_step.cases)
  case (poll clock now)
  obtain w s where x: "x = (w, s)" by fastforce
  obtain served w1 where served: "runs_next now (length (sc_free s @ sc_expired s)) w = (served, w1)" by fastforce
  have "sc_free s @ sc_expired s \<noteq> []"
    using poll by (auto simp: x poll_def requeue_expired_def Let_def split: if_splits)
  with poll_ok[OF js _ served, of K clock "n_jobs K"] poll assms(3) show ?thesis
    by (auto simp: x pool_ok_def being_returned_def)
next
  case (finish k s w put_ok result)
  then show ?thesis using assms(3) pool_cleanup shared_cleanup[of K s] by (cases "isolated_loops K") (simp_all add: pool_ok_def)
next
  case (discard k s w)
  then show ?thesis using assms(3) pool_discard by (simp add: pool_ok_def)
next
  case (hand_back k s w put_ok result)
  then show ?thesis using assms(3) pool_hand_back by (simp add: pool_ok_def)
next
  case (deliver s w)
  then show ?thesis using assms(3) pool_deliver by (auto simp: pool_ok_def being_returned_def)
next
  case (call E cfg C w w' s)
  then show ?thesis using assms(3) by simp
qed

interpretation pool: inductive_invariant "(world_init, scheduler_init K)"
  "\<lambda>x x'. (\<forall>g. \<exists>b. is_js g = Inr b) \<and> queue_step K is_js x x'" "\<lambda>x. pool_ok K (snd x)" for K is_js
proof unfold_locales
  fix x x' :: "world \<times> scheduler"
  assume "pool_ok K (snd x)" and "(\<forall>g. \<exists>b. is_js g = Inr b) \<and> queue_step K is_js x x'"
  then show "pool_ok K (snd x')" using queue_step_pool by blast
qed (simp add: pool_ok_def pool_init, simp add: scheduler_init_def being_returned_def)

text \<open>
  C14. Runners are neither lost nor shared, provided recognising a JavaScript graph never raises. In
  every state the queue can reach, by any interleaving of polls, ending workers and other calls, the free
  runners, the expired ones, those on their way back to the pool and those of the running workers are
  together exactly the \<open>N_JOBS_PER_WORKER\<close> runners, each once; only with isolated loops is any on its way.
  So the number of workers never exceeds the limit, and the metric \<open>available\<close> counts the runners without
  a worker, also those that cannot be taken yet.
\<close>

theorem runners_partition:
  assumes "(queue_step K is_js)\<^sup>*\<^sup>* (world_init, scheduler_init K) (w, s)" and "\<forall>g. \<exists>b. is_js g = Inr b"
  shows "mset (sc_free s @ sc_expired s @ being_returned s @ map wk_runner (sc_workers s)) = mset [0..<n_jobs K] \<and>
    (isolated_loops K \<or> being_returned s = []) \<and>
    distinct (map wk_runner (sc_workers s)) \<and> get_num_workers s \<le> n_jobs K \<and>
    workers_available (get_metrics K s) = int (length (sc_free s) + length (sc_expired s) + length (being_returned s))"
proof -
  have "(\<lambda>x x'. (\<forall>g. \<exists>b. is_js g = Inr b) \<and> queue_step K is_js x x')\<^sup>*\<^sup>* (world_init, scheduler_init K) (w, s)"
    using assms by simp
  from pool.good_reachable[OF this] have ok: "pool_ok K s" by simp
  then have m: "mset (sc_free s @ sc_expired s @ being_returned s @ map wk_runner (sc_workers s)) = mset [0..<n_jobs K]"
    by (simp add: pool_ok_def pool_inv_def ac_simps)
  then have "distinct (sc_free s @ sc_expired s @ being_returned s @ map wk_runner (sc_workers s))"
    by (metis distinct_upt mset_eq_imp_distinct_iff)
  moreover have "length (sc_free s @ sc_expired s @ being_returned s @ map wk_runner (sc_workers s)) = n_jobs K"
    using arg_cong[OF m, of size] by (simp only: size_mset length_upt)
  ultimately show ?thesis using m ok by (simp add: get_metrics_def get_num_workers_def pool_ok_def)
qed

text \<open>
  C34. A poll hands every run it takes to exactly one worker. With a free runner, the poll succeeds,
  changes the rows as \<open>Runs.next\<close> for the number of free runners does, and adds one worker for every
  run that call turned to \<open>running\<close>, in order, each with a runner of its own: no run is started without
  a worker, and the pool is never asked for a runner it does not have.
\<close>

theorem poll_starts_what_it_takes:
  assumes "\<forall>g. \<exists>b. is_js g = Inr b" and "sc_free s @ sc_expired s \<noteq> []"
    and "runs_next now (length (sc_free s @ sc_expired s)) w = (served, w1)"
  shows "\<exists>s' new. poll K is_js clock now (w, s) = Some (Inr (), w1, s') \<and>
    sc_workers s' = sc_workers s @ new \<and> map (\<lambda>k. (wk_run k, wk_attempt k)) new = served \<and>
    map wk_runner new @ sc_free s' = sc_free s @ sc_expired s"
proof -
  have len: "length served \<le> length (sc_free s @ sc_expired s)"
    using length_runs_next[of now "length (sc_free s @ sc_expired s)" w] assms(3) by simp
  from poll_ok[OF assms, of K clock] obtain s' where s': "poll K is_js clock now (w, s) = Some (Inr (), w1, s')"
    "sc_workers s' = sc_workers s @ new_workers (sc_tasks s) (sc_free s @ sc_expired s) served"
    "sc_free s' = drop (length served) (sc_free s @ sc_expired s)" by blast
  have "map (\<lambda>k. (wk_run k, wk_attempt k)) (new_workers (sc_tasks s) (sc_free s @ sc_expired s) served) = served"
    using len by (intro nth_equalityI) (auto simp: new_workers_def)
  moreover have "map wk_runner (new_workers (sc_tasks s) (sc_free s @ sc_expired s) served) @ sc_free s' = sc_free s @ sc_expired s"
    unfolding s'(3) new_workers_fields(1)[OF len] by (rule append_take_drop_id)
  ultimately show ?thesis using s'(1,2) by blast
qed

text \<open>
  The scheduler does not survive its first error. If recognising the graph of the run it just
  started raises, the iteration ends with an \<open>AttributeError\<close> from its own handler, which leaves the
  loop: the queue ends and SIGINT is raised, although the handler is meant to keep the scheduler going.
  The run stays \<open>running\<close> without a worker.
\<close>

theorem scheduler_dies_on_error:
  assumes "runs_next now (length (sc_free s)) w = ((r, n) # served, w1)" and "sc_free s \<noteq> []" and "sc_expired s = []"
    and "graph_of_run r = Some g" and "is_js g = Inl e"
  shows "\<exists>s'. poll K is_js clock now (w, s) = Some (Inl attribute_error, w1, s') \<and>
    sc_workers s' = sc_workers s \<and> queue_with_signal (Inl attribute_error)"
proof -
  obtain f fs where f: "sc_free s = f # fs" using assms(2) by (cases "sc_free s") auto
  have "start_worker is_js (r, n) s1 = (Inl e, s1\<lparr>sc_free := fs\<rparr>)" if "sc_free s1 = f # fs" for s1
    using that assms(4,5) by (simp add: start_worker_def)
  then show ?thesis
    using assms f by (auto simp: poll_def requeue_expired_def Let_def scheduler_failed_def queue_with_signal_def)
qed

text \<open>
  A slow task turns a regular shutdown into a failure. When the queue is cancelled, SIGINT is raised
  once more exactly if some worker or webhook needs more than the grace period of five seconds to end:
  the \<open>TimeoutError\<close> of \<open>wait_for\<close> replaces the cancellation.
\<close>

theorem slow_task_signals_again:
  "queue_with_signal (queue_result worker_ends webhook_ends s (Inl (PyError ''CancelledError''))) \<longleftrightarrow>
   (\<exists>k\<in>set (sc_workers s). 5 < worker_ends (wk_task k)) \<or> (\<exists>r\<in>set (sc_webhooks s). 5 < webhook_ends r)"
  by (auto simp: queue_with_signal_def queue_result_def cancelled_at_shutdown_def shutdown_grace_def list_ex_iff)

text \<open>
  Retrying is bounded and honest. \<open>retry_db\<close> calls the function at most three times; it returns the
  outcome of its last call, and it stops before the third call exactly when an outcome was not a
  retryable exception.
\<close>

theorem retry_db_bounded:
  "retry_db call = (result, calls) \<Longrightarrow>
   1 \<le> calls \<and> calls \<le> 3 \<and> result = call (calls - 1) \<and> (\<forall>i < calls - 1. retryable (call i)) \<and>
   (calls < 3 \<longrightarrow> \<not> retryable result)"
  by (auto simp: retry_db_def numeral_2_eq_2 numeral_3_eq_3 less_Suc_eq split: if_splits)

section \<open>Witnesses\<close>

definition demo_queue :: queue_config where
  "demo_queue = \<lparr>n_jobs = 2, heartbeat = 10, stats_interval = 60, isolated_loops = False\<rparr>"

definition no_js :: "string \<Rightarrow> bool res" where
  "no_js g = Inr False"

lemma no_js_total: "\<forall>g. \<exists>b. no_js g = Inr b"
  by (auto simp: no_js_def)

definition demo_graph_run :: "uuid \<Rightarrow> run" where
  "demo_graph_run rid = (demo_run rid ''u'' ''pending'' 3)
     \<lparr>r_kwargs := [(''config'', PDict [(''configurable'', PDict [(''graph_id'', PStr ''g'')])])]\<rparr>"

definition demo_queue_world :: world where
  "demo_queue_world = world_init\<lparr>threads := [demo_thread ''u'' ''busy''], runs := [demo_graph_run ''r1'']\<rparr>"

lemma demo_served: "map (\<lambda>x. (r_id (fst x), snd x)) (fst (runs_next 10 2 demo_queue_world)) = [(Some ''r1'', 1)]"
  by code_simp

theorem poll_starts_what_it_takes_witness:
  "\<exists>w1 s'. poll demo_queue no_js 0 10 (demo_queue_world, scheduler_init demo_queue) = Some (Inr (), w1, s') \<and>
     map (\<lambda>k. (r_id (wk_run k), wk_attempt k)) (sc_workers s') = [(Some ''r1'', 1)]"
proof -
  have free: "sc_free (scheduler_init demo_queue) @ sc_expired (scheduler_init demo_queue) \<noteq> []"
    "length (sc_free (scheduler_init demo_queue) @ sc_expired (scheduler_init demo_queue)) = 2"
    "sc_workers (scheduler_init demo_queue) = []"
    by (simp_all add: scheduler_init_def demo_queue_def)
  obtain served w1 where served: "runs_next 10 2 demo_queue_world = (served, w1)" by fastforce
  from poll_starts_what_it_takes[OF no_js_total free(1), of 10 demo_queue_world served w1 demo_queue 0] free(2,3) served
  obtain s' where s': "poll demo_queue no_js 0 10 (demo_queue_world, scheduler_init demo_queue) = Some (Inr (), w1, s')"
    "map (\<lambda>k. (wk_run k, wk_attempt k)) (sc_workers s') = served" by auto
  have "map (\<lambda>k. (r_id (wk_run k), wk_attempt k)) (sc_workers s') = map (\<lambda>x. (r_id (fst x), snd x)) served"
    by (simp add: comp_def flip: s'(2))
  with demo_served served s'(1) show ?thesis by auto
qed

theorem runners_partition_witness:
  "\<exists>s. (queue_step demo_queue no_js)\<^sup>*\<^sup>* (world_init, scheduler_init demo_queue) (world_init, s) \<and>
     sc_stats_at s = Some 0 \<and> workers_available (get_metrics demo_queue s) = 2"
proof -
  let ?s = "(scheduler_init demo_queue)\<lparr>sc_stats_at := Some 0, sc_sweep_at := Some 0\<rparr>"
  have "runs_next 10 2 world_init = ([], world_init)"
    by (simp add: runs_next_def pending_indices_def world_init_def)
  then have "poll demo_queue no_js 0 10 (world_init, scheduler_init demo_queue) = Some (Inr (), world_init, ?s)"
    by (simp add: poll_def requeue_expired_def scheduler_init_def demo_queue_def overdue_def)
  then have reach: "(queue_step demo_queue no_js)\<^sup>*\<^sup>* (world_init, scheduler_init demo_queue) (world_init, ?s)"
    by (blast intro: queue_step.poll)
  from runners_partition[OF this no_js_total] have "workers_available (get_metrics demo_queue ?s) = 2"
    by (simp add: scheduler_init_def demo_queue_def)
  with reach show ?thesis by (intro exI[of _ ?s]) simp
qed

theorem scheduler_dies_on_error_witness:
  "\<exists>w1 s'. poll demo_queue (\<lambda>g. Inl value_error) 0 10 (demo_queue_world, scheduler_init demo_queue) = Some (Inl attribute_error, w1, s')"
proof -
  have served: "map (\<lambda>x. graph_of_run (fst x)) (fst (runs_next 10 2 demo_queue_world)) = [Some ''g'']" by code_simp
  then obtain r n w1 where r: "runs_next 10 (length (sc_free (scheduler_init demo_queue))) demo_queue_world = ((r, n) # [], w1)"
    "graph_of_run r = Some ''g''"
    by (cases "runs_next 10 2 demo_queue_world") (auto simp: scheduler_init_def demo_queue_def)
  have free: "sc_free (scheduler_init demo_queue) \<noteq> []" "sc_expired (scheduler_init demo_queue) = []"
    by (simp_all add: scheduler_init_def demo_queue_def)
  from scheduler_dies_on_error[OF r(1) free r(2), of "\<lambda>g. Inl value_error" value_error demo_queue 0] show ?thesis by auto
qed

theorem retry_db_bounded_witness:
  "retry_db (\<lambda>i. if i = 0 then Inl (PyError ''RetryableException'') else Inr i) = (Inr 1, 2) \<and> (2::nat) \<le> 3"
proof -
  have r: "retry_db (\<lambda>i. if i = 0 then Inl (PyError ''RetryableException'') else Inr i) = (Inr 1, 2)" by code_simp
  from retry_db_bounded[OF r] r show ?thesis by simp
qed

end
