(* ===== verification/Stream_Sessions.thy ===== *)
theory Stream_Sessions
  imports State
begin

text \<open>
  Sessions on streams (\<open>ops.py\<close>): a worker entering and leaving a run (\<open>Runs.enter\<close>), the live loop
  and the clean-up of a joined thread stream (\<open>Threads.Stream.join_event_streaming\<close>), and the
  cancellation of one run. The codec and the JSON library are parameters, as in \<open>Streams\<close>.
\<close>

section \<open>A worker's session\<close>

definition enter_run :: "uuid \<Rightarrow> uuid option \<Rightarrow> stream_manager \<Rightarrow> nat \<times> stream_manager" where
  "enter_run rid tid sm = add_control_queue rid tid sm"

definition control_done :: "uuid \<Rightarrow> message" where
  "control_done rid = \<lparr>m_topic = ''run:'' @ rid @ '':control'', m_data = ''done'', m_id = None\<rparr>"

definition stream_done :: "(string \<Rightarrow> string \<Rightarrow> string) \<Rightarrow> uuid \<Rightarrow> message" where
  "stream_done encode rid = \<lparr>m_topic = ''run:'' @ rid @ '':stream'', m_data = encode ''control'' ''done'', m_id = None\<rparr>"

text \<open>
  What follows the body of \<open>enter\<close>. It is not in a \<open>finally\<close> block: when the body raises, nothing of
  it happens.
\<close>

definition leave_run ::
  "(string \<Rightarrow> string \<Rightarrow> string) \<Rightarrow> nat \<Rightarrow> uuid \<Rightarrow> uuid option \<Rightarrow> bool \<Rightarrow> nat \<Rightarrow> stream_manager \<Rightarrow> unit res \<times> stream_manager" where
  "leave_run encode ms rid tid resumable control_queue sm =
     remove_control_queue rid tid control_queue
       (stream_put ms rid tid (stream_done encode rid) resumable
         (stream_put ms rid tid (control_done rid) False sm))"

definition exit_run ::
  "unit res \<Rightarrow> (string \<Rightarrow> string \<Rightarrow> string) \<Rightarrow> nat \<Rightarrow> uuid \<Rightarrow> uuid option \<Rightarrow> bool \<Rightarrow> nat \<Rightarrow> stream_manager \<Rightarrow>
   unit res \<times> stream_manager" where
  "exit_run body encode ms rid tid resumable control_queue sm =
     (case body of Inl e \<Rightarrow> (Inl e, sm) | Inr _ \<Rightarrow> leave_run encode ms rid tid resumable control_queue sm)"

text \<open>
  The whole of \<open>enter\<close>: while the body runs, the listener hears \<open>inputs\<close> and the others do \<open>others\<close> with
  the stream manager; the task group ends the listener with the body. The signal is what the body sees in
  its event.
\<close>

definition run_session ::
  "(string \<Rightarrow> string \<Rightarrow> string) \<Rightarrow> nat \<Rightarrow> uuid \<Rightarrow> uuid option \<Rightarrow> bool \<Rightarrow> message option list \<Rightarrow>
   (stream_manager \<Rightarrow> stream_manager) \<Rightarrow> (signal option \<Rightarrow> unit res) \<Rightarrow> stream_manager \<Rightarrow> unit res \<times> stream_manager" where
  "run_session encode ms rid tid resumable inputs others body sm =
     (case enter_run rid tid sm of (control_queue, sm1) \<Rightarrow>
        exit_run (body (listen_for_cancellation rid tid sm1 inputs)) encode ms rid tid resumable control_queue (others sm1))"

text \<open>\<open>cancel_run\<close>.\<close>

definition cancel_run :: "saver_env \<Rightarrow> auth \<Rightarrow> time \<Rightarrow> nat \<Rightarrow> uuid \<Rightarrow> uuid \<Rightarrow> world \<Rightarrow> unit res \<times> world" where
  "cancel_run E A now ms tid rid w = runs_cancel E A now ms (Some [rid]) ''interrupt'' (Some tid) None None w"

section \<open>A thread stream's session\<close>

text \<open>\<open>topic.split("run:")[1].split(":")[0]\<close>; \<open>None\<close> is an \<open>IndexError\<close>.\<close>

fun after_run :: "string \<Rightarrow> string option" where
  "after_run [] = None"
| "after_run (c # cs) = (if prefix ''run:'' (c # cs) then Some (drop 4 (c # cs)) else after_run cs)"

fun before_run :: "string \<Rightarrow> string" where
  "before_run [] = []"
| "before_run (c # cs) = (if prefix ''run:'' (c # cs) then [] else c # before_run cs)"

definition topic_run :: "string \<Rightarrow> uuid option" where
  "topic_run topic = map_option (\<lambda>s. takeWhile (\<lambda>c. c \<noteq> CHR '':'') (before_run s)) (after_run topic)"

type_synonym thread_event = "string \<times> string \<times> string option \<times> uuid"

text \<open>One message of a queue: \<open>decode\<close> gives \<open>None\<close> for a frame it rejects, which is skipped.\<close>

definition live_message ::
  "(message \<Rightarrow> (string \<times> string) option) \<Rightarrow> (string \<Rightarrow> pyval option) \<Rightarrow> (pyval \<Rightarrow> string) \<Rightarrow> string list \<Rightarrow>
   uuid \<Rightarrow> message \<Rightarrow> thread_event list res" where
  "live_message decode loads dumps modes source m =
     (case decode m of
        None \<Rightarrow> Inr []
      | Some (event, payload) \<Rightarrow>
          if event = ''control'' \<and> payload = ''done''
          then (case topic_run (m_topic m) of
                  None \<Rightarrow> Inl (PyError ''IndexError'')
                | Some r \<Rightarrow>
                    (let meta = run_done_payload dumps r
                     in bind_res (should_filter_event loads modes ''metadata'' meta) (\<lambda>skip.
                          Inr (if skip then [] else [(''metadata'', meta, m_id m, r)]))))
          else bind_res (should_filter_event loads modes event payload) (\<lambda>skip.
                 Inr (if skip then [] else [(event, payload, m_id m, source)])))"

text \<open>
  One pass over the queues: each is emptied in turn. A message that raises ends the session; it has
  been taken from its queue, the later ones have not.
\<close>

fun live_messages ::
  "(message \<Rightarrow> thread_event list res) \<Rightarrow> message list \<Rightarrow> thread_event list \<times> exc option \<times> message list" where
  "live_messages f [] = ([], None, [])"
| "live_messages f (m # ms) =
     (case f m of
        Inl e \<Rightarrow> ([], Some e, ms)
      | Inr es \<Rightarrow> (case live_messages f ms of (es', err, rest) \<Rightarrow> (es @ es', err, rest)))"

fun live_pass ::
  "(uuid \<Rightarrow> message \<Rightarrow> thread_event list res) \<Rightarrow> (uuid \<times> nat) list \<Rightarrow> stream_manager \<Rightarrow>
   thread_event list \<times> exc option \<times> stream_manager" where
  "live_pass f [] sm = ([], None, sm)"
| "live_pass f ((source, q) # qs) sm =
     (case live_messages (f source) (contents sm q) of (es, err, rest) \<Rightarrow>
        (let sm1 = sm\<lparr>contents := (contents sm)(q := rest)\<rparr>
         in if err \<noteq> None then (es, err, sm1)
            else (case live_pass f qs sm1 of (es', err', sm2) \<Rightarrow> (es @ es', err', sm2))))"

text \<open>One round of the loop: subscribe to what is new, then drain all queues of the session.\<close>

definition live_round ::
  "(uuid \<Rightarrow> message \<Rightarrow> thread_event list res) \<Rightarrow> uuid \<Rightarrow> (uuid \<times> uuid) list \<Rightarrow> uuid list \<times> (uuid \<times> nat) list \<Rightarrow>
   stream_manager \<Rightarrow> thread_event list \<times> exc option \<times> (uuid list \<times> (uuid \<times> nat) list) \<times> stream_manager" where
  "live_round f tid run_rows session sm =
     (case session of (seen, created) \<Rightarrow>
      case thread_subscribe tid run_rows seen sm of (fresh, seen', sm1) \<Rightarrow>
      case live_pass f (created @ fresh) sm1 of (es, err, sm2) \<Rightarrow> (es, err, (seen', created @ fresh), sm2))"

text \<open>The \<open>finally\<close> block; errors are ignored.\<close>

definition close_session :: "uuid \<Rightarrow> (uuid \<times> nat) list \<Rightarrow> stream_manager \<Rightarrow> stream_manager" where
  "close_session tid created sm = fold (\<lambda>(r, q) sm. snd (remove_queue r (Some tid) q sm)) created sm"

section \<open>Properties\<close>

lemma control_done_topic: "is_control_topic (m_topic (control_done rid))"
  using is_control_topic_run[of "''run:'' @ rid @ '':''" "[]"] by (simp add: control_done_def)

lemma remove_control_contents: "contents (snd (remove_control_queue rid tid q sm)) = contents sm"
  by (simp add: remove_control_queue_def split: sum.split)

lemma join_live_ends:
  "(''control'', ''done'') \<in> decode ` set ms \<Longrightarrow>
   snd (join_live decode modes ignore not_found (Some (resumable, status)) (map JMessage ms)) = Finished"
  by (induction ms) (auto split: prod.splits)

text \<open>
  C35. The end of a run reaches everybody. When a worker leaves a run normally, every queue subscribed to
  the run receives the \<open>done\<close> message after everything sent before, so a client that joined the run's
  stream finishes whatever else its queue holds; and the run's control key says \<open>done\<close> for whoever asks
  later.
\<close>

theorem leaving_ends_every_join:
  assumes "q \<in> set (dd_get (sm_queues sm) (thread_key tid) rid)"
    and "\<not> is_control_topic (m_topic (stream_done encode rid))"
    and "\<And>i. decode (m\<lparr>m_id := i\<rparr>) = (''control'', ''done'')" and "m = stream_done encode rid"
    and "sm' = snd (exit_run (Inr ()) encode ms rid tid resumable cq sm)"
  shows "prefix (contents sm q) (contents sm' q) \<and>
    snd (join_live decode modes ignore not_found (Some (resumable, status)) (map JMessage (contents sm' q))) = Finished \<and>
    map_option m_data (get_control_key rid tid sm') = Some ''done''"
proof -
  let ?sm1 = "stream_put ms rid tid (control_done rid) False sm"
  let ?sm2 = "stream_put ms rid tid (stream_done encode rid) resumable ?sm1"
  have sm': "contents sm' = contents ?sm2" "sm_control_keys sm' = sm_control_keys ?sm2"
    by (simp_all add: assms(5) exit_run_def leave_run_def remove_control_contents remove_control_queue_def split: sum.split)
  have rec: "recipients rid tid (stream_done encode rid) ?sm1 = dd_get (sm_queues sm) (thread_key tid) rid"
    using assms(2) by (simp add: recipients_def stream_put_fields)
  have cont: "contents sm' q = contents ?sm1 q @
      replicate (count_list (dd_get (sm_queues sm) (thread_key tid) rid) q) (stamped ms (stream_done encode rid))"
    by (simp add: sm' stream_put_fields(1) rec)
  have "stamped ms (stream_done encode rid) \<in> set (contents sm' q)"
    using assms(1) count_list_0_iff[of "dd_get (sm_queues sm) (thread_key tid) rid" q] by (simp add: cont)
  moreover have "decode (stamped ms (stream_done encode rid)) = (''control'', ''done'')"
    using assms(3) by (simp add: stamped_def assms(4))
  ultimately have "(''control'', ''done'') \<in> decode ` set (contents sm' q)" by force
  moreover have "prefix (contents sm q) (contents sm' q)"
    by (simp add: cont stream_put_fields(1))
  moreover have "get_control_key rid tid sm' = get_control_key rid tid ?sm2"
    by (simp add: get_control_key_def sm')
  then have "map_option m_data (get_control_key rid tid sm') = Some ''done''"
    using assms(2) control_done_topic
    by (simp add: control_key_after_put stamped_def) (simp add: control_done_def)
  ultimately show ?thesis using join_live_ends by blast
qed

lemma live_messages_ok:
  "\<forall>m\<in>set ms. \<exists>es. f m = Inr es \<Longrightarrow> live_messages f ms = (concat (map (\<lambda>m. case f m of Inr es \<Rightarrow> es | Inl _ \<Rightarrow> []) ms), None, [])"
  by (induction ms) auto

text \<open>
  A pass of a thread stream delivers each waiting message once. If no waiting message raises, one
  pass over the queues of a session yields, queue by queue and in the order of each queue, exactly the
  events of the messages that were waiting, and leaves those queues empty and every other queue as it was.
\<close>

theorem live_pass_exact:
  assumes "\<forall>(source, q)\<in>set qs. \<forall>m\<in>set (contents sm q). \<exists>es. f source m = Inr es" and "distinct (map snd qs)"
  shows "\<exists>sm'. live_pass f qs sm =
      (concat (map (\<lambda>(source, q). concat (map (\<lambda>m. case f source m of Inr es \<Rightarrow> es | Inl _ \<Rightarrow> []) (contents sm q))) qs), None, sm') \<and>
    (\<forall>q. contents sm' q = (if q \<in> snd ` set qs then [] else contents sm q))"
  using assms
proof (induction qs arbitrary: sm)
  case (Cons sq qs)
  obtain source q where sq: "sq = (source, q)" by fastforce
  let ?ev = "\<lambda>s m. case f s m of Inr es \<Rightarrow> es | Inl _ \<Rightarrow> []"
  define sm1 where "sm1 = sm\<lparr>contents := (contents sm)(q := [])\<rparr>"
  have q: "live_messages (f source) (contents sm q) = (concat (map (?ev source) (contents sm q)), None, [])"
    using Cons.prems(1) by (intro live_messages_ok) (simp add: sq)
  have other: "contents sm1 q' = contents sm q'" if "q' \<in> snd ` set qs" for q'
    using that Cons.prems(2) by (auto simp: sm1_def sq)
  then have "\<forall>(source, q)\<in>set qs. \<forall>m\<in>set (contents sm1 q). \<exists>es. f source m = Inr es"
    using Cons.prems(1) by fastforce
  moreover have "distinct (map snd qs)" using Cons.prems(2) by simp
  ultimately obtain sm' where sm': "live_pass f qs sm1 =
      (concat (map (\<lambda>(source, q). concat (map (?ev source) (contents sm1 q))) qs), None, sm')"
    "\<forall>q. contents sm' q = (if q \<in> snd ` set qs then [] else contents sm1 q)"
    using Cons.IH by blast
  have same: "map (\<lambda>(source, q). concat (map (?ev source) (contents sm1 q))) qs =
      map (\<lambda>(source, q). concat (map (?ev source) (contents sm q))) qs"
    using other by (intro map_cong) force+
  show ?case
    using sm' q unfolding same by (intro exI[of _ sm']) (auto simp: sq sm1_def)
qed simp

lemma subscribe_runs_streams:
  "sm_thread_streams (snd (snd (subscribe_runs tid rows seen sm))) = sm_thread_streams sm"
proof -
  have "sm_thread_streams (snd (snd (fold (\<lambda>(run_id, t) (queues, seen, sm).
        if t = tid \<and> run_id \<notin> set seen
        then (case add_queue run_id (Some tid) sm of (q, sm') \<Rightarrow> (queues @ [(run_id, q)], seen @ [run_id], sm'))
        else (queues, seen, sm)) rows (qs, seen, sm)))) = sm_thread_streams sm" for qs
  proof (induction rows arbitrary: qs seen sm)
    case (Cons x rows)
    show ?case
      using Cons by (auto simp: case_prod_unfold add_queue_fields)
  qed simp
  then show ?thesis by (simp add: subscribe_runs_def)
qed

text \<open>
  A thread stream's own queue is never removed. A client joins a thread's stream and disconnects:
  after the clean-up of its session, the queue it created for the thread is still registered, so every
  later state update of the thread is stored in it, for nobody, as long as the process lives.
\<close>

theorem thread_queue_leaks:
  assumes "thread_subscribe tid rows [] sm = (created, seen, sm1)"
  shows "dget_default (sm_thread_streams (close_session tid created sm1)) tid [] =
      dget_default (sm_thread_streams sm) tid [] @ [next_queue sm] \<and>
    (\<exists>m'. contents (thread_publish encode ms tid event msg (close_session tid created sm1)) (next_queue sm) =
       contents (close_session tid created sm1) (next_queue sm) @ m' \<and> m' \<noteq> [])"
proof -
  have "sm_thread_streams sm1 = sm_thread_streams (snd (add_thread_stream tid sm))"
    using assms subscribe_runs_streams[of tid rows "[tid]" "snd (add_thread_stream tid sm)"]
    by (auto simp: thread_subscribe_def case_prod_unfold)
  moreover have "sm_thread_streams (fold (\<lambda>(r, q) sm. snd (remove_queue r (Some tid) q sm)) qs s) = sm_thread_streams s" for qs s
    by (induction qs arbitrary: s) (auto simp: remove_queue_def split: sum.split)
  ultimately have streams: "dget_default (sm_thread_streams (close_session tid created sm1)) tid [] =
      dget_default (sm_thread_streams sm) tid [] @ [next_queue sm]"
    by (simp add: close_session_def add_thread_stream_fields)
  then have "count_list (dget_default (sm_thread_streams (close_session tid created sm1)) tid []) (next_queue sm) \<noteq> 0"
    by (simp add: count_list_0_iff)
  with streams show ?thesis by (simp add: thread_publish_def put_thread_fields(1))
qed

theorem leaving_ends_every_join_witness:
  "snd (join_live (\<lambda>m. (''control'', m_data m)) [''values''] False ''no'' (Some (True, ''success''))
     (map JMessage (contents (snd (exit_run (Inr ()) (\<lambda>a b. b) 7 ''r'' (Some ''t'') True 5
        (snd (add_queue ''r'' (Some ''t'') stream_manager_init)))) 0))) = Finished"
proof -
  have q: "0 \<in> set (dd_get (sm_queues (snd (add_queue ''r'' (Some ''t'') stream_manager_init))) (thread_key (Some ''t'')) ''r'')"
    by code_simp
  have t: "\<not> is_control_topic (m_topic (stream_done (\<lambda>a b. b) ''r''))" by code_simp
  show ?thesis
    using leaving_ends_every_join[OF q t _ refl refl, where decode = "\<lambda>m. (''control'', m_data m)"]
    by (simp add: stream_done_def)
qed

theorem live_pass_exact_witness:
  "fst (live_pass (\<lambda>s m. Inr [(''values'', m_data m, None, s)]) [(''r'', 0), (''t'', 3)]
     (stream_manager_init\<lparr>contents := (\<lambda>_. [])(0 := [control_done ''r''])\<rparr>)) = [(''values'', ''done'', None, ''r'')]"
  using live_pass_exact[of "[(''r'', 0), (''t'', 3)]"
     "stream_manager_init\<lparr>contents := (\<lambda>_. [])(0 := [control_done ''r''])\<rparr>" "\<lambda>s m. Inr [(''values'', m_data m, None, s)]"]
  by (auto simp: control_done_def)

theorem thread_queue_leaks_witness:
  "dget_default (sm_thread_streams (close_session ''t'' [(''t'', 0)]
     (snd (snd (thread_subscribe ''t'' [] [] stream_manager_init))))) ''t'' [] = [0]"
proof -
  have "fst (thread_subscribe ''t'' [] [] stream_manager_init) = [(''t'', 0)]" by code_simp
  then have "thread_subscribe ''t'' [] [] stream_manager_init =
      ([(''t'', 0)], fst (snd (thread_subscribe ''t'' [] [] stream_manager_init)),
       snd (snd (thread_subscribe ''t'' [] [] stream_manager_init)))"
    by (simp add: prod_eq_iff)
  from thread_queue_leaks[OF this] show ?thesis by (simp add: stream_manager_init_def dget_default_def)
qed


section \<open>A listener that waited in vain\<close>

text \<open>
  The listener of a run ends when no message came for its timeout: what is published to the run's control queue
  later, an interruption or a rollback, is not heard by the worker, however long it goes on.
\<close>

theorem listener_deaf_after_timeout:
  assumes "list_all (\<lambda>m. m_data m \<notin> {''rollback'', ''interrupt'', ''done''}) ms" and "get_control_key rid tid sm = None"
  shows "listen_for_cancellation rid tid sm (map Some ms @ None # inputs) = None"
proof -
  have "listen_loop (map Some ms @ None # inputs) = None" using assms(1) by (induction ms) auto
  then show ?thesis by (simp add: listen_for_cancellation_def assms(2))
qed

theorem listener_deaf_after_timeout_witness:
  "listen_for_cancellation ''r'' (Some ''t'') stream_manager_init [None, Some \<lparr>m_topic = ''run:r:control'', m_data = ''interrupt'', m_id = None\<rparr>] = None"
proof -
  have "get_control_key ''r'' (Some ''t'') stream_manager_init = None" by code_simp
  from listener_deaf_after_timeout[OF _ this, of "[]"] show ?thesis by simp
qed

end
