(* ===== verification/Store.thy ===== *)
theory Store
  imports Runtime_State
begin

text \<open>
  The key-value store with expiry, \<open>DiskBackedInMemStore\<close> of \<open>store.py\<close>: TTL records beside the
  items, refreshing them on reads, validation before a write, the size estimates, the sweep of
  expired items, and the start and the loop of the background sweeper. What the base class
  (langgraph's \<open>InMemoryStore\<close>) does to items and vectors when it applies a batch of writes, which
  items a read returns, and the pickled size of an entry are parameters. Items and vectors are
  opaque.
\<close>

section \<open>State\<close>

type_synonym namespace = "string list"
type_synonym item_key = "namespace \<times> string"
type_synonym 'a buckets = "(namespace, (string, 'a) dict) dict"

record item_ttl =
  expires_at :: time
  keep_minutes :: pfloat

record store_sweep_stats =
  swept_items :: nat
  swept_bytes :: int
  swept_total :: int
  swept_ratio :: "rat option"

record ('i, 'v) store =
  st_data :: "'i buckets"
  st_vectors :: "'v buckets"
  st_ttl :: "(item_key, item_ttl) dict"
  st_sizes :: "item_key tracker"
  st_last :: store_sweep_stats

text \<open>A write: \<open>po_value = None\<close> deletes; \<open>po_ttl = None\<close> stores without expiry.\<close>

record put_op =
  po_value :: "pyval option"
  po_ttl :: "pyval option"

text \<open>
  What the base class does to the items and vectors for a batch of writes, which includes the vectors that
  its \<open>batch\<close> inserts before it calls \<open>_apply_put_ops\<close>: in a batch that is rejected for its TTL these
  are taken not to be inserted.
\<close>

record ('i, 'v) store_env =
  apply_base :: "(item_key, put_op) dict \<Rightarrow> 'i buckets \<times> 'v buckets \<Rightarrow> 'i buckets \<times> 'v buckets"
  entry_size :: "item_key \<Rightarrow> 'i option \<Rightarrow> 'v option \<Rightarrow> int"

text \<open>\<open>buckets.get(namespace, {}).get(key)\<close>.\<close>

definition bucket_get :: "'a buckets \<Rightarrow> item_key \<Rightarrow> 'a option" where
  "bucket_get d k = (case map_of d (fst k) of None \<Rightarrow> None | Some b \<Rightarrow> map_of b (snd k))"

definition bucket_pop :: "item_key \<Rightarrow> 'a buckets \<Rightarrow> 'a buckets" where
  "bucket_pop k d =
     (case map_of d (fst k) of None \<Rightarrow> d | Some b \<Rightarrow> AList.update (fst k) (AList.delete (snd k) b) d)"

definition drop_if_empty :: "namespace \<Rightarrow> 'a buckets \<Rightarrow> 'a buckets" where
  "drop_if_empty ns d = (if dget_default d ns [] = [] then AList.delete ns d else d)"

definition drop_empty_buckets :: "namespace \<Rightarrow> ('i, 'v) store \<Rightarrow> ('i, 'v) store" where
  "drop_empty_buckets ns s =
     s\<lparr>st_data := drop_if_empty ns (st_data s), st_vectors := drop_if_empty ns (st_vectors s)\<rparr>"

section \<open>Size estimates and start-up\<close>

definition estimate_item :: "('i, 'v) store_env \<Rightarrow> item_key \<Rightarrow> ('i, 'v) store \<Rightarrow> int" where
  "estimate_item E k s = entry_size E k (bucket_get (st_data s) k) (bucket_get (st_vectors s) k)"

definition track_item :: "('i, 'v) store_env \<Rightarrow> item_key \<Rightarrow> ('i, 'v) store \<Rightarrow> ('i, 'v) store" where
  "track_item E k s =
     (if bucket_get (st_data s) k = None then s\<lparr>st_sizes := snd (remove_size k (st_sizes s))\<rparr>
      else s\<lparr>st_sizes := set_size k (estimate_item E k s) (st_sizes s)\<rparr>)"

definition item_keys :: "'a buckets \<Rightarrow> item_key list" where
  "item_keys d = concat (map (\<lambda>(ns, b). map (\<lambda>k. (ns, k)) (dkeys b)) d)"

definition rebuild_sizes :: "('i, 'v) store_env \<Rightarrow> ('i, 'v) store \<Rightarrow> ('i, 'v) store" where
  "rebuild_sizes E s = fold (track_item E) (item_keys (st_data s)) (s\<lparr>st_sizes := clear_sizes (st_sizes s)\<rparr>)"

definition drop_orphans :: "('i, 'v) store \<Rightarrow> ('i, 'v) store" where
  "drop_orphans s =
     s\<lparr>st_ttl := fold (\<lambda>k ttl. if bucket_get (st_data s) k = None then AList.delete k ttl else ttl)
                   (dkeys (st_ttl s)) (st_ttl s)\<rparr>"

text \<open>\<open>__init__\<close> on the loaded (or empty) dictionaries.\<close>

definition open_store ::
  "('i, 'v) store_env \<Rightarrow> 'i buckets \<Rightarrow> 'v buckets \<Rightarrow> (item_key, item_ttl) dict \<Rightarrow> ('i, 'v) store" where
  "open_store E d v ttl =
     (let s = rebuild_sizes E (drop_orphans \<lparr>st_data = d, st_vectors = v, st_ttl = ttl, st_sizes = tracker_init,
                st_last = \<lparr>swept_items = 0, swept_bytes = 0, swept_total = 0, swept_ratio = Some 0\<rparr>\<rparr>)
      in s\<lparr>st_last := \<lparr>swept_items = 0, swept_bytes = 0, swept_total = total_bytes (st_sizes s), swept_ratio = Some 0\<rparr>\<rparr>)"

section \<open>Refresh on read\<close>

definition refresh_ttl :: "time \<Rightarrow> item_key \<Rightarrow> ('i, 'v) store \<Rightarrow> unit res \<times> ('i, 'v) store" where
  "refresh_ttl now k s =
     (case map_of (st_ttl s) k of
        None \<Rightarrow> (Inr (), s)
      | Some r \<Rightarrow> attempt (plus_minutes now (keep_minutes r)) s (\<lambda>t.
          (Inr (), s\<lparr>st_ttl := AList.update k \<lparr>expires_at = t, keep_minutes = keep_minutes r\<rparr> (st_ttl s)\<rparr>)))"

fun refresh_each :: "time \<Rightarrow> item_key list \<Rightarrow> ('i, 'v) store \<Rightarrow> unit res \<times> ('i, 'v) store" where
  "refresh_each now [] s = (Inr (), s)"
| "refresh_each now (k # ks) s =
     (case refresh_ttl now k s of (r, s1) \<Rightarrow> attempt r s1 (\<lambda>_. refresh_each now ks s1))"

datatype store_op = GetOp item_key bool | OtherOp

text \<open>\<open>found\<close> tells for each operation whether the base class returned an \<open>Item\<close>.\<close>

definition keys_read :: "store_op list \<Rightarrow> bool list \<Rightarrow> item_key list" where
  "keys_read ops found =
     concat (map (\<lambda>(x, b). case x of GetOp k refresh \<Rightarrow> if refresh \<and> b then [k] else [] | OtherOp \<Rightarrow> []) (zip ops found))"

definition prepare_ops :: "time \<Rightarrow> store_op list \<Rightarrow> bool list \<Rightarrow> ('i, 'v) store \<Rightarrow> unit res \<times> ('i, 'v) store" where
  "prepare_ops now ops found s = refresh_each now (keys_read ops found) s"

text \<open>A search: whether it refreshes, and the items it returned.\<close>

definition batch_search :: "time \<Rightarrow> (bool \<times> item_key list) list \<Rightarrow> ('i, 'v) store \<Rightarrow> unit res \<times> ('i, 'v) store" where
  "batch_search now searches s = refresh_each now (concat (map snd (filter fst searches))) s"

section \<open>Writes\<close>

definition ttl_update :: "time \<Rightarrow> put_op \<Rightarrow> item_ttl option res" where
  "ttl_update now p =
     (case (po_value p, po_ttl p) of
        (Some _, Some m) \<Rightarrow>
          bind_res (py_float m) (\<lambda>x. bind_res (plus_minutes now x) (\<lambda>t.
            Inr (Some \<lparr>expires_at = t, keep_minutes = x\<rparr>)))
      | _ \<Rightarrow> Inr None)"

fun ttl_updates :: "time \<Rightarrow> (item_key, put_op) dict \<Rightarrow> (item_key, item_ttl option) dict res" where
  "ttl_updates now [] = Inr []"
| "ttl_updates now ((k, p) # ps) =
     bind_res (ttl_update now p) (\<lambda>r. bind_res (ttl_updates now ps) (\<lambda>rs. Inr ((k, r) # rs)))"

definition apply_ttl :: "item_key \<times> item_ttl option \<Rightarrow> (item_key, item_ttl) dict \<Rightarrow> (item_key, item_ttl) dict" where
  "apply_ttl u ttl = (case snd u of None \<Rightarrow> AList.delete (fst u) ttl | Some r \<Rightarrow> AList.update (fst u) r ttl)"

definition apply_put_ops ::
  "('i, 'v) store_env \<Rightarrow> time \<Rightarrow> (item_key, put_op) dict \<Rightarrow> ('i, 'v) store \<Rightarrow> unit res \<times> ('i, 'v) store" where
  "apply_put_ops E now puts s =
     attempt (ttl_updates now puts) s (\<lambda>us.
       (let (d, v) = apply_base E puts (st_data s, st_vectors s);
            s1 = s\<lparr>st_data := d, st_vectors := v, st_ttl := fold apply_ttl us (st_ttl s)\<rparr>;
            s2 = fold (track_item E) (dkeys puts) s1
        in (Inr (), fold drop_empty_buckets (map fst (dkeys puts)) s2)))"

section \<open>The sweep\<close>

definition expired_keys :: "time \<Rightarrow> ('i, 'v) store \<Rightarrow> item_key list" where
  "expired_keys now s = dkeys (filter (\<lambda>(k, r). expires_at r \<le> now) (st_ttl s))"

definition sweep_key :: "item_key \<Rightarrow> nat \<times> int \<times> ('i, 'v) store \<Rightarrow> nat \<times> int \<times> ('i, 'v) store" where
  "sweep_key k x =
     (case x of (n, bytes, s) \<Rightarrow>
       (let (size, t) = remove_size k (st_sizes s);
            present = bucket_get (st_data s) k \<noteq> None;
            s1 = s\<lparr>st_sizes := t, st_data := (if present then bucket_pop k (st_data s) else st_data s),
                   st_vectors := bucket_pop k (st_vectors s), st_ttl := AList.delete k (st_ttl s)\<rparr>
        in if present then (n + 1, bytes + size, s1) else (n, bytes, s1)))"

definition sweep_ttl :: "time \<Rightarrow> ('i, 'v) store \<Rightarrow> nat \<times> ('i, 'v) store" where
  "sweep_ttl now s =
     (let before = total_bytes (st_sizes s);
          ks = expired_keys now s;
          (n, bytes, s1) = fold sweep_key ks (0, 0, s);
          s2 = fold drop_empty_buckets (remdups (map fst ks)) s1
      in (n, s2\<lparr>st_last := \<lparr>swept_items = n, swept_bytes = bytes, swept_total = before,
                             swept_ratio = deleted_ratio (Some bytes) (Some before)\<rparr>\<rparr>))"

section \<open>The background sweeper\<close>

text \<open>
  \<open>sw_running\<close>: there is a task and it is not done. \<open>sw_cancelled\<close>: its cancellation was requested.
\<close>

record sweeper =
  sw_config :: "pdict option"
  sw_running :: bool
  sw_stop :: bool
  sw_cancelled :: bool
  sw_closed :: bool

datatype start_result = NoConfig | AlreadyRunning | Started pfloat

definition is_nonpositive :: "pfloat \<Rightarrow> bool" where
  "is_nonpositive x = (case x of Finite r \<Rightarrow> r \<le> 0 | Infinity neg \<Rightarrow> neg | Not_a_Number \<Rightarrow> False)"

definition start_ttl_sweeper :: "pyval option \<Rightarrow> sweeper \<Rightarrow> start_result res \<times> sweeper" where
  "start_ttl_sweeper interval sw =
     (case sw_config sw of
        None \<Rightarrow> (Inr NoConfig, sw)
      | Some config \<Rightarrow>
          if config = [] then (Inr NoConfig, sw)
          else if sw_running sw then (Inr AlreadyRunning, sw)
          else
            (let sw1 = sw\<lparr>sw_stop := False\<rparr>;
                 configured = (case interval of Some i \<Rightarrow> i | None \<Rightarrow> dget_default config ''sweep_interval_minutes'' PNone)
             in attempt (py_float (if configured = PNone then PInt 5 else configured)) sw1 (\<lambda>x.
                  if is_nonpositive x then (Inl value_error, sw1)
                  else (Inr (Started x), sw1\<lparr>sw_running := True\<rparr>))))"

text \<open>
  The loop: what ends one wait is a timeout (and the clock then), the stop event or the cancellation
  of the task. The result tells whether the loop has ended.
\<close>

datatype wakeup = Timeout time | Stop_set | Cancelled

fun sweep_loop :: "wakeup list \<Rightarrow> ('i, 'v) store \<Rightarrow> bool \<times> ('i, 'v) store" where
  "sweep_loop [] s = (False, s)"
| "sweep_loop (Timeout now # ws) s = sweep_loop ws (snd (sweep_ttl now s))"
| "sweep_loop (_ # ws) s = (True, s)"

text \<open>\<open>in_time\<close>: the task ends before the timeout, if there is one.\<close>

definition stop_ttl_sweeper :: "bool \<Rightarrow> sweeper \<Rightarrow> bool \<times> sweeper" where
  "stop_ttl_sweeper in_time sw =
     (if \<not> sw_running sw then (True, sw)
      else if in_time then (True, sw\<lparr>sw_stop := True, sw_running := False\<rparr>)
      else (False, sw\<lparr>sw_stop := True\<rparr>))"

text \<open>\<open>close\<close>, without the writing of the dictionaries' files.\<close>

definition close_store :: "sweeper \<Rightarrow> sweeper" where
  "close_store sw =
     (if sw_closed sw then sw
      else sw\<lparr>sw_closed := True, sw_cancelled := sw_cancelled sw \<or> sw_running sw\<rparr>)"

section \<open>The module\<close>

text \<open>
  The stores the module ever created, each with its sweeper, by number; \<open>sm_current\<close> is the global
  \<open>STORE\<close>, \<open>sm_handles\<close> the store behind the \<open>BatchedStore\<close> every OS thread holds. Resolving
  embeddings is outside \<open>src/\<close> and changes the index configuration only.
\<close>

record store_module =
  sm_created :: "sweeper list"
  sm_current :: nat
  sm_handles :: "(nat, nat) dict"
  sm_config :: "pdict option"

definition new_sweeper :: "pdict option \<Rightarrow> sweeper" where
  "new_sweeper config =
     \<lparr>sw_config = config, sw_running = False, sw_stop = False, sw_cancelled = False, sw_closed = False\<rparr>"

definition store_module_init :: store_module where
  "store_module_init = \<lparr>sm_created = [new_sweeper None], sm_current = 0, sm_handles = [], sm_config = None\<rparr>"

text \<open>\<open>config.get("ttl") or None\<close>; \<open>ttl.copy() if ttl else None\<close> of the constructor leaves it.\<close>

definition store_ttl_config :: "pdict \<Rightarrow> pdict option" where
  "store_ttl_config config =
     (case map_of config ''ttl'' of Some (PDict d) \<Rightarrow> if d = [] then None else Some d | _ \<Rightarrow> None)"

definition set_store_config :: "pdict \<Rightarrow> store_module \<Rightarrow> store_module" where
  "set_store_config config m =
     m\<lparr>sm_config := Some config,
       sm_created := (sm_created m)[sm_current m := close_store (sm_created m ! sm_current m)] @
         [new_sweeper (store_ttl_config config)],
       sm_current := length (sm_created m)\<rparr>"

text \<open>\<open>Store()\<close> in an OS thread: the store behind the handle it returns.\<close>

definition store_handle :: "nat \<Rightarrow> store_module \<Rightarrow> nat \<times> store_module" where
  "store_handle thread m =
     (if map_of (sm_handles m) thread = Some (sm_current m) then (sm_current m, m)
      else (sm_current m, m\<lparr>sm_handles := AList.update thread (sm_current m) (sm_handles m)\<rparr>))"

end
