(* ===== verification/Store_Props.thy ===== *)
theory Store_Props
  imports Store
begin

text \<open>
  The invariant of the store (TTL records and size entries belong to stored items, and every recorded
  size is the estimate of the stored entry), its preservation by every operation, the exact effect of
  a sweep, and the lifetime of an item.
\<close>

section \<open>Buckets\<close>

definition wf_buckets :: "'a buckets \<Rightarrow> bool" where
  "wf_buckets d \<longleftrightarrow> wf_dict d \<and> (\<forall>(ns, b)\<in>set d. wf_dict b)"

lemma wf_buckets_get: "wf_buckets d \<Longrightarrow> map_of d ns = Some b \<Longrightarrow> wf_dict b"
  by (auto simp: wf_buckets_def dest: map_of_SomeD)

lemma wf_bucket_pop [simp]: "wf_buckets d \<Longrightarrow> wf_buckets (bucket_pop k d)"
  by (auto simp: bucket_pop_def wf_buckets_get split: option.split)
    (auto simp: wf_buckets_def dest!: set_update_mem map_of_SomeD)

lemma wf_drop_if_empty [simp]: "wf_buckets d \<Longrightarrow> wf_buckets (drop_if_empty ns d)"
  by (auto simp: wf_buckets_def drop_if_empty_def dest: set_delete_mem)

lemma bucket_get_pop [simp]: "bucket_get (bucket_pop k d) = (bucket_get d)(k := None)"
  by (rule ext) (auto simp: bucket_get_def bucket_pop_def dict_simps prod_eq_iff split: option.splits)

lemma bucket_get_drop [simp]: "bucket_get (drop_if_empty ns d) = bucket_get d"
  by (rule ext) (auto simp: bucket_get_def drop_if_empty_def dict_simps dget_default_def split: option.splits)

lemma dom_get: "k \<in> fst ` set d \<longleftrightarrow> map_of d k \<noteq> None"
  by (metis map_of_eq_None_iff)

lemma item_keys_iff: "wf_buckets d \<Longrightarrow> k \<in> set (item_keys d) \<longleftrightarrow> bucket_get d k \<noteq> None"
proof -
  assume wf: "wf_buckets d"
  have "k \<in> set (item_keys d) \<longleftrightarrow> (\<exists>b. (fst k, b) \<in> set d \<and> snd k \<in> fst ` set b)"
    by (force simp: item_keys_def)
  also have "\<dots> \<longleftrightarrow> (\<exists>b. map_of d (fst k) = Some b \<and> snd k \<in> fst ` set b)"
    using wf wf_dict_mem[of d] by (auto simp: wf_buckets_def)
  also have "\<dots> \<longleftrightarrow> bucket_get d k \<noteq> None"
    by (simp add: bucket_get_def dom_get split: option.split)
  finally show ?thesis .
qed

section \<open>The invariant\<close>

definition has_item :: "('i, 'v) store \<Rightarrow> item_key \<Rightarrow> bool" where
  "has_item s k \<longleftrightarrow> bucket_get (st_data s) k \<noteq> None"

definition recorded_size :: "('i, 'v) store_env \<Rightarrow> ('i, 'v) store \<Rightarrow> item_key \<Rightarrow> int" where
  "recorded_size E s k = (if has_item s k then max 0 (estimate_item E k s) else 0)"

definition store_inv :: "('i, 'v) store_env \<Rightarrow> ('i, 'v) store \<Rightarrow> bool" where
  "store_inv E s \<longleftrightarrow> wf_buckets (st_data s) \<and> wf_buckets (st_vectors s) \<and> wf_dict (st_ttl s) \<and>
     (\<forall>k\<in>fst ` set (st_ttl s). has_item s k) \<and> tracker_inv (st_sizes s) \<and>
     (\<forall>k. tracked_size (st_sizes s) k = recorded_size E s k)"

text \<open>
  What the runtime relies on in the base class: a batch of writes leaves well-formed dictionaries,
  an item is stored afterwards exactly if it was written with a value or was stored and not written,
  and items and vectors under other keys are untouched.
\<close>

definition base_store_ok :: "('i, 'v) store_env \<Rightarrow> bool" where
  "base_store_ok E \<longleftrightarrow>
     (\<forall>puts d v. wf_buckets d \<and> wf_buckets v \<and> wf_dict puts \<longrightarrow>
       (case apply_base E puts (d, v) of (d', v') \<Rightarrow>
          wf_buckets d' \<and> wf_buckets v' \<and>
          (\<forall>k. case map_of puts k of
                 None \<Rightarrow> bucket_get d' k = bucket_get d k \<and> bucket_get v' k = bucket_get v k
               | Some p \<Rightarrow> bucket_get d' k \<noteq> None \<longleftrightarrow> po_value p \<noteq> None)))"

lemma store_invD:
  assumes "store_inv E s"
  shows "wf_buckets (st_data s)" "wf_buckets (st_vectors s)" "wf_dict (st_ttl s)" "tracker_inv (st_sizes s)"
    "map_of (st_ttl s) k = Some r \<Longrightarrow> has_item s k"
  using assms by (force simp: store_inv_def dest: map_of_SomeD)+

lemma store_inv_sizes: "store_inv E s \<Longrightarrow> tracked_size (st_sizes s) k = recorded_size E s k"
  unfolding store_inv_def by blast

section \<open>Size tracking\<close>

lemma track_item_fields [simp]:
  "st_data (track_item E k s) = st_data s" "st_vectors (track_item E k s) = st_vectors s"
  "st_ttl (track_item E k s) = st_ttl s"
  by (simp_all add: track_item_def)

lemma track_item_same [simp]:
  "has_item (track_item E k s) = has_item s" "recorded_size E (track_item E k s) = recorded_size E s"
  by (simp_all add: has_item_def recorded_size_def estimate_item_def fun_eq_iff)

lemma track_item_size:
  "tracked_size (st_sizes (track_item E k s)) = (tracked_size (st_sizes s))(k := recorded_size E s k)"
  by (simp add: track_item_def recorded_size_def has_item_def tracked_size_set tracked_size_remove)

lemma track_item_tracker: "tracker_inv (st_sizes s) \<Longrightarrow> tracker_inv (st_sizes (track_item E k s))"
  by (simp add: track_item_def tracker_inv_set_size tracker_inv_remove)

lemma track_all:
  fixes s :: "('i, 'v) store"
  shows "st_data (fold (track_item E) ks s) = st_data s" "st_vectors (fold (track_item E) ks s) = st_vectors s"
    "st_ttl (fold (track_item E) ks s) = st_ttl s" "recorded_size E (fold (track_item E) ks s) = recorded_size E s"
    "tracker_inv (st_sizes s) \<Longrightarrow> tracker_inv (st_sizes (fold (track_item E) ks s))"
    "tracked_size (st_sizes (fold (track_item E) ks s)) k =
       (if k \<in> set ks then recorded_size E s k else tracked_size (st_sizes s) k)"
  by (induction ks arbitrary: s) (simp_all add: track_item_size track_item_tracker)

lemma drop_empty_fields [simp]:
  "st_sizes (drop_empty_buckets ns s) = st_sizes s" "st_ttl (drop_empty_buckets ns s) = st_ttl s"
  "bucket_get (st_data (drop_empty_buckets ns s)) = bucket_get (st_data s)"
  "bucket_get (st_vectors (drop_empty_buckets ns s)) = bucket_get (st_vectors s)"
  by (simp_all add: drop_empty_buckets_def)

lemma drop_all_fields:
  fixes s :: "('i, 'v) store"
  shows "st_sizes (fold drop_empty_buckets nss s) = st_sizes s" "st_ttl (fold drop_empty_buckets nss s) = st_ttl s"
    "bucket_get (st_data (fold drop_empty_buckets nss s)) = bucket_get (st_data s)"
    "bucket_get (st_vectors (fold drop_empty_buckets nss s)) = bucket_get (st_vectors s)"
    "wf_buckets (st_data s) \<Longrightarrow> wf_buckets (st_data (fold drop_empty_buckets nss s))"
    "wf_buckets (st_vectors s) \<Longrightarrow> wf_buckets (st_vectors (fold drop_empty_buckets nss s))"
proof (induction nss arbitrary: s)
  case (Cons ns nss)
  { case 5 then show ?case using Cons.IH(5) by (simp add: drop_empty_buckets_def) }
  { case 6 then show ?case using Cons.IH(6) by (simp add: drop_empty_buckets_def) }
qed simp_all

lemma store_inv_cong:
  assumes "st_sizes s' = st_sizes s" "st_ttl s' = st_ttl s" "bucket_get (st_data s') = bucket_get (st_data s)"
    "bucket_get (st_vectors s') = bucket_get (st_vectors s)" "wf_buckets (st_data s')" "wf_buckets (st_vectors s')"
    and "store_inv E s"
  shows "store_inv E s'"
  using assms by (simp add: store_inv_def has_item_def recorded_size_def estimate_item_def)

section \<open>Opening, reading, writing\<close>

lemma drop_orphans_ttl:
  assumes "wf_dict ttl" and "set ks \<subseteq> fst ` set ttl"
  shows "wf_dict (fold (\<lambda>k t. if P k then AList.delete k t else t) ks ttl)"
    and "map_of (fold (\<lambda>k t. if P k then AList.delete k t else t) ks ttl) k =
      (if k \<in> set ks \<and> P k then None else map_of ttl k)"
  using assms(1) by (induction ks arbitrary: ttl) (auto simp: dict_simps)

lemma drop_orphans_fields [simp]:
  "st_data (drop_orphans s) = st_data s" "st_vectors (drop_orphans s) = st_vectors s" "st_sizes (drop_orphans s) = st_sizes s"
  by (simp_all add: drop_orphans_def)

lemma open_store_inv:
  assumes "wf_buckets d" and "wf_buckets v" and "wf_dict ttl"
  shows "store_inv E (open_store E d v ttl)"
proof -
  define s0 :: "('a, 'b) store" where "s0 = \<lparr>st_data = d, st_vectors = v, st_ttl = ttl, st_sizes = tracker_init,
      st_last = \<lparr>swept_items = 0, swept_bytes = 0, swept_total = 0, swept_ratio = Some 0\<rparr>\<rparr>"
  define s1 where "s1 = (drop_orphans s0)\<lparr>st_sizes := clear_sizes (st_sizes s0)\<rparr>"
  have s1: "st_data s1 = d" "st_vectors s1 = v" "st_sizes s1 = clear_sizes tracker_init"
    by (simp_all add: s1_def s0_def)
  have ttl: "wf_dict (st_ttl s1)" "map_of (st_ttl s1) k = (if bucket_get d k = None then None else map_of ttl k)" for k
    using drop_orphans_ttl[OF assms(3), of "dkeys ttl" "\<lambda>k. bucket_get d k = None"] map_of_eq_None_iff[of ttl k]
    by (auto simp: s1_def s0_def drop_orphans_def)
  have size: "tracked_size (clear_sizes tracker_init) k = 0" for k :: item_key
    by (simp add: clear_sizes_def tracked_size_def dget_default_def)
  have "has_item s1 k" if "k \<in> fst ` set (st_ttl s1)" for k
    using that unfolding dom_get ttl(2) has_item_def s1(1) by (simp split: if_splits)
  moreover have "k \<notin> set (item_keys d) \<Longrightarrow> recorded_size E s1 k = 0" for k
    using item_keys_iff[OF assms(1), of k] by (simp add: recorded_size_def has_item_def s1)
  moreover have tr: "tracker_inv (st_sizes (fold (track_item E) (item_keys d) s1))"
    by (rule track_all(5)) (simp add: s1 tracker_inv_clear)
  moreover have "has_item (fold (track_item E) (item_keys d) s1) = has_item s1"
    by (simp add: has_item_def track_all fun_eq_iff)
  ultimately have "store_inv E (fold (track_item E) (item_keys d) s1)"
    unfolding store_inv_def by (simp add: track_all s1 assms ttl(1) size)
  moreover have "st_data (open_store E d v ttl) = d" "st_vectors (open_store E d v ttl) = v"
    "st_sizes (open_store E d v ttl) = st_sizes (fold (track_item E) (item_keys d) s1)"
    "st_ttl (open_store E d v ttl) = st_ttl (fold (track_item E) (item_keys d) s1)"
    by (simp_all add: open_store_def rebuild_sizes_def Let_def s1_def s0_def track_all)
  ultimately show ?thesis
    by - (rule store_inv_cong[where s = "fold (track_item E) (item_keys d) s1"], simp_all add: track_all s1 assms)
qed

lemma refresh_ttl_inv: "store_inv E s \<Longrightarrow> store_inv E (snd (refresh_ttl now k s))"
proof -
  assume inv: "store_inv E s"
  have "store_inv E (s\<lparr>st_ttl := AList.update k r (st_ttl s)\<rparr>)" if "map_of (st_ttl s) k = Some r'" for r r'
    using inv store_invD(5)[OF inv that] that
    by (auto simp: store_inv_def has_item_def recorded_size_def estimate_item_def dest!: set_update_mem)
  with inv show ?thesis
    by (auto simp: refresh_ttl_def split: option.split intro!: attempt_keeps[where P = "store_inv E"])
qed

lemma refresh_each_inv: "store_inv E s \<Longrightarrow> store_inv E (snd (refresh_each now ks s))"
proof (induction ks arbitrary: s)
  case (Cons k ks)
  then show ?case
    using refresh_ttl_inv[OF Cons.prems] by (simp add: case_prod_unfold attempt_keeps)
qed simp

lemma ttl_updates_keys: "ttl_updates now puts = Inr us \<Longrightarrow> dkeys us = dkeys puts"
  by (induction now puts arbitrary: us rule: ttl_updates.induct) (auto simp: res_simps)

lemma ttl_updates_get:
  "ttl_updates now puts = Inr us \<Longrightarrow> map_of puts k = Some p \<Longrightarrow>
   \<exists>r. ttl_update now p = Inr r \<and> map_of us k = Some r"
  by (induction now puts arbitrary: us rule: ttl_updates.induct) (auto simp: res_simps split: if_splits)

lemma apply_ttl_all:
  assumes "wf_dict ttl"
  shows "wf_dict (fold apply_ttl us ttl)"
  using assms by (induction us arbitrary: ttl) (auto simp: apply_ttl_def split: option.split)

lemma apply_ttl_get:
  "wf_dict us \<Longrightarrow> map_of (fold apply_ttl us ttl) k = (case map_of us k of None \<Rightarrow> map_of ttl k | Some r \<Rightarrow> r)"
  by (induction us arbitrary: ttl)
    (auto simp: apply_ttl_def dict_simps map_of_eq_None_iff[THEN iffD2] split: option.split)

lemma base_puts:
  assumes "base_store_ok E" and "wf_dict puts" and "wf_buckets d" and "wf_buckets v"
    and "apply_base E puts (d, v) = (d', v')"
  shows "wf_buckets d'" and "wf_buckets v'"
    and "map_of puts k = None \<Longrightarrow> bucket_get d' k = bucket_get d k \<and> bucket_get v' k = bucket_get v k"
    and "map_of puts k = Some p \<Longrightarrow> bucket_get d' k \<noteq> None \<longleftrightarrow> po_value p \<noteq> None"
proof -
  from assms(1)[unfolded base_store_ok_def, rule_format, of d v puts] assms(2-5)
  have all: "wf_buckets d' \<and> wf_buckets v' \<and>
          (\<forall>k. case map_of puts k of
                 None \<Rightarrow> bucket_get d' k = bucket_get d k \<and> bucket_get v' k = bucket_get v k
               | Some p \<Rightarrow> bucket_get d' k \<noteq> None \<longleftrightarrow> po_value p \<noteq> None)" by simp
  then show "wf_buckets d'" "wf_buckets v'" by blast+
  from all have k: "case map_of puts k of
                 None \<Rightarrow> bucket_get d' k = bucket_get d k \<and> bucket_get v' k = bucket_get v k
               | Some p \<Rightarrow> bucket_get d' k \<noteq> None \<longleftrightarrow> po_value p \<noteq> None" by blast
  then show "map_of puts k = None \<Longrightarrow> bucket_get d' k = bucket_get d k \<and> bucket_get v' k = bucket_get v k" by simp
  from k show "map_of puts k = Some p \<Longrightarrow> bucket_get d' k \<noteq> None \<longleftrightarrow> po_value p \<noteq> None" by simp
qed

text \<open>What a successful batch of writes does to the items and their TTL records.\<close>

lemma apply_put_ops_ok:
  assumes base: "base_store_ok E" and wf: "wf_dict puts" and inv: "store_inv E s"
    and ok: "ttl_updates now puts = Inr us"
  shows "fst (apply_put_ops E now puts s) = Inr ()" and "store_inv E (snd (apply_put_ops E now puts s))"
    and "has_item (snd (apply_put_ops E now puts s)) k \<longleftrightarrow>
      (case map_of puts k of None \<Rightarrow> has_item s k | Some p \<Rightarrow> po_value p \<noteq> None)"
    and "map_of (st_ttl (snd (apply_put_ops E now puts s))) k =
      (case map_of us k of None \<Rightarrow> map_of (st_ttl s) k | Some r \<Rightarrow> r)"
proof -
  obtain d v where dv: "apply_base E puts (st_data s, st_vectors s) = (d, v)" by fastforce
  note b = base_puts[OF base wf store_invD(1)[OF inv] store_invD(2)[OF inv] dv]
  define s1 where "s1 = s\<lparr>st_data := d, st_vectors := v, st_ttl := fold apply_ttl us (st_ttl s)\<rparr>"
  define s2 where "s2 = fold (track_item E) (dkeys puts) s1"
  have s1: "st_data s1 = d" "st_vectors s1 = v" "st_sizes s1 = st_sizes s" "st_ttl s1 = fold apply_ttl us (st_ttl s)"
    by (simp_all add: s1_def)
  have r: "apply_put_ops E now puts s = (Inr (), fold drop_empty_buckets (map fst (dkeys puts)) s2)"
    by (simp add: apply_put_ops_def ok dv s2_def s1_def Let_def)
  have wfu: "wf_dict us" using wf ttl_updates_keys[OF ok] by (simp add: wf_dict_def)
  have ttl: "map_of (st_ttl s1) k = (case map_of us k of None \<Rightarrow> map_of (st_ttl s) k | Some r \<Rightarrow> r)" for k
    by (simp add: s1 apply_ttl_get[OF wfu])
  have item: "has_item s1 k \<longleftrightarrow> (case map_of puts k of None \<Rightarrow> has_item s k | Some p \<Rightarrow> po_value p \<noteq> None)" for k
    using b(3,4)[of k] by (auto simp: has_item_def s1 split: option.split)
  have keys: "map_of us k = None \<longleftrightarrow> map_of puts k = None" for k
    using ttl_updates_keys[OF ok] dom_get[of k us] dom_get[of k puts] by (metis list.set_map)
  have homed: "has_item s1 k" if "map_of (st_ttl s1) k = Some x" for k x
  proof (cases "map_of puts k")
    case None
    with that keys[of k] store_invD(5)[OF inv, of k x] show ?thesis by (simp add: ttl item)
  next
    case (Some p)
    with ttl_updates_get[OF ok Some] that show ?thesis
      by (auto simp: ttl item ttl_update_def split: option.splits)
  qed
  have size: "tracked_size (st_sizes s2) k = recorded_size E s1 k" for k
  proof (cases "map_of puts k")
    case None
    then have "k \<notin> set (dkeys puts)" using dom_get[of k puts] by simp
    moreover have "recorded_size E s1 k = recorded_size E s k"
      using b(3)[OF None] by (simp add: recorded_size_def has_item_def estimate_item_def s1)
    ultimately show ?thesis using store_inv_sizes[OF inv, of k] by (simp add: s2_def track_all s1)
  next
    case (Some p)
    then have "k \<in> set (dkeys puts)" using dom_get[of k puts] by simp
    then show ?thesis by (simp add: s2_def track_all)
  qed
  have s2: "has_item s2 = has_item s1" "recorded_size E s2 = recorded_size E s1" "st_ttl s2 = st_ttl s1"
    by (simp_all add: s2_def track_all has_item_def fun_eq_iff)
  have data: "st_data s2 = d" "st_vectors s2 = v" by (simp_all add: s2_def track_all s1)
  have tr: "tracker_inv (st_sizes s2)"
    unfolding s2_def by (rule track_all(5)) (simp add: s1 store_invD(4)[OF inv])
  have wft: "wf_dict (st_ttl s1)" using apply_ttl_all[OF store_invD(3)[OF inv]] by (simp add: s1)
  have "has_item s1 k" if "k \<in> fst ` set (st_ttl s1)" for k
    using that homed unfolding dom_get by blast
  then have inv2: "store_inv E s2"
    unfolding store_inv_def using b(1,2) by (simp add: s2 size tr wft data)
  then show "store_inv E (snd (apply_put_ops E now puts s))"
    using drop_all_fields(5,6)[of s2] store_invD(1,2)[OF inv2]
    by (intro store_inv_cong[OF _ _ _ _ _ _ inv2]) (simp_all add: r drop_all_fields)
  show "fst (apply_put_ops E now puts s) = Inr ()" by (simp add: r)
  have put: "has_item (snd (apply_put_ops E now puts s)) k = has_item s2 k"
    by (simp add: r has_item_def drop_all_fields)
  show "has_item (snd (apply_put_ops E now puts s)) k \<longleftrightarrow>
      (case map_of puts k of None \<Rightarrow> has_item s k | Some p \<Rightarrow> po_value p \<noteq> None)"
    using item[of k] by (simp add: put flip: s2(1))
  show "map_of (st_ttl (snd (apply_put_ops E now puts s))) k =
      (case map_of us k of None \<Rightarrow> map_of (st_ttl s) k | Some r \<Rightarrow> r)"
    using ttl[of k] by (simp add: r drop_all_fields s2)
qed

lemma apply_put_ops_inv:
  "base_store_ok E \<Longrightarrow> wf_dict puts \<Longrightarrow> store_inv E s \<Longrightarrow> store_inv E (snd (apply_put_ops E now puts s))"
  using apply_put_ops_ok(2) by (cases "ttl_updates now puts") (auto simp: apply_put_ops_def)

section \<open>The sweep\<close>

lemma sweep_key_step:
  "sweep_key k (n, bytes, s) =
     (n + (if has_item s k then 1 else 0), bytes + (if has_item s k then tracked_size (st_sizes s) k else 0),
      s\<lparr>st_sizes := snd (remove_size k (st_sizes s)),
        st_data := (if has_item s k then bucket_pop k (st_data s) else st_data s),
        st_vectors := bucket_pop k (st_vectors s), st_ttl := AList.delete k (st_ttl s)\<rparr>)"
  by (simp add: sweep_key_def has_item_def case_prod_unfold Let_def fst_remove_size)

lemma sweep_keys:
  "fold sweep_key ks (n, bytes, s) = (n', bytes', s') \<Longrightarrow> distinct ks \<Longrightarrow>
   bucket_get (st_data s') = (\<lambda>k. if k \<in> set ks then None else bucket_get (st_data s) k) \<and>
   bucket_get (st_vectors s') = (\<lambda>k. if k \<in> set ks then None else bucket_get (st_vectors s) k) \<and>
   map_of (st_ttl s') = (\<lambda>k. if k \<in> set ks then None else map_of (st_ttl s) k) \<and>
   (wf_dict (st_ttl s) \<longrightarrow> wf_dict (st_ttl s')) \<and>
   (wf_buckets (st_data s) \<longrightarrow> wf_buckets (st_data s')) \<and>
   (wf_buckets (st_vectors s) \<longrightarrow> wf_buckets (st_vectors s')) \<and>
   st_sizes s' = fold (\<lambda>k t. snd (remove_size k t)) ks (st_sizes s) \<and>
   n' = n + length (filter (has_item s) ks) \<and>
   bytes' = bytes + (\<Sum>k\<leftarrow>filter (has_item s) ks. tracked_size (st_sizes s) k)"
proof (induction ks arbitrary: n bytes s)
  case (Cons j ks)
  define s1 where "s1 = snd (snd (sweep_key j (n, bytes, s)))"
  have step: "fold sweep_key ks (n + (if has_item s j then 1 else 0),
      bytes + (if has_item s j then tracked_size (st_sizes s) j else 0), s1) = (n', bytes', s')"
    using Cons.prems(1) by (simp add: s1_def sweep_key_step)
  have d: "distinct ks" "j \<notin> set ks" using Cons.prems(2) by auto
  note IH = Cons.IH[OF step d(1)]
  have s1: "st_sizes s1 = snd (remove_size j (st_sizes s))" "st_ttl s1 = AList.delete j (st_ttl s)"
    "st_vectors s1 = bucket_pop j (st_vectors s)"
    "st_data s1 = (if has_item s j then bucket_pop j (st_data s) else st_data s)"
    by (simp_all add: s1_def sweep_key_step)
  have get: "bucket_get (st_data s1) = (bucket_get (st_data s))(j := None)"
    by (auto simp: s1 has_item_def)
  have same: "filter (has_item s1) ks = filter (has_item s) ks"
    using d(2) by (intro filter_cong) (auto simp: has_item_def get)
  have sizes: "(\<Sum>k\<leftarrow>filter (has_item s) ks. tracked_size (st_sizes s1) k) = (\<Sum>k\<leftarrow>filter (has_item s) ks. tracked_size (st_sizes s) k)"
    using d(2) by (intro arg_cong[of _ _ sum_list] map_cong) (auto simp: s1 tracked_size_remove)
  show ?case
    using IH unfolding get same sizes by (auto simp: s1 dict_simps fun_eq_iff)
qed (simp add: fun_eq_iff)

definition expired_at :: "time \<Rightarrow> ('i, 'v) store \<Rightarrow> item_key \<Rightarrow> bool" where
  "expired_at now s k \<longleftrightarrow> (case map_of (st_ttl s) k of None \<Rightarrow> False | Some r \<Rightarrow> expires_at r \<le> now)"

lemma expired_keys_iff: "wf_dict (st_ttl s) \<Longrightarrow> k \<in> set (expired_keys now s) \<longleftrightarrow> expired_at now s k"
  using wf_dict_mem[of "st_ttl s" k] by (force simp: expired_keys_def expired_at_def split: option.split)

lemma distinct_expired: "wf_dict (st_ttl s) \<Longrightarrow> distinct (expired_keys now s)"
  using wf_dict_filter[of "st_ttl s"] by (simp add: expired_keys_def wf_dict_def)

text \<open>The effect of a sweep on a store that satisfies the invariant.\<close>

lemma sweep_ttl_exact:
  assumes inv: "store_inv E s" and sw: "sweep_ttl now s = (n, s')"
  shows "store_inv E s'"
    and "has_item s' k \<longleftrightarrow> has_item s k \<and> \<not> expired_at now s k"
    and "\<not> expired_at now s k \<Longrightarrow> bucket_get (st_data s') k = bucket_get (st_data s) k \<and>
      bucket_get (st_vectors s') k = bucket_get (st_vectors s) k \<and> map_of (st_ttl s') k = map_of (st_ttl s) k"
    and "expired_at now s k \<Longrightarrow> map_of (st_ttl s') k = None \<and> bucket_get (st_vectors s') k = None"
    and "n = length (expired_keys now s)" and "swept_items (st_last s') = n"
    and "swept_bytes (st_last s') = total_bytes (st_sizes s) - total_bytes (st_sizes s')"
    and "swept_bytes (st_last s') = (\<Sum>k\<leftarrow>expired_keys now s. recorded_size E s k)"
    and "swept_total (st_last s') = total_bytes (st_sizes s)"
proof -
  define ks where "ks = expired_keys now s"
  obtain m bytes s1 where f: "fold sweep_key ks (0, 0, s) = (m, bytes, s1)" by (metis prod.collapse)
  define s2 where "s2 = fold drop_empty_buckets (remdups (map fst ks)) s1"
  have r: "n = m" "s' = s2\<lparr>st_last := \<lparr>swept_items = m, swept_bytes = bytes, swept_total = total_bytes (st_sizes s),
      swept_ratio = deleted_ratio (Some bytes) (Some (total_bytes (st_sizes s)))\<rparr>\<rparr>"
    using sw f by (auto simp: sweep_ttl_def Let_def s2_def ks_def)
  have dist: "distinct ks" unfolding ks_def by (rule distinct_expired[OF store_invD(3)[OF inv]])
  note k = sweep_keys[OF f dist]
  have get: "bucket_get (st_data s1) k = (if k \<in> set ks then None else bucket_get (st_data s) k)"
    "bucket_get (st_vectors s1) k = (if k \<in> set ks then None else bucket_get (st_vectors s) k)"
    "map_of (st_ttl s1) k = (if k \<in> set ks then None else map_of (st_ttl s) k)" for k
    using k by simp_all
  have sizes: "st_sizes s1 = fold (\<lambda>k t. snd (remove_size k t)) ks (st_sizes s)" using k by blast
  have mem: "k \<in> set ks \<longleftrightarrow> expired_at now s k" for k
    unfolding ks_def by (rule expired_keys_iff[OF store_invD(3)[OF inv]])
  have all: "filter (has_item s) ks = ks"
    using store_invD(5)[OF inv] mem by (intro filter_True) (auto simp: expired_at_def split: option.splits)
  have s': "st_sizes s' = st_sizes s1" "st_ttl s' = st_ttl s1" "bucket_get (st_data s') = bucket_get (st_data s1)"
    "bucket_get (st_vectors s') = bucket_get (st_vectors s1)"
    by (simp_all add: r s2_def drop_all_fields)
  have wf: "wf_buckets (st_data s')" "wf_buckets (st_vectors s')" "wf_dict (st_ttl s')"
    using k store_invD(1-3)[OF inv] by (simp_all add: r s2_def drop_all_fields)
  have fold: "tracker_inv (st_sizes s')"
    "total_bytes (st_sizes s') = total_bytes (st_sizes s) - (\<Sum>k\<leftarrow>ks. tracked_size (st_sizes s) k)"
    "k \<notin> set ks \<Longrightarrow> tracked_size (st_sizes s') k = tracked_size (st_sizes s) k" for k
    using tracker.fold_remove[OF store_invD(4)[OF inv] dist] unfolding s' sizes by blast+
  have gone: "tracked_size (st_sizes s') k = 0" if "k \<in> set ks" for k
  proof -
    have "tracked_size (fold (\<lambda>k t. snd (remove_size k t)) xs t) k = 0"
      if "k \<in> set xs \<or> tracked_size t k = 0" for xs t
      using that by (induction xs arbitrary: t) (auto simp: tracked_size_remove)
    with that show ?thesis by (simp add: s' sizes)
  qed
  show item: "has_item s' k \<longleftrightarrow> has_item s k \<and> \<not> expired_at now s k" for k
    using get(1)[of k] mem[of k] by (simp add: has_item_def s')
  show kept: "\<not> expired_at now s k \<Longrightarrow> bucket_get (st_data s') k = bucket_get (st_data s) k \<and>
      bucket_get (st_vectors s') k = bucket_get (st_vectors s) k \<and> map_of (st_ttl s') k = map_of (st_ttl s) k" for k
    using get[of k] mem[of k] by (simp add: s')
  show "expired_at now s k \<Longrightarrow> map_of (st_ttl s') k = None \<and> bucket_get (st_vectors s') k = None"
    using get(2,3)[of k] mem[of k] by (simp add: s')
  have "tracked_size (st_sizes s') k = recorded_size E s' k" for k
  proof (cases "expired_at now s k")
    case True
    with gone[of k] mem[of k] item[of k] show ?thesis by (simp add: recorded_size_def)
  next
    case False
    with kept[of k] item[of k] fold(3)[of k] mem[of k] store_inv_sizes[OF inv, of k] show ?thesis
      by (simp add: recorded_size_def estimate_item_def)
  qed
  moreover have "has_item s' k" if "map_of (st_ttl s') k = Some x" for k x
    using that get(3)[of k] mem[of k] item[of k] store_invD(5)[OF inv, of k x] by (simp add: s' split: if_splits)
  then have "\<forall>k\<in>fst ` set (st_ttl s'). has_item s' k"
    unfolding Ball_def dom_get by blast
  ultimately show "store_inv E s'" unfolding store_inv_def using wf fold(1) by blast
  show "n = length (expired_keys now s)" using k by (simp add: r all flip: ks_def)
  show "swept_items (st_last s') = n" "swept_total (st_last s') = total_bytes (st_sizes s)" by (simp_all add: r)
  show "swept_bytes (st_last s') = total_bytes (st_sizes s) - total_bytes (st_sizes s')"
    using k fold(2) by (simp add: r(2) all)
  show "swept_bytes (st_last s') = (\<Sum>k\<leftarrow>expired_keys now s. recorded_size E s k)"
    using k store_inv_sizes[OF inv] by (simp add: r(2) all flip: ks_def)
qed

section \<open>Runs of the store\<close>

datatype store_action =
    Reads time "store_op list" "bool list"
  | Searches time "(bool \<times> item_key list) list"
  | Writes time "(item_key, put_op) dict"
  | Sweeps time

fun store_act :: "('i, 'v) store_env \<Rightarrow> store_action \<Rightarrow> ('i, 'v) store \<Rightarrow> ('i, 'v) store" where
  "store_act E (Reads now ops found) s = snd (prepare_ops now ops found s)"
| "store_act E (Searches now searches) s = snd (batch_search now searches s)"
| "store_act E (Writes now puts) s = snd (apply_put_ops E now puts s)"
| "store_act E (Sweeps now) s = snd (sweep_ttl now s)"

fun action_ok :: "store_action \<Rightarrow> bool" where
  "action_ok (Writes now puts) = wf_dict puts"
| "action_ok _ = True"

lemma store_act_inv:
  "base_store_ok E \<Longrightarrow> action_ok x \<Longrightarrow> store_inv E s \<Longrightarrow> store_inv E (store_act E x s)"
  using refresh_each_inv apply_put_ops_inv sweep_ttl_exact(1)[OF _ prod.collapse[symmetric]]
  by (cases x) (auto simp: prepare_ops_def batch_search_def)

lemma store_acts_inv:
  "base_store_ok E \<Longrightarrow> list_all action_ok xs \<Longrightarrow> store_inv E s \<Longrightarrow> store_inv E (fold (store_act E) xs s)"
  by (induction xs arbitrary: s) (auto intro: store_act_inv)

text \<open>
  C18. The store keeps its books right. From any well-formed persisted dictionaries, after any
  sequence of reads, searches, writes (failed ones too) and sweeps, every TTL record belongs to a
  stored item, the recorded size of every entry is the estimate of what is stored under it (zero if
  nothing is), and the total is the sum of the recorded sizes.
\<close>

theorem store_books_consistent:
  assumes "base_store_ok E" and "wf_buckets d" and "wf_buckets v" and "wf_dict ttl"
    and "list_all action_ok xs" and "s = fold (store_act E) xs (open_store E d v ttl)"
  shows "(\<forall>k. map_of (st_ttl s) k \<noteq> None \<longrightarrow> bucket_get (st_data s) k \<noteq> None) \<and>
    (\<forall>k. tracked_size (st_sizes s) k =
       (if bucket_get (st_data s) k = None then 0
        else max 0 (entry_size E k (bucket_get (st_data s) k) (bucket_get (st_vectors s) k)))) \<and>
    total_bytes (st_sizes s) = (\<Sum>k\<in>fst ` set (tr_entries (st_sizes s)). tracked_size (st_sizes s) k)"
proof -
  have inv: "store_inv E s" unfolding assms(6) by (intro store_acts_inv open_store_inv assms)
  have "map_of (st_ttl s) k \<noteq> None \<longrightarrow> bucket_get (st_data s) k \<noteq> None" for k
    using store_invD(5)[OF inv, of k] by (auto simp: has_item_def)
  moreover have "tracked_size (st_sizes s) k = (if bucket_get (st_data s) k = None then 0
        else max 0 (entry_size E k (bucket_get (st_data s) k) (bucket_get (st_vectors s) k)))" for k
    using store_inv_sizes[OF inv, of k] by (simp add: recorded_size_def has_item_def estimate_item_def)
  ultimately show ?thesis using tracker.total_sum[OF store_invD(4)[OF inv]] by blast
qed

text \<open>A concrete base class: items are the written values, no vectors.\<close>

definition demo_apply :: "(item_key, put_op) dict \<Rightarrow> pyval buckets \<times> unit buckets \<Rightarrow> pyval buckets \<times> unit buckets" where
  "demo_apply puts x =
     (fold (\<lambda>(k, p) d. case po_value p of
              None \<Rightarrow> bucket_pop k d
            | Some i \<Rightarrow> AList.update (fst k) (AList.update (snd k) i (dget_default d (fst k) [])) d) puts (fst x), snd x)"

definition demo_store_env :: "(pyval, unit) store_env" where
  "demo_store_env = \<lparr>apply_base = demo_apply, entry_size = (\<lambda>k i v. int (length (snd k)) + 10)\<rparr>"

lemma bucket_put:
  assumes "wf_buckets d"
  shows "wf_buckets (AList.update (fst k) (AList.update (snd k) i (dget_default d (fst k) [])) d)"
    and "bucket_get (AList.update (fst k) (AList.update (snd k) i (dget_default d (fst k) [])) d) = (bucket_get d)(k \<mapsto> i)"
proof -
  have "wf_dict (dget_default d (fst k) [])"
    using wf_buckets_get[OF assms] by (simp add: dget_default_def split: option.split)
  with assms show "wf_buckets (AList.update (fst k) (AList.update (snd k) i (dget_default d (fst k) [])) d)"
    by (auto simp: wf_buckets_def dest!: set_update_mem)
  show "bucket_get (AList.update (fst k) (AList.update (snd k) i (dget_default d (fst k) [])) d) = (bucket_get d)(k \<mapsto> i)"
    by (rule ext) (auto simp: bucket_get_def dict_simps dget_default_def prod_eq_iff split: option.split)
qed

lemma demo_store_ok: "base_store_ok demo_store_env"
proof -
  let ?f = "\<lambda>(k, p) d. case po_value p of None \<Rightarrow> bucket_pop k d
      | Some i \<Rightarrow> AList.update (fst k) (AList.update (snd k) i (dget_default d (fst k) [])) (d :: pyval buckets)"
  have "wf_buckets (fold ?f puts d) \<and>
      (\<forall>k. bucket_get (fold ?f puts d) k = (case map_of puts k of None \<Rightarrow> bucket_get d k | Some p \<Rightarrow> po_value p))"
    if "wf_dict puts" "wf_buckets d" for puts and d :: "pyval buckets"
    using that
  proof (induction puts arbitrary: d)
    case (Cons kp puts)
    obtain k p where kp: "kp = (k, p)" by fastforce
    have k: "map_of puts k = None" "wf_dict puts" using Cons.prems(1) by (simp_all add: kp map_of_eq_None_iff)
    define d1 where "d1 = ?f kp d"
    have wf: "wf_buckets d1" using Cons.prems(2) bucket_put(1)[OF Cons.prems(2)] by (simp add: d1_def kp split: option.split)
    have get: "bucket_get d1 = (bucket_get d)(k := po_value p)"
      using bucket_put(2)[OF Cons.prems(2)] by (simp add: d1_def kp split: option.split)
    have step: "fold ?f (kp # puts) d = fold ?f puts d1" by (simp add: d1_def)
    have "bucket_get (fold ?f puts d1) j = (case map_of (kp # puts) j of None \<Rightarrow> bucket_get d j | Some p \<Rightarrow> po_value p)" for j
      using Cons.IH[OF k(2) wf, THEN conjunct2, rule_format, of j] k(1)
      by (cases "j = k") (simp_all add: get kp split: option.split)
    with Cons.IH[OF k(2) wf] show ?case unfolding step by blast
  qed simp
  then show ?thesis
    by (auto simp: base_store_ok_def demo_store_env_def demo_apply_def split: option.split)
qed

definition demo_write :: "time \<Rightarrow> store_action" where
  "demo_write now = Writes now [(([''ns''], ''k''), \<lparr>po_value = Some (PInt 1), po_ttl = Some (PInt 1)\<rparr>),
     (([''ns''], ''keep''), \<lparr>po_value = Some (PInt 2), po_ttl = None\<rparr>)]"

definition demo_filled :: "(pyval, unit) store" where
  "demo_filled = store_act demo_store_env (demo_write 0) (open_store demo_store_env [] [] [])"

lemma demo_filled_inv: "store_inv demo_store_env demo_filled"
  unfolding demo_filled_def
  by (intro store_act_inv open_store_inv demo_store_ok) (simp_all add: wf_buckets_def demo_write_def)

theorem store_books_consistent_witness:
  "total_bytes (st_sizes demo_filled) = 25 \<and> tracked_size (st_sizes demo_filled) ([''ns''], ''k'') = 11"
proof -
  have wf: "wf_buckets ([] :: pyval buckets)" "wf_buckets ([] :: unit buckets)" "wf_dict ([] :: (item_key, item_ttl) dict)"
    by (simp_all add: wf_buckets_def)
  have ok: "list_all action_ok [demo_write 0]" by (simp add: demo_write_def)
  have eq: "demo_filled = fold (store_act demo_store_env) [demo_write 0] (open_store demo_store_env [] [] [])"
    by (simp add: demo_filled_def)
  have "bucket_get (st_data demo_filled) ([''ns''], ''k'') \<noteq> None" by code_simp
  with store_books_consistent[OF demo_store_ok wf ok eq]
  have "tracked_size (st_sizes demo_filled) ([''ns''], ''k'') = 11" by (simp add: demo_store_env_def)
  moreover have "total_bytes (st_sizes demo_filled) = 25" by code_simp
  ultimately show ?thesis by blast
qed

text \<open>
  C19. A sweep deletes exactly what has expired. On a consistent store, an item is there afterwards
  exactly if it was there and has no TTL record that is due; every other item, its vectors and its TTL
  record are unchanged; what expired leaves neither vectors nor a TTL record. The count is the number of
  expired items and the reported bytes are the sum of their recorded sizes, which is exactly what the
  total loses.
\<close>

theorem store_sweep_exact:
  assumes "store_inv E s" and "sweep_ttl now s = (n, s')"
  shows "(\<forall>k. if expired_at now s k
            then bucket_get (st_data s') k = None \<and> bucket_get (st_vectors s') k = None \<and> map_of (st_ttl s') k = None
            else bucket_get (st_data s') k = bucket_get (st_data s) k \<and>
                 bucket_get (st_vectors s') k = bucket_get (st_vectors s) k \<and> map_of (st_ttl s') k = map_of (st_ttl s) k) \<and>
    n = length (filter (\<lambda>(k, r). expires_at r \<le> now) (st_ttl s)) \<and>
    swept_bytes (st_last s') = total_bytes (st_sizes s) - total_bytes (st_sizes s') \<and>
    store_inv E s'"
proof -
  note x = sweep_ttl_exact[OF assms]
  have "if expired_at now s k
        then bucket_get (st_data s') k = None \<and> bucket_get (st_vectors s') k = None \<and> map_of (st_ttl s') k = None
        else bucket_get (st_data s') k = bucket_get (st_data s) k \<and>
             bucket_get (st_vectors s') k = bucket_get (st_vectors s) k \<and> map_of (st_ttl s') k = map_of (st_ttl s) k" for k
    using x(2)[of k] x(3)[of k] x(4)[of k] by (cases "expired_at now s k") (auto simp: has_item_def)
  with x(1,5,7) show ?thesis by (simp add: expired_keys_def)
qed

theorem store_sweep_exact_witness:
  "fst (sweep_ttl 60000000 demo_filled) = 1 \<and>
   bucket_get (st_data (snd (sweep_ttl 60000000 demo_filled))) ([''ns''], ''k'') = None"
proof -
  have exp: "expired_at 60000000 demo_filled ([''ns''], ''k'')" by code_simp
  have n: "length (filter (\<lambda>(k, r). expires_at r \<le> 60000000) (st_ttl demo_filled)) = 1" by code_simp
  note x = store_sweep_exact[OF demo_filled_inv prod.collapse[symmetric], of 60000000]
  from x have "fst (sweep_ttl 60000000 demo_filled) = length (filter (\<lambda>(k, r). expires_at r \<le> 60000000) (st_ttl demo_filled))"
    by blast
  moreover from x[THEN conjunct1, rule_format, of "([''ns''], ''k'')"] exp
  have "bucket_get (st_data (snd (sweep_ttl 60000000 demo_filled))) ([''ns''], ''k'') = None" by simp
  ultimately show ?thesis using n by simp
qed

lemma ttl_updates_fails:
  "(k, p) \<in> set puts \<Longrightarrow> ttl_update now p = Inl e \<Longrightarrow> \<exists>e'. ttl_updates now puts = Inl e'"
proof (induction now puts rule: ttl_updates.induct)
  case (2 now k' p' ps)
  then show ?case
    by (cases "ttl_update now p'"; cases "ttl_updates now ps") (auto simp: bind_res_def)
qed simp

text \<open>
  A batch of writes with one invalid TTL changes nothing. When the TTL of any write of the batch
  cannot be used (not a number, or an expiry outside the range of dates), the whole batch raises before
  any item, vector, TTL record or size is touched.
\<close>

theorem invalid_ttl_rejects_batch:
  assumes "(k, p) \<in> set puts" and "ttl_update now p = Inl e"
  shows "\<exists>e'. apply_put_ops E now puts s = (Inl e', s)"
  using ttl_updates_fails[OF assms] by (auto simp: apply_put_ops_def)

theorem invalid_ttl_rejects_batch_witness:
  "\<exists>e. apply_put_ops demo_store_env 0 [(([''a''], ''x''), \<lparr>po_value = Some (PInt 1), po_ttl = None\<rparr>),
     (([''a''], ''y''), \<lparr>po_value = Some (PInt 1), po_ttl = Some (PStr ''nan'')\<rparr>)] demo_filled = (Inl e, demo_filled)"
proof -
  have "ttl_update 0 \<lparr>po_value = Some (PInt 1), po_ttl = Some (PStr ''nan'')\<rparr> = Inl value_error" by code_simp
  then show ?thesis by (intro invalid_ttl_rejects_batch[of "([''a''], ''y'')"]) simp_all
qed

text \<open>The lifetime of an item: writing, refreshing, sweeping.\<close>

lemma sweeps_keep:
  assumes "store_inv E s" and "map_of (st_ttl s) k = Some r" and "\<forall>now\<in>set ts. now < expires_at r"
  shows "let s' = fold (\<lambda>now s. snd (sweep_ttl now s)) ts s
    in store_inv E s' \<and> has_item s' k \<and> map_of (st_ttl s') k = Some r"
  using assms
proof (induction ts arbitrary: s)
  case Nil
  then show ?case using store_invD(5)[OF Nil.prems(1)] by simp
next
  case (Cons now ts)
  note x = sweep_ttl_exact[OF Cons.prems(1) prod.collapse[symmetric], of now]
  have "\<not> expired_at now s k" using Cons.prems(2,3) by (simp add: expired_at_def)
  with x(1) x(3)[of k] Cons show ?case by simp
qed

text \<open>
  An item lives exactly its time to live. An item read with refresh, or written with a TTL, at
  \<open>now\<close> survives every sweep before its new expiry, however many there are, and the first sweep at or
  after it deletes the item.
\<close>

theorem refreshed_item_lifetime:
  assumes "store_inv E s" and "map_of (st_ttl s) k = Some r" and "plus_minutes now (keep_minutes r) = Inr t"
    and "\<forall>x\<in>set ts. x < t" and "t \<le> later"
    and "s' = fold (\<lambda>x s. snd (sweep_ttl x s)) ts (snd (refresh_ttl now k s))"
  shows "bucket_get (st_data s') k \<noteq> None \<and> bucket_get (st_data (snd (sweep_ttl later s'))) k = None"
proof -
  have inv: "store_inv E (snd (refresh_ttl now k s))" by (rule refresh_ttl_inv[OF assms(1)])
  have rec: "map_of (st_ttl (snd (refresh_ttl now k s))) k = Some \<lparr>expires_at = t, keep_minutes = keep_minutes r\<rparr>"
    using assms(2,3) by (simp add: refresh_ttl_def dict_simps)
  from sweeps_keep[OF inv rec, of ts] assms(4,6)
  have s': "store_inv E s'" "has_item s' k" "map_of (st_ttl s') k = Some \<lparr>expires_at = t, keep_minutes = keep_minutes r\<rparr>"
    by (simp_all add: Let_def)
  have "expired_at later s' k" using s'(3) assms(5) by (simp add: expired_at_def)
  with sweep_ttl_exact(2)[OF s'(1) prod.collapse[symmetric], of later k] s'(2) show ?thesis
    by (simp add: has_item_def)
qed

theorem refreshed_item_lifetime_witness:
  "bucket_get (st_data (snd (sweep_ttl 110000000
     (snd (sweep_ttl 100000000 (snd (refresh_ttl 50000000 ([''ns''], ''k'') demo_filled))))))) ([''ns''], ''k'') = None \<and>
   bucket_get (st_data (snd (sweep_ttl 100000000 (snd (refresh_ttl 50000000 ([''ns''], ''k'') demo_filled))))) ([''ns''], ''k'') \<noteq> None"
proof -
  have 1: "map_of (st_ttl demo_filled) ([''ns''], ''k'') = Some \<lparr>expires_at = 60000000, keep_minutes = Finite 1\<rparr>" by code_simp
  have 2: "plus_minutes 50000000 (keep_minutes \<lparr>expires_at = 60000000, keep_minutes = Finite 1\<rparr>) = Inr 110000000" by code_simp
  have 3: "\<forall>x\<in>set [100000000]. x < (110000000 :: time)" "(110000000 :: time) \<le> 110000000" by simp_all
  from refreshed_item_lifetime[OF demo_filled_inv 1 2 3 refl] show ?thesis by simp
qed


section \<open>The module\<close>

definition module_inv :: "store_module \<Rightarrow> bool" where
  "module_inv m \<longleftrightarrow>
     sm_current m < length (sm_created m) \<and>
     (\<forall>i < length (sm_created m). i \<noteq> sm_current m \<longrightarrow>
        sw_closed (sm_created m ! i) \<and> (sw_running (sm_created m ! i) \<longrightarrow> sw_cancelled (sm_created m ! i)))"

text \<open>
  One open store. Every store but the current one is closed, and if its sweeper still runs its
  cancellation was requested; reconfiguring the store keeps this, and afterwards the handle of every OS
  thread leads to the new store, with the new configuration.
\<close>

lemma module_inv_init: "module_inv store_module_init"
  by (simp add: module_inv_def store_module_init_def)

lemma module_inv_handle: "module_inv m \<Longrightarrow> module_inv (snd (store_handle thread m))"
  by (simp add: module_inv_def store_handle_def)

lemma reconfigured_store:
  assumes "module_inv m"
    and "sw_closed (sm_created m ! sm_current m) \<Longrightarrow> sw_running (sm_created m ! sm_current m) \<Longrightarrow>
      sw_cancelled (sm_created m ! sm_current m)"
  shows "module_inv (set_store_config config m) \<and>
    fst (store_handle thread (set_store_config config m)) = length (sm_created m) \<and>
    sw_config (sm_created (set_store_config config m) ! length (sm_created m)) = store_ttl_config config"
  using assms
  by (auto simp: module_inv_def set_store_config_def store_handle_def close_store_def new_sweeper_def
      nth_append nth_list_update less_Suc_eq)

end
