(* ===== verification/Deploy.thy ===== *)
theory Deploy
  imports Runtime_State
begin

text \<open>
  The deploy endpoints of \<open>routes.py\<close>: the ring buffer of events a deploy subprocess produces, the
  reader of its output, the watchdog, the admission of a new deploy, and the resumable event stream; also the
  route that truncates all data. JSON parsing is the argument \<open>parse\<close> (\<open>None\<close> when it raises); the
  subprocess is the sequence of its output lines and its exit code.
\<close>

section \<open>Origins\<close>

definition allowed_origins :: "string list" where
  "allowed_origins =
     [''https://smith.langchain.com'', ''https://eu.smith.langchain.com'', ''https://dev.smith.langchain.com'',
      ''https://staging.smith.langchain.com'']"

text \<open>
  The pattern \<open>(:\d+)?$\<close> after the host, on ASCII texts; \<open>$\<close> also matches before a final line break.
\<close>

definition port_suffix :: "string \<Rightarrow> bool" where
  "port_suffix s =
     (let t = (if s \<noteq> [] \<and> of_char (last s) = (10::nat) then butlast s else s)
      in t = [] \<or> (hd t = CHR '':'' \<and> tl t \<noteq> [] \<and> list_all is_digit (tl t)))"

definition local_origin :: "string \<Rightarrow> bool" where
  "local_origin s =
     list_ex (\<lambda>host. prefix host s \<and> port_suffix (drop (length host) s)) [''http://localhost'', ''http://127.0.0.1'']"

definition is_allowed_origin :: "string \<Rightarrow> bool" where
  "is_allowed_origin origin \<longleftrightarrow> origin = [] \<or> local_origin origin \<or> origin \<in> set allowed_origins"

section \<open>Operations and their buffers\<close>

type_synonym deploy_event = "string \<times> pdict"

record deploy_op =
  op_id :: string
  op_status :: string
  op_exit :: "int option"
  op_started :: time
  op_finished :: "time option"
  op_events :: "deploy_event list"
  op_status_url :: "pdict option"
  op_result :: "pdict option"
  op_stderr :: "string list"
  op_total :: nat

definition new_deploy :: "string \<Rightarrow> time \<Rightarrow> deploy_op" where
  "new_deploy i now =
     \<lparr>op_id = i, op_status = ''running'', op_exit = None, op_started = now, op_finished = None, op_events = [],
      op_status_url = None, op_result = None, op_stderr = [], op_total = 0\<rparr>"

text \<open>\<open>deque(maxlen=n).append\<close>.\<close>

definition ring_append :: "nat \<Rightarrow> 'a \<Rightarrow> 'a list \<Rightarrow> 'a list" where
  "ring_append n x xs = (let ys = xs @ [x] in drop (length ys - n) ys)"

definition max_events :: nat where "max_events = 2000"
definition max_stderr :: nat where "max_stderr = 50"

definition add_event :: "deploy_event \<Rightarrow> deploy_op \<Rightarrow> deploy_op" where
  "add_event e d = d\<lparr>op_events := ring_append max_events e (op_events d), op_total := op_total d + 1\<rparr>"

definition log_event :: "pyval \<Rightarrow> pyval \<Rightarrow> deploy_event" where
  "log_event msg level = (''log'', [(''message'', msg), (''level'', level)])"

definition drain_stderr :: "string list \<Rightarrow> deploy_op \<Rightarrow> deploy_op" where
  "drain_stderr ls d = fold (\<lambda>l d. if l = [] then d else d\<lparr>op_stderr := ring_append max_stderr l (op_stderr d)\<rparr>) ls d"

section \<open>Reading the subprocess\<close>

definition named_types :: "string list" where
  "named_types = [''step'', ''result'', ''upload_progress'', ''heartbeat'']"

text \<open>
  \<open>evt_type in _NAMED_EVENT_TYPES\<close>: hashing a list or an object raises \<open>TypeError\<close>. The result is the
  name, if it is one.
\<close>

definition named_event :: "pyval \<Rightarrow> string option res" where
  "named_event t =
     (case t of
        PStr s \<Rightarrow> Inr (if s \<in> set named_types then Some s else None)
      | PList _ \<Rightarrow> Inl type_error
      | PDict _ \<Rightarrow> Inl type_error
      | _ \<Rightarrow> Inr None)"

definition stash_event :: "pdict \<Rightarrow> pyval \<Rightarrow> deploy_op \<Rightarrow> deploy_op" where
  "stash_event event t d =
     (if t = PStr ''status_url'' then d\<lparr>op_status_url := Some event\<rparr>
      else if t = PStr ''result'' then d\<lparr>op_result := Some event\<rparr> else d)"

definition read_line :: "(string \<Rightarrow> pyval option) \<Rightarrow> string \<Rightarrow> deploy_op \<Rightarrow> unit res \<times> deploy_op" where
  "read_line parse line d =
     (case parse line of
        None \<Rightarrow> (Inr (), add_event (log_event (PStr line) (PStr ''log'')) d)
      | Some (PDict event) \<Rightarrow>
          (let t = dget_default event ''event'' PNone; d1 = stash_event event t d
           in attempt (named_event t) d1 (\<lambda>name.
                case name of
                  Some s \<Rightarrow> (Inr (), add_event (s, event) d1)
                | None \<Rightarrow>
                    (let msg = dget_default event ''message'' (PStr '''')
                     in (Inr (), if truthy msg
                                 then add_event (log_event msg (if truthy t then t else PStr ''log'')) d1
                                 else d1))))
      | Some _ \<Rightarrow> (Inl attribute_error, d))"

fun read_lines :: "(string \<Rightarrow> pyval option) \<Rightarrow> string list \<Rightarrow> deploy_op \<Rightarrow> unit res \<times> deploy_op" where
  "read_lines parse [] d = (Inr (), d)"
| "read_lines parse (l # ls) d =
     (case read_line parse l d of (r, d1) \<Rightarrow> attempt r d1 (\<lambda>_. read_lines parse ls d1))"

text \<open>The \<open>finally\<close> block, with the status reached, if any; it is assigned last.\<close>

definition finish_deploy :: "string option \<Rightarrow> time \<Rightarrow> deploy_op \<Rightarrow> deploy_op" where
  "finish_deploy final now d =
     (let d1 = (if final = Some ''failed''
                then fold (\<lambda>l. add_event (log_event (PStr l) (PStr ''error''))) (op_stderr d) d else d)
      in d1\<lparr>op_finished := Some now, op_status := (case final of None \<Rightarrow> op_status d1 | Some s \<Rightarrow> s)\<rparr>)"

text \<open>\<open>_read_subprocess\<close> on all lines and the exit code of a process that ends.\<close>

definition read_subprocess ::
  "(string \<Rightarrow> pyval option) \<Rightarrow> string list \<Rightarrow> int \<Rightarrow> time \<Rightarrow> deploy_op \<Rightarrow> deploy_op" where
  "read_subprocess parse ls exit_code now d =
     (case read_lines parse ls d of
        (Inl e, d1) \<Rightarrow> finish_deploy (Some ''failed'') now d1
      | (Inr _, d1) \<Rightarrow>
          finish_deploy (Some (if exit_code = 0 then ''succeeded'' else ''failed'')) now (d1\<lparr>op_exit := Some exit_code\<rparr>))"

section \<open>The watchdog\<close>

datatype proc_signal = Terminate | Kill

definition timeout_message :: "string \<Rightarrow> string" where
  "timeout_message seconds = ''Deploy timed out after '' @ seconds @ ''s, terminating subprocess''"

definition grace_message :: "string \<Rightarrow> string" where
  "grace_message seconds = ''Deploy did not exit within '' @ seconds @ ''s after SIGTERM, killing''"

text \<open>
  \<open>alive\<close>: the process has no return code when the timeout is reached; \<open>exits\<close>: it exits within the
  grace period.
\<close>

definition timeout_watchdog :: "string \<Rightarrow> string \<Rightarrow> bool \<Rightarrow> bool \<Rightarrow> deploy_op \<Rightarrow> proc_signal list \<times> deploy_op" where
  "timeout_watchdog timeout grace alive exits d =
     (if \<not> (op_status d = ''running'' \<and> alive) then ([], d)
      else
        (let d1 = add_event (log_event (PStr (timeout_message timeout)) (PStr ''error'')) d
         in if exits then ([Terminate], d1)
            else ([Terminate, Kill], add_event (log_event (PStr (grace_message grace)) (PStr ''error'')) d1)))"

section \<open>The endpoints\<close>

definition deploy_name :: "string \<Rightarrow> string" where
  "deploy_name cwd = map (\<lambda>c. if is_digit c \<or> (CHR ''a'' \<le> c \<and> c \<le> CHR ''z'') \<or> c = CHR ''-'' then c else CHR ''-'')
     (str_lower cwd)"

text \<open>
  \<open>POST /deploy\<close> before its first suspension point: the status code and operation id of a refusal,
  \<open>None\<close> when the request goes on.
\<close>

definition admit_deploy :: "string \<Rightarrow> deploy_op option \<Rightarrow> (nat \<times> string) option" where
  "admit_deploy origin current =
     (if \<not> is_allowed_origin origin then Some (403, '''')
      else case current of
        Some d \<Rightarrow> if op_status d = ''running'' then Some (409, op_id d) else None
      | None \<Rightarrow> None)"

text \<open>The body is \<open>None\<close> when it is not JSON; \<open>to_text\<close> is Python's \<open>str\<close>.\<close>

definition deploy_command :: "string \<Rightarrow> (pyval \<Rightarrow> string) \<Rightarrow> pyval option \<Rightarrow> string list" where
  "deploy_command python to_text body =
     (let name = (case body of Some (PDict d) \<Rightarrow> dget_default d ''name'' PNone | _ \<Rightarrow> PNone)
      in [python, ''-m'', ''langgraph_cli'', ''deploy'', ''--json'', ''--no-input''] @
         (if truthy name then [''--name'', to_text name] else []))"

text \<open>After the subprocess was created; the current operation is not looked at again.\<close>

definition register_deploy :: "string \<Rightarrow> time \<Rightarrow> deploy_op option \<Rightarrow> nat \<times> string \<times> deploy_op option" where
  "register_deploy new_id now current = (200, new_id, Some (new_deploy new_id now))"

text \<open>
  A request that nothing interrupts: the status code, the operation id of the answer and the new
  current operation.
\<close>

definition start_deploy :: "string \<Rightarrow> string \<Rightarrow> time \<Rightarrow> deploy_op option \<Rightarrow> nat \<times> string \<times> deploy_op option" where
  "start_deploy origin new_id now current =
     (case admit_deploy origin current of
        Some (code, i) \<Rightarrow> (code, i, current)
      | None \<Rightarrow> register_deploy new_id now current)"

text \<open>\<open>GET /deploy\<close>: the raw events are passed through.\<close>

record deploy_view =
  vw_id :: string
  vw_status :: string
  vw_exit :: "int option"
  vw_started :: time
  vw_finished :: "time option"
  vw_status_url :: "pdict option"
  vw_result :: "pdict option"

definition serialize_operation :: "deploy_op \<Rightarrow> deploy_view" where
  "serialize_operation d =
     \<lparr>vw_id = op_id d, vw_status = op_status d, vw_exit = op_exit d, vw_started = op_started d,
      vw_finished = op_finished d, vw_status_url = op_status_url d, vw_result = op_result d\<rparr>"

record deploy_info =
  protocol_version :: nat
  default_name :: string
  has_api_key :: bool
  has_config :: bool

definition collect_deploy_info :: "string \<Rightarrow> (string \<Rightarrow> string option) \<Rightarrow> bool \<Rightarrow> deploy_info" where
  "collect_deploy_info cwd env config_file =
     \<lparr>protocol_version = 1, default_name = deploy_name cwd,
      has_api_key = list_ex (\<lambda>k. case env k of None \<Rightarrow> False | Some s \<Rightarrow> s \<noteq> [])
        [''LANGSMITH_API_KEY'', ''LANGCHAIN_API_KEY'', ''LANGGRAPH_HOST_API_KEY''],
      has_config = config_file\<rparr>"

definition get_deploy :: "string \<Rightarrow> deploy_info \<Rightarrow> deploy_op option \<Rightarrow> (deploy_info \<times> deploy_view option) res" where
  "get_deploy origin info current =
     (if \<not> is_allowed_origin origin then Inl (HTTPException 403)
      else Inr (info, map_option serialize_operation current))"

text \<open>The operation a stream request is served from.\<close>

definition streamed_deploy :: "string \<Rightarrow> string \<Rightarrow> deploy_op option \<Rightarrow> deploy_op res" where
  "streamed_deploy origin i current =
     (if \<not> is_allowed_origin origin then Inl (HTTPException 403)
      else case current of
        Some d \<Rightarrow> if op_id d = i then Inr d else Inl (HTTPException 404)
      | None \<Rightarrow> Inl (HTTPException 404))"

text \<open>\<open>max(0, int(raw))\<close> of the \<open>Last-Event-ID\<close>; what \<open>int\<close> rejects counts as absent.\<close>

definition initial_cursor :: "string option \<Rightarrow> nat" where
  "initial_cursor raw =
     (case raw of
        None \<Rightarrow> 0
      | Some s \<Rightarrow>
          (let (neg, body) = scan_sign (strip_ws s); (v, n, rest) = scan_digits 0 0 body
           in if n = 0 \<or> rest \<noteq> [] \<or> neg then 0 else v))"

text \<open>One round of the generator: the buffered events after the cursor, with their absolute ids.\<close>

definition emit :: "nat \<Rightarrow> deploy_op \<Rightarrow> (deploy_event \<times> nat) list" where
  "emit cursor d =
     (let start = op_total d - length (op_events d); skip = cursor - start
      in map (\<lambda>(i, e). (e, start + skip + i + 1)) (enumerate 0 (drop skip (op_events d))))"

text \<open>
  The generator over the operation as it observes it: at each round the state at the snapshot and
  the state at the status check (events may be appended while it is suspended in a \<open>yield\<close>). It ends
  at the first check that finds the operation no longer running.
\<close>

definition terminal :: "deploy_op \<Rightarrow> deploy_event \<times> nat" where
  "terminal d =
     ((if op_status d = ''succeeded'' then ''done'' else ''error'',
       [(''exit_code'', case op_exit d of None \<Rightarrow> PNone | Some i \<Rightarrow> PInt i)]), op_total d + 1)"

fun stream_deploy :: "nat \<Rightarrow> (deploy_op \<times> deploy_op) list \<Rightarrow> (deploy_event \<times> nat) list" where
  "stream_deploy cursor [] = []"
| "stream_deploy cursor ((d, d') # rounds) =
     emit cursor d @
     (if op_status d' \<noteq> ''running'' then emit (op_total d) d' @ [terminal d']
      else stream_deploy (op_total d) rounds)"

text \<open>\<open>POST /internal/truncate\<close>.\<close>

definition truncate_all :: "world \<Rightarrow> world" where
  "truncate_all w = connection_clear (w\<lparr>ckpt_saver := saver_clear (ckpt_saver w)\<rparr>)"

definition debug_get_raw_thread :: "uuid \<Rightarrow> world \<Rightarrow> thread res" where
  "debug_get_raw_thread tid w = (case find_thread tid w of None \<Rightarrow> Inl (HTTPException 404) | Some t \<Rightarrow> Inr t)"

end
