(* ===== verification/Deploy_Props.thy ===== *)
theory Deploy_Props
  imports Deploy
begin

text \<open>
  The event buffer is the end of the history of all events ever appended, so the stream can be
  resumed from any id that is still buffered and delivers every later event exactly once, in order,
  before one terminal event. A line of output that is valid JSON but not an object ends the deploy.
\<close>

section \<open>The buffer and the history\<close>

definition buffers :: "deploy_event list \<Rightarrow> deploy_op \<Rightarrow> bool" where
  "buffers h d \<longleftrightarrow> op_events d = drop (length h - max_events) h \<and> op_total d = length h"

lemma ring_append_drop: "ring_append n x (drop (length h - n) h) = drop (length (h @ [x]) - n) (h @ [x])"
  by (cases "length h < n") (auto simp: ring_append_def Let_def not_less Suc_diff_le)

lemma length_ring: "length (ring_append n x xs) \<le> n"
  by (simp add: ring_append_def Let_def)

lemma buffers_new: "buffers [] (new_deploy i now)"
  by (simp add: buffers_def new_deploy_def)

lemma buffers_add: "buffers h d \<Longrightarrow> buffers (h @ [e]) (add_event e d)"
  using ring_append_drop[of max_events e h] by (simp add: buffers_def add_event_def)

lemma buffers_cong [simp]:
  "buffers h (d\<lparr>op_status_url := x\<rparr>) = buffers h d" "buffers h (d\<lparr>op_result := x\<rparr>) = buffers h d"
  "buffers h (d\<lparr>op_exit := y\<rparr>) = buffers h d" "buffers h (d\<lparr>op_finished := z\<rparr>) = buffers h d"
  "buffers h (d\<lparr>op_status := v\<rparr>) = buffers h d" "buffers h (d\<lparr>op_stderr := ls\<rparr>) = buffers h d"
  by (simp_all add: buffers_def)

lemma buffers_stash [simp]: "buffers h (stash_event event t d) = buffers h d"
  by (simp add: stash_event_def)

lemma read_line_buffers:
  assumes "buffers h d"
  shows "\<exists>h'. prefix h h' \<and> buffers h' (snd (read_line parse line d))"
proof -
  have "\<exists>h'. prefix h h' \<and> buffers h' d'" if "buffers h d'" for d' using that by blast
  moreover have "\<exists>h'. prefix h h' \<and> buffers h' (add_event e d')" if "buffers h d'" for d' e
    using buffers_add[OF that] by (meson prefix_def)
  ultimately show ?thesis
    using assms
    by (auto simp: read_line_def Let_def attempt_def split: option.split pyval.split sum.split)
qed

lemma read_lines_buffers:
  "buffers h d \<Longrightarrow> \<exists>h'. prefix h h' \<and> buffers h' (snd (read_lines parse ls d))"
proof (induction ls arbitrary: h d)
  case (Cons l ls)
  obtain r d1 where d1: "read_line parse l d = (r, d1)" by fastforce
  with read_line_buffers[OF Cons.prems, of parse l] obtain h1 where h1: "prefix h h1" "buffers h1 d1" by auto
  show ?case
  proof (cases r)
    case (Inl e)
    with d1 h1 show ?thesis by auto
  next
    case (Inr u)
    from Cons.IH[OF h1(2)] obtain h' where h': "prefix h1 h'" "buffers h' (snd (read_lines parse ls d1))" by blast
    have "snd (read_lines parse (l # ls) d) = snd (read_lines parse ls d1)" by (simp add: d1 Inr)
    with h' prefix_order.trans[OF h1(1) h'(1)] show ?thesis by (intro exI[of _ h']) simp
  qed
qed auto

lemma add_all_buffers: "buffers h d \<Longrightarrow> buffers (h @ map f ls) (fold (\<lambda>l. add_event (f l)) ls d)"
proof (induction ls arbitrary: h d)
  case (Cons l ls)
  from Cons.IH[OF buffers_add[OF Cons.prems, of "f l"]] show ?case by simp
qed simp

lemma finish_buffers: "buffers h d \<Longrightarrow> \<exists>h'. prefix h h' \<and> buffers h' (finish_deploy final now d)"
proof -
  assume h: "buffers h d"
  let ?e = "\<lambda>l. log_event (PStr l) (PStr ''error'')"
  have "buffers (h @ map ?e (op_stderr d)) (fold (\<lambda>l. add_event (?e l)) (op_stderr d) d)"
    by (rule add_all_buffers[OF h])
  with h show ?thesis by (auto simp: finish_deploy_def Let_def prefix_def)
qed

lemma emit_exact:
  assumes "buffers h d"
  shows "emit cursor d = map (\<lambda>i. (h ! i, i + 1)) [max cursor (length h - max_events)..<length h]"
proof (cases "cursor \<le> length h")
  case True
  define s where "s = length h - max_events"
  have len: "length (op_events d) = length h - s" using assms by (simp add: buffers_def s_def)
  have start: "op_total d - length (op_events d) = s" using assms len by (simp add: buffers_def s_def)
  have drop: "drop (cursor - s) (op_events d) = drop (max cursor s) h"
    using assms by (simp add: buffers_def s_def[symmetric] max_def add.commute split: if_splits)
  have sum: "s + (cursor - s) = max cursor s" by (simp add: max_def)
  show ?thesis
    unfolding emit_def start Let_def drop sum s_def[symmetric]
    using True by (intro nth_equalityI) (auto simp: nth_enumerate_eq s_def)
next
  case False
  have "op_total d - length (op_events d) \<le> length h" using assms by (simp add: buffers_def)
  moreover have "length (op_events d) \<le> cursor - (op_total d - length (op_events d))"
    using assms False by (auto simp: buffers_def)
  ultimately show ?thesis using False by (simp add: emit_def Let_def)
qed

section \<open>Properties\<close>

text \<open>
  What a client observes of a deploy with the history \<open>h\<close>: every state it looks at is a point of the
  history, it never falls more than the buffer behind, and it sees the end.
\<close>

fun follows :: "deploy_event list \<Rightarrow> nat \<Rightarrow> (deploy_op \<times> deploy_op) list \<Rightarrow> bool" where
  "follows h seen [] = False"
| "follows h seen ((d, d') # rounds) =
     (buffers (take (op_total d) h) d \<and> buffers (take (op_total d') h) d' \<and>
      seen \<le> op_total d \<and> op_total d \<le> seen + max_events \<and>
      op_total d \<le> op_total d' \<and> op_total d' \<le> op_total d + max_events \<and>
      (if op_status d' \<noteq> ''running'' then op_total d' = length h \<and> rounds = []
       else follows h (op_total d) rounds))"

lemma emit_round:
  assumes "buffers (take n h) d" and "op_total d = n" and "c \<le> n" and "n \<le> c + max_events"
  shows "emit c d = map (\<lambda>i. (h ! i, i + 1)) [c..<n]"
proof -
  have n: "length (take n h) = n" using assms(1,2) by (simp add: buffers_def)
  then have "max c (length (take n h) - max_events) = c" using assms(4) by simp
  with emit_exact[OF assms(1), of c] n show ?thesis by (auto intro!: map_cong)
qed

text \<open>
  C17. The deploy stream delivers every event exactly once. A client that starts or resumes after the
  event id \<open>c\<close>, and never falls more than the ring buffer behind, receives the events \<open>c+1\<close>, \<open>c+2\<close>, up to
  the last one the deploy ever produced, in order, without gap or repetition, also those appended while
  the generator was suspended; then one terminal event with the next id, and nothing after it.
\<close>

theorem deploy_stream_exact:
  "follows h c rounds \<Longrightarrow>
   stream_deploy c rounds = map (\<lambda>i. (h ! i, i + 1)) [c..<length h] @ [terminal (snd (last rounds))]"
proof (induction rounds arbitrary: c)
  case (Cons x rounds)
  obtain d d' where x: "x = (d, d')" by fastforce
  from Cons.prems have f: "buffers (take (op_total d) h) d" "buffers (take (op_total d') h) d'"
    "c \<le> op_total d" "op_total d \<le> c + max_events" "op_total d \<le> op_total d'" "op_total d' \<le> op_total d + max_events"
    by (simp_all add: x)
  have e1: "emit c d = map (\<lambda>i. (h ! i, i + 1)) [c..<op_total d]" using f by (intro emit_round) auto
  have e2: "emit (op_total d) d' = map (\<lambda>i. (h ! i, i + 1)) [op_total d..<op_total d']" using f by (intro emit_round) auto
  have join: "map (\<lambda>i. (h ! i, i + 1)) [c..<op_total d] @ map (\<lambda>i. (h ! i, i + 1)) [op_total d..<m]
      = map (\<lambda>i. (h ! i, i + 1)) [c..<m]" if "op_total d \<le> m" for m
    using upt_add_eq_append[OF f(3), of "m - op_total d"] that by simp
  have bound: "op_total d \<le> length h" using f(1) by (metis buffers_def length_take min.cobounded1)
  show ?case
  proof (cases "op_status d' = ''running''")
    case True
    with Cons.prems have rest: "follows h (op_total d) rounds" "rounds \<noteq> []" by (auto simp: x)
    have last: "last (x # rounds) = last rounds" using rest(2) by simp
    have "stream_deploy c (x # rounds) = emit c d @ stream_deploy (op_total d) rounds"
      using True by (simp add: x)
    also have "\<dots> = map (\<lambda>i. (h ! i, i + 1)) [c..<length h] @ [terminal (snd (last rounds))]"
      unfolding Cons.IH[OF rest(1)] e1 append_assoc[symmetric] join[OF bound] ..
    finally show ?thesis unfolding last .
  next
    case False
    with Cons.prems have l: "op_total d' = length h" "rounds = []" by (simp_all add: x)
    have "stream_deploy c (x # rounds) = (emit c d @ emit (op_total d) d') @ [terminal d']"
      using False by (simp add: x)
    also have "emit c d @ emit (op_total d) d' = map (\<lambda>i. (h ! i, i + 1)) [c..<length h]"
      unfolding e1 e2 l(1) by (rule join[OF bound])
    finally show ?thesis by (simp add: x l)
  qed
qed simp

text \<open>
  The buffers are bounded and the log is complete up to the bound. Whatever the subprocess prints,
  the event buffer holds the last 2000 of all events appended so far and at most 50 lines of stderr are
  kept, and the total counts every event ever appended.
\<close>

theorem deploy_buffers_bounded:
  "\<exists>h. op_events (read_subprocess parse ls code now (drain_stderr errs (new_deploy i started))) =
         drop (length h - 2000) h \<and>
       op_total (read_subprocess parse ls code now (drain_stderr errs (new_deploy i started))) = length h \<and>
       length (op_stderr (read_subprocess parse ls code now (drain_stderr errs (new_deploy i started)))) \<le> 50"
proof -
  define d where "d = drain_stderr errs (new_deploy i started)"
  have "buffers [] (drain_stderr errs d0) \<and> length (op_stderr (drain_stderr errs d0)) \<le> 50"
    if "buffers [] d0" "length (op_stderr d0) \<le> 50" for d0
    using that unfolding drain_stderr_def
  proof (induction errs arbitrary: d0)
    case (Cons l errs)
    then show ?case using length_ring[of max_stderr l "op_stderr d0"] by (simp add: max_stderr_def)
  qed simp
  from this[OF buffers_new] have d: "buffers [] d" "length (op_stderr d) \<le> 50"
    by (simp_all add: d_def new_deploy_def)
  have line: "op_stderr (snd (read_line parse l x)) = op_stderr x" for l x
    by (auto simp: read_line_def Let_def attempt_def add_event_def stash_event_def split: option.split pyval.split sum.split)
  have lines: "op_stderr (snd (read_lines parse ls x)) = op_stderr x" for x
  proof (induction ls arbitrary: x)
    case (Cons l ls)
    then show ?case using line[of l x] by (auto simp: case_prod_unfold attempt_def split: sum.split)
  qed simp
  have adds: "op_stderr (fold (\<lambda>l. add_event (f l)) xs x) = op_stderr x" for f and xs :: "string list" and x
    by (induction xs arbitrary: x) (simp_all add: add_event_def)
  have fin: "op_stderr (finish_deploy final now x) = op_stderr x" for final x
    by (simp add: finish_deploy_def Let_def adds)
  obtain r d1 where d1: "read_lines parse ls d = (r, d1)" by fastforce
  with read_lines_buffers[OF d(1), of parse ls] lines[of d] obtain h1 where h1: "buffers h1 d1" "op_stderr d1 = op_stderr d"
    by auto
  have sub: "\<exists>final x. read_subprocess parse ls code now d = finish_deploy final now (d1\<lparr>op_exit := x\<rparr>)"
  proof (cases r)
    case (Inl e)
    then have "read_subprocess parse ls code now d = finish_deploy (Some ''failed'') now (d1\<lparr>op_exit := op_exit d1\<rparr>)"
      by (simp add: read_subprocess_def d1)
    then show ?thesis by blast
  next
    case (Inr u)
    then show ?thesis by (auto simp: read_subprocess_def d1)
  qed
  then obtain final x where fx: "read_subprocess parse ls code now d = finish_deploy final now (d1\<lparr>op_exit := x\<rparr>)" by blast
  from finish_buffers[of h1 "d1\<lparr>op_exit := x\<rparr>" final now] h1(1) obtain h where
    "buffers h (finish_deploy final now (d1\<lparr>op_exit := x\<rparr>))" by auto
  then show ?thesis
    unfolding d_def[symmetric] fx fin using d(2) h1(2) by (auto simp: buffers_def max_events_def)
qed

text \<open>
  One line of plain output can fail a deploy. If the subprocess prints a line that is valid JSON but
  not an object (a bare number, a quoted text, \<open>null\<close>), the reader stops there: the deploy is reported
  as failed without an exit code, whatever the process prints later and however it exits.
\<close>

theorem non_object_line_fails_deploy:
  assumes "read_lines parse before d = (Inr (), d1)" and "parse line = Some v" and "\<And>x. v \<noteq> PDict x"
  shows "op_status (read_subprocess parse (before @ line # after) code now d) = ''failed'' \<and>
    op_exit (read_subprocess parse (before @ line # after) code now d) = op_exit d1"
proof -
  have line: "read_line parse line d1 = (Inl attribute_error, d1)"
    using assms(2,3) by (auto simp: read_line_def split: pyval.split)
  have "read_lines parse (before @ rest) d = read_lines parse rest d1" if "read_lines parse before d = (Inr (), d1)" for rest
    using that
  proof (induction before arbitrary: d)
    case (Cons l ls)
    then show ?case
      by (cases "fst (read_line parse l d)") (auto simp: case_prod_unfold)
  qed simp
  from this[OF assms(1), of "line # after"] line
  have "read_subprocess parse (before @ line # after) code now d = finish_deploy (Some ''failed'') now d1"
    by (simp add: read_subprocess_def)
  moreover have "op_exit (fold (\<lambda>l. add_event (f l)) xs x) = op_exit x" for f and xs :: "string list" and x
    by (induction xs arbitrary: x) (simp_all add: add_event_def)
  ultimately show ?thesis by (simp add: finish_deploy_def Let_def)
qed

section \<open>Witnesses\<close>

definition demo_event :: "nat \<Rightarrow> deploy_event" where
  "demo_event n = log_event (PInt (int n)) (PStr ''log'')"

definition demo_deploy :: deploy_op where
  "demo_deploy = add_event (demo_event 2) (add_event (demo_event 1) (new_deploy ''op'' 0))"

definition demo_ended :: deploy_op where
  "demo_ended = finish_deploy (Some ''succeeded'') 9 ((add_event (demo_event 3) demo_deploy)\<lparr>op_exit := Some 0\<rparr>)"

theorem deploy_stream_exact_witness:
  "stream_deploy 1 [(demo_deploy, demo_ended)] =
     [(demo_event 2, 2), (demo_event 3, 3), ((''done'', [(''exit_code'', PInt 0)]), 4)]"
proof -
  let ?h = "[demo_event 1, demo_event 2, demo_event 3]"
  have 1: "buffers [demo_event 1, demo_event 2] demo_deploy"
    using buffers_add[OF buffers_add[OF buffers_new]] by (simp add: demo_deploy_def)
  have 2: "buffers ?h demo_ended"
    using buffers_add[OF 1, of "demo_event 3"] by (simp add: demo_ended_def finish_deploy_def)
  have t: "op_total demo_deploy = 2" "op_total demo_ended = 3" "op_status demo_ended = ''succeeded''" "op_exit demo_ended = Some 0"
    by (simp_all add: demo_deploy_def demo_ended_def finish_deploy_def add_event_def new_deploy_def)
  have "follows ?h 1 [(demo_deploy, demo_ended)]"
    using 1 2 by (simp add: t max_events_def numeral_2_eq_2 numeral_3_eq_3)
  from deploy_stream_exact[OF this] show ?thesis
    by (simp add: t terminal_def upt_rec numeral_2_eq_2 numeral_3_eq_3)
qed

theorem non_object_line_fails_deploy_witness:
  "op_status (read_subprocess (\<lambda>l. Some (PInt 3)) ([] @ ''3'' # [''done'']) 0 7 (new_deploy ''op'' 0)) = ''failed''"
proof -
  have "read_lines (\<lambda>l. Some (PInt 3)) [] (new_deploy ''op'' 0) = (Inr (), new_deploy ''op'' 0)" by simp
  from non_object_line_fails_deploy[OF this, where line = "''3''" and v = "PInt 3" and after = "[''done'']" and code = 0 and now = 7]
  show ?thesis by simp
qed

section \<open>Admission\<close>

lemma new_deploy_fields [simp]: "op_id (new_deploy i now) = i" "op_status (new_deploy i now) = ''running''"
  by (simp_all add: new_deploy_def)

text \<open>
  One deploy at a time, if requests do not overlap. Along any sequence of uninterrupted requests, a
  deploy is started only when the one before it has ended, and while it runs its stream can be joined.
\<close>

lemma sequential_deploys:
  assumes "start_deploy origin i now current = (200, j, current')"
  shows "j = i \<and> (\<forall>d. current = Some d \<longrightarrow> op_status d \<noteq> ''running'') \<and>
    (\<exists>d. current' = Some d \<and> op_status d = ''running'' \<and> streamed_deploy origin i current' = Inr d)"
proof -
  have "current' = Some (new_deploy i now) \<and> j = i" and ok: "admit_deploy origin current = None"
    using assms by (auto simp: start_deploy_def admit_deploy_def register_deploy_def split: option.splits if_splits)
  then show ?thesis
    by (auto simp: admit_deploy_def streamed_deploy_def split: if_splits)
qed

text \<open>
  Overlapping requests start two deploys. The check for a running deploy and the registration of the
  new one are separated by the reading of the body and the creation of the process. Two requests that are
  both checked before the first one registers are both admitted; afterwards the first deploy runs, and
  asking for its stream is answered with 404.
\<close>

lemma overlapping_deploys:
  assumes "admit_deploy o1 current = None" and "admit_deploy o2 current = None" and "i \<noteq> j"
    and "register_deploy i now current = (code, k, c1)" and "register_deploy j now' c1 = (code', k', c2)"
  shows "(\<exists>d. c1 = Some d \<and> op_status d = ''running'' \<and> op_id d = i) \<and> code' = 200 \<and>
    streamed_deploy o1 i c2 = Inl (HTTPException 404)"
  using assms
  by (auto simp: admit_deploy_def register_deploy_def streamed_deploy_def split: if_splits)

end
