(* ===== verification/Sweep_Loop.thy ===== *)
theory Sweep_Loop
  imports Thread_Sweep
begin

text \<open>
  The background task that sweeps expired threads (\<open>thread_ttl.py\<close>): the validation at its start, one
  tick, and the loop; and the progress every tick makes.
\<close>

section \<open>The loop\<close>

text \<open>\<open>max(interval_minutes * 60, 0.1)\<close>; the comparison with not-a-number keeps the first argument.\<close>

definition interval_seconds :: "pfloat \<Rightarrow> pfloat" where
  "interval_seconds m =
     (case m of
        Finite r \<Rightarrow> if float_limit \<le> r * 60 then Infinity False else Finite (max (r * 60) (1 / 10))
      | Infinity neg \<Rightarrow> if neg then Finite (1 / 10) else Infinity False
      | Not_a_Number \<Rightarrow> Not_a_Number)"

text \<open>
  What precedes the loop: the seconds between ticks. A strategy that is not a text is not valid as
  one.
\<close>

definition start_sweep_loop :: "pdict option \<Rightarrow> pfloat res" where
  "start_sweep_loop ttl =
     (let config = (case ttl of None \<Rightarrow> [] | Some c \<Rightarrow> c)
      in if strategy_of config \<notin> {Some ''delete'', Some ''keep_latest''} then Inl value_error
         else bind_res (py_float (dget_default config ''sweep_interval_minutes'' (PInt 5))) (\<lambda>m.
                Inr (interval_seconds m)))"

text \<open>\<open>config.get("batch_size", 100)\<close>, as a size \<open>range\<close> accepts after \<open>max(1, _)\<close>.\<close>

definition sweep_batch_size :: "pdict option \<Rightarrow> nat res" where
  "sweep_batch_size ttl =
     (case dget_default (case ttl of None \<Rightarrow> [] | Some c \<Rightarrow> c) ''batch_size'' (PInt 100) of
        PInt n \<Rightarrow> Inr (nat n)
      | PBool b \<Rightarrow> Inr (if b then 1 else 0)
      | PFloat x \<Rightarrow> if x \<le> 1 then Inr 1 else Inl type_error
      | _ \<Rightarrow> Inl type_error)"

definition sweep_once ::
  "saver_env \<Rightarrow> api_config \<Rightarrow> time \<Rightarrow> world \<Rightarrow> ((nat \<times> nat \<times> sweep_stats) res \<times> world) option" where
  "sweep_once E cfg now w =
     (if (case sweep_limit cfg of None \<Rightarrow> False | Some n \<Rightarrow> n \<le> 0)
      then threads_sweep_ttl E cfg now (sweep_limit cfg) 1 w
      else case sweep_batch_size (thread_ttl cfg) of
        Inl e \<Rightarrow> Some (Inl e, w)
      | Inr n \<Rightarrow> threads_sweep_ttl E cfg now (sweep_limit cfg) n w)"

text \<open>
  The ticks at the given times, until the task is cancelled. An exception of a tick is logged and the
  loop goes on; \<open>None\<close> is a tick that does not end.
\<close>

fun ttl_sweep_loop :: "saver_env \<Rightarrow> api_config \<Rightarrow> time list \<Rightarrow> world \<Rightarrow> world option" where
  "ttl_sweep_loop E cfg [] w = Some w"
| "ttl_sweep_loop E cfg (now # ts) w =
     (case sweep_once E cfg now w of None \<Rightarrow> None | Some (_, w1) \<Rightarrow> ttl_sweep_loop E cfg ts w1)"

section \<open>TTL records after a sweep\<close>

abbreviation swept :: "expired_thread \<Rightarrow> ttl_state" where
  "swept x \<equiv> (ex_state x)\<lparr>last_swept := Some (ex_updated x)\<rparr>"

definition ttls_after :: "expired_thread list \<Rightarrow> world \<Rightarrow> world \<Rightarrow> bool" where
  "ttls_after xs w w' \<longleftrightarrow>
     (\<forall>tid. tid \<notin> ex_id ` set xs \<longrightarrow> map_of (thread_ttls w') tid = map_of (thread_ttls w) tid) \<and>
     (\<forall>x\<in>set xs. \<not> deletes x \<longrightarrow> map_of (thread_ttls w') (ex_id x) = Some (swept x))"

lemma ttls_after_trans:
  assumes "ttls_after xs w w1" and "ttls_after ys w1 w2" and "ex_id ` set xs \<inter> ex_id ` set ys = {}"
  shows "ttls_after (xs @ ys) w w2"
  using assms by (fastforce simp: ttls_after_def)

lemma sweep_batch_ttls:
  assumes base: "base_delete_ok E"
  shows "world_inv w \<Longrightarrow> sweepable xs w \<Longrightarrow> ttls_after xs w (snd (sweep_batch E xs n w))"
proof (induction xs arbitrary: n w)
  case Nil
  then show ?case by (simp add: ttls_after_def)
next
  case (Cons x xs)
  have x: "ex_id x \<in> t_id ` set (threads w)" "state_ok (ex_state x)" and fresh: "ex_id x \<notin> ex_id ` set xs"
    using Cons.prems(2) by (auto simp: sweepable_def)
  define w1 where "w1 = (if deletes x then delete_thread_rows E (ex_id x) w
    else w\<lparr>thread_ttls := AList.update (ex_id x) (swept x) (thread_ttls w)\<rparr>)"
  have w1: "world_inv w1" "rows_without (doomed [x]) w w1"
    using keep_inv[OF Cons.prems(1) x(2,1)] delete_thread_rows_inv[OF base Cons.prems(1)]
      delete_rows_without[OF Cons.prems(1)]
    by (auto simp: w1_def rows_without_def)
  have "sweepable xs w1" using sweepable_rows[of "[x]" xs w w1] Cons.prems(2) w1(2) by simp
  from Cons.IH[OF w1(1) this] have rest: "ttls_after xs w1 (snd (sweep_batch E xs m w1))" for m .
  have "ttls_after [x] w w1"
    by (auto simp: ttls_after_def w1_def delete_thread_rows_def dict_simps)
  then have "ttls_after ([x] @ xs) w (snd (sweep_batch E xs m w1))" for m
    using fresh by (intro ttls_after_trans[OF _ rest]) auto
  then show ?case
    using sweep_delete[OF Cons.prems(1) x(1), of E] by (auto simp: w1_def deletes_def split: if_splits)
qed

lemma prune_batches_ttls: "prune_batches E bs w = Some w' \<Longrightarrow> thread_ttls w' = thread_ttls w"
  by (induction bs arbitrary: w) (fastforce split: option.splits)+

lemma sweep_batches_ttls:
  assumes base: "base_delete_ok E"
  shows "world_inv w \<Longrightarrow> sweepable (concat bs) w \<Longrightarrow> sweep_batches E bs n w = Some (res, w') \<Longrightarrow>
    ttls_after (concat bs) w w'"
proof (induction bs arbitrary: n w)
  case Nil
  then show ?case by (simp add: ttls_after_def)
next
  case (Cons b bs)
  let ?keep = "map ex_id (filter (\<lambda>x. ttl_strategy (ex_policy x) = ''keep_latest'') b)"
  from Cons.prems(3) obtain w1 where w1: "(if ?keep = [] then Some w else prune_batches E [?keep] w) = Some w1"
    by (auto simp: Let_def split: option.splits)
  have i1: "world_inv w1" and r1: "rows_without {} w w1"
    using prune_step[OF base Cons.prems(1) w1] by simp_all
  have t1: "thread_ttls w1 = thread_ttls w"
    using w1 by (auto split: if_splits simp del: prune_batches.simps dest: prune_batches_ttls)
  have s1: "sweepable (b @ concat bs) w1" using sweepable_rows[of "[]" _ w w1] Cons.prems(2) r1 by simp
  then have sb: "sweepable b w1" by (auto simp: sweepable_def)
  from sweep_batch_exact[OF base i1 sb, of n] obtain w2 where
    b: "sweep_batch E b n w1 = (Inr (fst n + length b, snd n + length (filter deletes b)), w2)"
      "world_inv w2" "rows_without (doomed b) w1 w2" by blast
  have s2: "sweepable (concat bs) w2" by (rule sweepable_rows[OF s1 b(3)])
  have "ttls_after b w w2"
    using sweep_batch_ttls[OF base i1 sb, of n] by (simp add: b(1) ttls_after_def t1)
  moreover have "sweep_batches E bs (fst n + length b, snd n + length (filter deletes b)) w2 = Some (res, w')"
    using Cons.prems(3) b(1) unfolding sweep_batches.simps Let_def w1 by simp
  then have "ttls_after (concat bs) w2 w'" by (rule Cons.IH[OF b(2) s2])
  ultimately show ?case
    using Cons.prems(2) by (auto simp: sweepable_def intro!: ttls_after_trans)
qed


section \<open>Progress\<close>

text \<open>All threads due at a time, in the order of the sweep.\<close>

definition due_threads :: "api_config \<Rightarrow> time \<Rightarrow> world \<Rightarrow> expired_thread list res" where
  "due_threads cfg now w =
     bind_res (collect_expired (expired_entry cfg now w) (threads w)) (\<lambda>xs.
       Inr (sort_key (\<lambda>x. (ex_at x, ex_id x)) xs))"

lemma expired_due_threads:
  "expired_threads cfg now limit w =
   bind_res (due_threads cfg now w) (\<lambda>ys. Inr (case effective_limit cfg limit of None \<Rightarrow> ys | Some n \<Rightarrow> take n ys))"
  by (auto simp: expired_threads_def due_threads_def Let_def bind_res_def split: sum.splits)

lemma collect_expired_cong:
  "(\<And>t. t \<in> set ts \<Longrightarrow> f t = g t) \<Longrightarrow> collect_expired f ts = collect_expired g ts"
  by (induction ts) auto

text \<open>Rows that yield nothing, or nothing any more, can be left out.\<close>

lemma collect_expired_drop:
  assumes "collect_expired f ts = Inr xs"
    and "\<And>t x. t \<in> set ts \<Longrightarrow> f t = Inr (Some x) \<Longrightarrow> ex_id x = t_id t"
    and "\<And>t. t \<in> set ts \<Longrightarrow> t_id t \<in> S \<Longrightarrow> t_id t \<notin> D \<Longrightarrow> g t = Inr None"
    and "\<And>t. t \<in> set ts \<Longrightarrow> t_id t \<notin> S \<Longrightarrow> g t = f t" and "D \<subseteq> S"
  shows "collect_expired g (filter (\<lambda>t. t_id t \<notin> D) ts) = Inr (filter (\<lambda>x. ex_id x \<notin> S) xs)"
  using assms(1-4)
proof (induction ts arbitrary: xs)
  case (Cons t ts)
  from Cons.prems(1) obtain r ys where r: "f t = Inr r" and ys: "collect_expired f ts = Inr ys"
    and xs: "xs = (case r of None \<Rightarrow> ys | Some e \<Rightarrow> e # ys)"
    by (auto simp: res_simps)
  have IH: "collect_expired g (filter (\<lambda>t. t_id t \<notin> D) ts) = Inr (filter (\<lambda>x. ex_id x \<notin> S) ys)"
    using Cons.prems(2-4) by (intro Cons.IH[OF ys]) simp_all
  have id: "ex_id e = t_id t" if "r = Some e" for e using Cons.prems(2)[of t e] r that by simp
  show ?case
    using IH Cons.prems(3)[of t] Cons.prems(4)[of t] r xs id assms(5)
    by (cases "t_id t \<in> D"; cases "t_id t \<in> S"; cases r) auto
qed simp

lemma sort_key_filter_id:
  "sort_key (\<lambda>x. (ex_at x, ex_id x)) (filter P xs) = filter P (sort_key (\<lambda>x. (ex_at x, ex_id x)) xs)"
  by (simp add: filter_sort)

lemma filter_not_taken:
  "distinct (map f ys) \<Longrightarrow> filter (\<lambda>y. f y \<notin> f ` set (take n ys)) ys = drop n ys"
proof -
  assume d: "distinct (map f ys)"
  have "filter (\<lambda>y. f y \<notin> f ` set (take n ys)) (take n ys @ drop n ys) = drop n ys"
  proof -
    have "filter (\<lambda>y. f y \<notin> f ` set (take n ys)) (take n ys) = []" by (auto simp: filter_empty_conv)
    moreover have "f ` set (take n ys) \<inter> f ` set (drop n ys) = {}"
    proof -
      have "distinct (map f (take n ys) @ map f (drop n ys))"
        using d by (metis append_take_drop_id map_append)
      then show ?thesis by auto
    qed
    then have "filter (\<lambda>y. f y \<notin> f ` set (take n ys)) (drop n ys) = drop n ys"
      by (auto simp: filter_id_conv)
    ultimately show ?thesis by (simp only: filter_append append_Nil)
  qed
  then show ?thesis by simp
qed

text \<open>The entry of a thread at an earlier time.\<close>

lemma expired_entry_earlier:
  assumes "now \<le> later"
  shows "expired_entry cfg now w t =
    bind_res (expired_entry cfg later w t) (\<lambda>x. Inr (case x of Some e \<Rightarrow> if ex_at e \<le> now then Some e else None | None \<Rightarrow> None))"
  using assms by (auto simp: expired_entry_def bind_res_def split: sum.splits option.splits)

lemma collect_expired_earlier:
  "collect_expired (\<lambda>t. bind_res (f t) (\<lambda>x. Inr (case x of Some e \<Rightarrow> if P e then Some e else None | None \<Rightarrow> None))) ts =
   bind_res (collect_expired f ts) (\<lambda>xs. Inr (filter P xs))"
proof (induction ts)
  case (Cons t ts)
  then show ?case by (cases "f t"; cases "collect_expired f ts") (auto split: option.split)
qed simp

lemma due_threads_earlier:
  "now \<le> later \<Longrightarrow>
   due_threads cfg now w = bind_res (due_threads cfg later w) (\<lambda>ys. Inr (filter (\<lambda>x. ex_at x \<le> now) ys))"
  by (cases "collect_expired (expired_entry cfg later w) (threads w)")
    (simp_all add: due_threads_def collect_expired_earlier expired_entry_earlier sort_key_filter_id cong: collect_expired_cong)

lemma effective_policy_valid:
  assumes "ttls_valid ttls" and "effective_thread_ttl g ttls tid = Inr (Some p, st)"
  shows "ttl_strategy p \<in> {''delete'', ''keep_latest''}"
proof (cases "override (dget_default ttls tid empty_ttl_state)")
  case None
  then have "normalize_ttl_config g = Inr (Some p)"
    using assms(2) by (auto simp: effective_thread_ttl_def Let_def res_simps)
  then show ?thesis using normalize_valid by (force simp: valid_policy_def)
next
  case (Some q)
  then have "override st = Some p"
    using assms(2) by (auto simp: effective_thread_ttl_def Let_def)
  then show ?thesis
    using effective_state_ok[OF assms] by (force simp: state_ok_def valid_policy_def)
qed

lemma effective_swept:
  assumes "effective_thread_ttl g ttls tid = Inr (Some p, st)" and "map_of ttls' tid = Some (st\<lparr>last_swept := m\<rparr>)"
  shows "effective_thread_ttl g ttls' tid = Inr (Some p, st\<lparr>last_swept := m\<rparr>)"
  using assms by (auto simp: effective_thread_ttl_def Let_def dget_default_def res_simps split: option.splits)

lemma sweep_rows_ttls:
  assumes "base_delete_ok E" and "world_inv w" and "expired_threads cfg now limit w = Inr xs"
    and "case limit of None \<Rightarrow> True | Some n \<Rightarrow> 0 < n"
    and "threads_sweep_ttl E cfg now limit b w = Some (res, w')"
  shows "world_inv w' \<and> rows_without (doomed xs) w w' \<and> ttls_after xs w w'"
proof -
  have sw: "sweepable (concat (chunks b xs)) w"
    using expired_threads_sweepable[OF assms(2,3)] by (simp add: concat_chunks)
  have "\<not> (case limit of None \<Rightarrow> False | Some n \<Rightarrow> n \<le> 0)" using assms(4) by (auto split: option.splits)
  then obtain r where "sweep_batches E (chunks b xs) (0, 0) w = Some (r, w')"
    using assms(3,5) by (auto simp: threads_sweep_ttl_def Let_def split: option.splits sum.splits)
  from sweep_batches_exact[OF assms(1,2) sw this] sweep_batches_ttls[OF assms(1,2) sw this]
  show ?thesis by (simp add: concat_chunks)
qed

lemma sweep_progress:
  assumes base: "base_delete_ok E" and inv: "world_inv w" and pos: "case limit of None \<Rightarrow> True | Some n \<Rightarrow> 0 < n"
    and ret: "threads_sweep_ttl E cfg now limit b w = Some (res, w')" and ys: "due_threads cfg now w = Inr ys"
  shows "due_threads cfg now w' = Inr (case effective_limit cfg limit of None \<Rightarrow> [] | Some n \<Rightarrow> drop n ys)"
proof -
  let ?f = "expired_entry cfg now w" and ?g = "expired_entry cfg now w'"
  define xs where "xs = (case effective_limit cfg limit of None \<Rightarrow> ys | Some n \<Rightarrow> take n ys)"
  have xs: "expired_threads cfg now limit w = Inr xs" by (simp add: expired_due_threads ys xs_def)
  from sweep_rows_ttls[OF base inv xs pos ret]
  have rows: "rows_without (doomed xs) w w'" and ttls: "ttls_after xs w w'" by simp_all
  have id: "ex_id x = t_id t \<and> ex_updated x = t_updated t" if "?f t = Inr (Some x)" for t x
    using expired_entry_due[OF that] by (simp add: due_def)
  have active: "has_active_runs (t_id t) w' = has_active_runs (t_id t) w" if "t_id t \<notin> doomed xs" for t
    using rows that by (auto simp: rows_without_def has_active_runs_def list_ex_iff)
  have other: "?g t = ?f t" if "t_id t \<notin> ex_id ` set xs" for t
  proof -
    have "map_of (thread_ttls w') (t_id t) = map_of (thread_ttls w) (t_id t)"
      using ttls that by (simp add: ttls_after_def)
    then have "effective_thread_ttl c (thread_ttls w') (t_id t) = effective_thread_ttl c (thread_ttls w) (t_id t)" for c
      by (simp add: effective_thread_ttl_def dget_default_def)
    moreover have "t_id t \<notin> doomed xs" using that doomed_mem[of xs] by auto
    ultimately show ?thesis by (simp add: expired_entry_def active)
  qed
  have none: "?g t = Inr None" if t: "t \<in> set (threads w)" "t_id t \<in> ex_id ` set xs" "t_id t \<notin> doomed xs" for t
  proof -
    from t(2) obtain x0 where "x0 \<in> set xs" "ex_id x0 = t_id t" by auto
    moreover from this have "\<not> deletes x0" using t(3) by (force simp: doomed_def)
    ultimately obtain x where x: "x \<in> set xs" "ex_id x = t_id t" "\<not> deletes x" by blast
    from expired_threads_mem[OF xs x(1)] obtain t' where t': "t' \<in> set (threads w)" "?f t' = Inr (Some x)" by blast
    then have "t' = t"
      using id[OF t'(2)] x(2) t(1) world_inv_parts(1)[OF inv] by (auto simp: distinct_map inj_on_def)
    with t'(2) have "due cfg now w t x" by (simp add: expired_entry_due)
    then have e: "effective_thread_ttl (thread_ttl cfg) (thread_ttls w) (t_id t) = Inr (Some (ex_policy x), ex_state x)"
      and u: "ex_updated x = t_updated t" by (simp_all add: due_def)
    have "map_of (thread_ttls w') (t_id t) = Some (swept x)" using ttls x by (force simp: ttls_after_def)
    from effective_swept[OF e this]
    have "effective_thread_ttl (thread_ttl cfg) (thread_ttls w') (t_id t) = Inr (Some (ex_policy x), swept x)" .
    moreover have "ttl_strategy (ex_policy x) = ''keep_latest''"
      using effective_policy_valid[OF world_inv_parts(4)[OF inv] e] x(3) by (auto simp: deletes_def)
    ultimately show ?thesis by (simp add: expired_entry_def already_swept_def u)
  qed
  from ys obtain zs where zs: "collect_expired ?f (threads w) = Inr zs" "ys = sort_key (\<lambda>x. (ex_at x, ex_id x)) zs"
    by (auto simp: due_threads_def res_simps)
  have "collect_expired ?g (filter (\<lambda>t. t_id t \<notin> doomed xs) (threads w)) = Inr (filter (\<lambda>x. ex_id x \<notin> ex_id ` set xs) zs)"
    using id none other doomed_mem[of xs] by (intro collect_expired_drop[OF zs(1)]) auto
  then have "due_threads cfg now w' = Inr (filter (\<lambda>x. ex_id x \<notin> ex_id ` set xs) ys)"
    using rows by (simp add: due_threads_def rows_without_def zs(2) sort_key_filter_id)
  moreover have "distinct (map ex_id ys)"
  proof -
    have "map ex_id zs = map t_id (filter (found_entry ?f) (threads w))"
      using collect_expired_Inr[OF zs(1)] id by simp
    then have "distinct (map ex_id zs)" using world_inv_parts(1)[OF inv] by (simp add: distinct_map_filter)
    then show ?thesis by (simp add: zs(2) distinct_map)
  qed
  ultimately show ?thesis by (auto simp: xs_def filter_not_taken split: option.split)
qed


section \<open>The backlog is served\<close>

lemma sweep_batches_acyclic:
  assumes base: "base_delete_ok E"
  shows "saver_acyclic (ckpt_saver w) \<Longrightarrow> sweep_batches E bs n w = Some (res, w') \<Longrightarrow> saver_acyclic (ckpt_saver w')"
proof (induction bs arbitrary: n w)
  case Nil
  then show ?case by simp
next
  case (Cons b bs)
  let ?keep = "map ex_id (filter (\<lambda>x. ttl_strategy (ex_policy x) = ''keep_latest'') b)"
  obtain w1 where w1: "(if ?keep = [] then Some w else prune_batches E [?keep] w) = Some w1"
    "saver_acyclic (ckpt_saver w1)"
    using prune_batches_returns[OF Cons.prems(1), of E "[?keep]"] Cons.prems(1) by metis
  obtain r w2 where b: "sweep_batch E b n w1 = (r, w2)" by fastforce
  then have w2: "saver_acyclic (ckpt_saver w2)" using sweep_batch_acyclic[OF base w1(2), of b n] by simp
  have "(case r of Inl e \<Rightarrow> Some (Inl e, w2) | Inr n' \<Rightarrow> sweep_batches E bs n' w2) = Some (res, w')"
    using Cons.prems(2) b unfolding sweep_batches.simps Let_def w1(1) by simp
  with Cons.IH[OF w2] w2 show ?case by (cases r) auto
qed

lemma sweep_acyclic:
  assumes "base_delete_ok E" and "saver_acyclic (ckpt_saver w)"
    and "threads_sweep_ttl E cfg now limit b w = Some (res, w')"
  shows "saver_acyclic (ckpt_saver w')"
  using assms(2,3) sweep_batches_acyclic[OF assms(1,2)]
  by (auto simp: threads_sweep_ttl_def Let_def split: option.splits sum.splits if_splits)

lemma filter_drop_closed:
  "sorted_wrt (\<lambda>a b. P b \<longrightarrow> P a) ys \<Longrightarrow>
   filter P (drop n ys) = drop n (filter P ys) \<and> set (take n (filter P ys)) \<subseteq> set (take n ys)"
proof (induction ys arbitrary: n)
  case (Cons y ys)
  show ?case
  proof (cases "P y")
    case True
    with Cons show ?thesis by (cases n) auto
  next
    case False
    with Cons.prems have "filter P ys = []" by (auto simp: filter_empty_conv)
    moreover from this have "filter P (drop m ys) = []" for m
      by (auto simp: filter_empty_conv dest: in_set_dropD)
    ultimately show ?thesis using False by (cases n) simp_all
  qed
qed simp

lemma due_threads_sorted:
  "due_threads cfg now w = Inr ys \<Longrightarrow> sorted_wrt (\<lambda>a b. ex_at b \<le> t \<longrightarrow> ex_at a \<le> t) ys"
proof -
  assume "due_threads cfg now w = Inr ys"
  then obtain zs where "ys = sort_key (\<lambda>x. (ex_at x, ex_id x)) zs" by (auto simp: due_threads_def res_simps)
  then have "sorted_wrt (\<lambda>a b. (ex_at a, ex_id a) \<le> (ex_at b, ex_id b)) ys"
    using sorted_sort_key[of "\<lambda>x. (ex_at x, ex_id x)" zs] by (simp add: sorted_map)
  then show ?thesis by (rule sorted_wrt_mono_rel[rotated]) auto
qed

lemma due_threads_returns:
  assumes "due_threads cfg now w = Inr ys" and "now \<le> later"
  shows "\<exists>zs. due_threads cfg later w = Inr zs \<and> ys = filter (\<lambda>x. ex_at x \<le> now) zs"
  using assms by (cases "due_threads cfg later w") (auto simp: due_threads_earlier)

text \<open>One tick of the loop, at a time after \<open>now\<close>.\<close>

lemma tick_progress:
  assumes base: "base_delete_ok E" and inv: "world_inv w" and acyclic: "saver_acyclic (ckpt_saver w)"
    and limit: "sweep_limit cfg = Some n" "0 < n" and batch: "sweep_batch_size (thread_ttl cfg) = Inr b"
    and ys: "due_threads cfg now w = Inr ys" and later: "now \<le> later"
  shows "\<exists>res w'. sweep_once E cfg later w = Some (res, w') \<and> world_inv w' \<and> saver_acyclic (ckpt_saver w') \<and>
    due_threads cfg now w' = Inr (drop (nat n) ys) \<and> t_id ` set (threads w') \<subseteq> t_id ` set (threads w) \<and>
    (\<forall>x\<in>set (take (nat n) ys). deletes x \<longrightarrow> ex_id x \<notin> t_id ` set (threads w'))"
proof -
  from due_threads_returns[OF ys later] obtain zs where
    zs: "due_threads cfg later w = Inr zs" "ys = filter (\<lambda>x. ex_at x \<le> now) zs" by blast
  have once: "sweep_once E cfg later w = threads_sweep_ttl E cfg later (Some n) b w"
    using limit batch by (simp add: sweep_once_def)
  have xs: "expired_threads cfg later (Some n) w = Inr (take (nat n) zs)"
    using limit(2) by (simp add: expired_due_threads zs(1) effective_limit_def)
  obtain r w1 where "sweep_batches E (chunks b (take (nat n) zs)) (0, 0) w = Some (r, w1)"
    using sweep_batches_returns[OF base acyclic] by fast
  then obtain res w' where sw: "threads_sweep_ttl E cfg later (Some n) b w = Some (res, w')"
    using limit(2) xs by (cases r) (auto simp: threads_sweep_ttl_def Let_def)
  have closed: "sorted_wrt (\<lambda>a b. ex_at b \<le> now \<longrightarrow> ex_at a \<le> now) zs" by (rule due_threads_sorted[OF zs(1)])
  from sweep_rows_ttls[OF base inv xs _ sw] limit(2)
  have inv': "world_inv w'" and rows: "rows_without (doomed (take (nat n) zs)) w w'" by simp_all
  have "due_threads cfg later w' = Inr (drop (nat n) zs)"
    using sweep_progress[OF base inv _ sw zs(1)] limit(2) by (simp add: effective_limit_def)
  then have "due_threads cfg now w' = Inr (drop (nat n) ys)"
    using filter_drop_closed[OF closed, of "nat n"] by (simp add: due_threads_earlier[OF later] zs(2))
  moreover have "ex_id x \<notin> t_id ` set (threads w')" if "x \<in> set (take (nat n) ys)" "deletes x" for x
  proof -
    have "x \<in> set (take (nat n) zs)" using filter_drop_closed[OF closed, of "nat n"] that(1) zs(2) by blast
    then have "ex_id x \<in> doomed (take (nat n) zs)" using that(2) by (auto simp: doomed_def)
    with rows show ?thesis by (auto simp: rows_without_def)
  qed
  moreover have "t_id ` set (threads w') \<subseteq> t_id ` set (threads w)" using rows by (auto simp: rows_without_def)
  ultimately show ?thesis using once sw inv' sweep_acyclic[OF base acyclic sw] by auto
qed


lemma ttl_sweep_loop_serves:
  assumes base: "base_delete_ok E" and limit: "sweep_limit cfg = Some n" "0 < n"
    and batch: "sweep_batch_size (thread_ttl cfg) = Inr b"
  shows "world_inv w \<Longrightarrow> saver_acyclic (ckpt_saver w) \<Longrightarrow> due_threads cfg now w = Inr ys \<Longrightarrow> \<forall>t\<in>set ts. now \<le> t \<Longrightarrow>
    \<exists>w'. ttl_sweep_loop E cfg ts w = Some w' \<and> due_threads cfg now w' = Inr (drop (nat n * length ts) ys) \<and>
      t_id ` set (threads w') \<subseteq> t_id ` set (threads w) \<and>
      (\<forall>x\<in>set (take (nat n * length ts) ys). deletes x \<longrightarrow> ex_id x \<notin> t_id ` set (threads w'))"
proof (induction ts arbitrary: w ys)
  case (Cons t ts)
  from tick_progress[OF base Cons.prems(1,2) limit batch Cons.prems(3), of t] Cons.prems(4) obtain res w1 where
    once: "sweep_once E cfg t w = Some (res, w1)" and inv: "world_inv w1" and ac: "saver_acyclic (ckpt_saver w1)"
    and due: "due_threads cfg now w1 = Inr (drop (nat n) ys)" and sub: "t_id ` set (threads w1) \<subseteq> t_id ` set (threads w)"
    and gone: "\<forall>x\<in>set (take (nat n) ys). deletes x \<longrightarrow> ex_id x \<notin> t_id ` set (threads w1)" by auto
  from Cons.IH[OF inv ac due] Cons.prems(4) obtain w' where
    loop: "ttl_sweep_loop E cfg ts w1 = Some w'" and due': "due_threads cfg now w' = Inr (drop (nat n * length ts) (drop (nat n) ys))"
    and sub': "t_id ` set (threads w') \<subseteq> t_id ` set (threads w1)"
    and gone': "\<forall>x\<in>set (take (nat n * length ts) (drop (nat n) ys)). deletes x \<longrightarrow> ex_id x \<notin> t_id ` set (threads w')" by auto
  have split: "take (nat n * length (t # ts)) ys = take (nat n) ys @ take (nat n * length ts) (drop (nat n) ys)"
    by (simp add: take_add)
  have "\<forall>x\<in>set (take (nat n * length (t # ts)) ys). deletes x \<longrightarrow> ex_id x \<notin> t_id ` set (threads w')"
    unfolding split set_append using gone gone' sub' by (meson UnE subsetD)
  with once loop due' sub sub' show ?case by (auto simp: add.commute)
qed simp

text \<open>
  C23. The backlog of expired threads is served, when every time to live can be added to its thread's time
  (\<open>due_threads\<close> gives a list, not an exception: one infinite TTL aborts every sweep), the parents of
  the checkpoints form no cycle (otherwise pruning does not return), the configured limit is positive and
  the batch size valid, the base class deletes what it is asked to, and nothing else happens between the
  ticks. If then at some time a number of threads is due, after as many later ticks of the background loop
  as it takes to sweep that number with the configured limit, none of them is left: the loop has not failed,
  no thread is due at that time any more, and every thread whose policy is to delete is gone. Threads that
  expire later, between the ticks, do not push the earlier ones back.
\<close>

theorem backlog_is_swept:
  assumes "base_delete_ok E" and "world_inv w" and "saver_acyclic (ckpt_saver w)"
    and "sweep_limit cfg = Some n" and "0 < n" and "sweep_batch_size (thread_ttl cfg) = Inr b"
    and "due_threads cfg now w = Inr ys" and "\<forall>t\<in>set ts. now \<le> t" and "length ys \<le> nat n * length ts"
  shows "\<exists>w'. ttl_sweep_loop E cfg ts w = Some w' \<and> due_threads cfg now w' = Inr [] \<and>
    (\<forall>x\<in>set ys. deletes x \<longrightarrow> ex_id x \<notin> t_id ` set (threads w'))"
  using ttl_sweep_loop_serves[OF assms(1,4-6,2,3,7,8)] assms(9) by auto

theorem backlog_is_swept_witness:
  "\<exists>w'. ttl_sweep_loop demo_env demo_cfg [60000005, 60000009] demo_ttl_world = Some w' \<and> due_threads demo_cfg 60000005 w' = Inr []"
proof -
  have 1: "saver_acyclic (ckpt_saver demo_ttl_world)" by code_simp
  have 2: "sweep_batch_size (thread_ttl demo_cfg) = Inr 100" by code_simp
  have "map_option (map ex_id) (case due_threads demo_cfg 60000005 demo_ttl_world of Inr ys \<Rightarrow> Some ys | Inl _ \<Rightarrow> None) = Some [''t'']"
    by code_simp
  then obtain ys where 3: "due_threads demo_cfg 60000005 demo_ttl_world = Inr ys" "length ys = 1"
    by (auto split: sum.splits)
  show ?thesis
    using backlog_is_swept[OF demo_delete_ok demo_ttl_world_inv 1 _ _ 2 3(1), of 10000 "[60000005, 60000009]"] 3(2)
    by (auto simp: demo_cfg_def)
qed

end
