(* ===== verification/Persistence.thy ===== *)
theory Persistence
  imports Prelude
begin

text \<open>
  The background writing of dictionaries to files (\<open>_persistence.py\<close>) and the savers that share it
  (\<open>Checkpointer\<close> of \<open>checkpoint.py\<close>). A dictionary is an object with an identity, a number; the registry
  holds weak references to them by file name. The steps of the flush thread and of the threads that
  create and release dictionaries interleave. Reading and writing files is not modelled beyond the log of
  the dictionaries written (\<open>sync\<close>).
\<close>

section \<open>The registry\<close>

record persistence =
  ps_stores :: "(string, nat) dict"
  ps_flusher :: bool
  ps_todo :: "string list"
  ps_drop :: "string list"
  ps_dead :: "nat list"
  ps_synced :: "nat list"
  ps_next :: nat
  ps_memory :: "nat list option"

definition persistence_init :: persistence where
  "persistence_init =
     \<lparr>ps_stores = [], ps_flusher = False, ps_todo = [], ps_drop = [], ps_dead = [], ps_synced = [],
      ps_next = 0, ps_memory = None\<rparr>"

definition register_persistent_dict :: "bool \<Rightarrow> string \<Rightarrow> nat \<Rightarrow> persistence \<Rightarrow> persistence" where
  "register_persistent_dict disabled file d p =
     (if disabled then p else p\<lparr>ps_stores := AList.update file d (ps_stores p), ps_flusher := True\<rparr>)"

text \<open>The thread is joined between two waits, so its pass has ended.\<close>

definition stop_flush_loop :: "persistence \<Rightarrow> persistence" where
  "stop_flush_loop p = p\<lparr>ps_flusher := False\<rparr>"

section \<open>A pass of the flush thread\<close>

text \<open>A wait that timed out: the keys are copied.\<close>

definition flush_begin :: "persistence \<Rightarrow> persistence" where
  "flush_begin p =
     (if ps_flusher p \<and> ps_todo p = [] \<and> ps_drop p = [] then p\<lparr>ps_todo := dkeys (ps_stores p)\<rparr> else p)"

text \<open>
  One iteration of the loop over the keys; a key that has vanished raises, which ends the thread. To
  dereference the weak reference and to write the dictionary is one step: a write that is in progress when
  another thread drops the dictionary counts as made before.
\<close>

definition flush_look :: "persistence \<Rightarrow> persistence" where
  "flush_look p =
     (case ps_todo p of
        [] \<Rightarrow> p
      | k # ks \<Rightarrow>
          (case map_of (ps_stores p) k of
             None \<Rightarrow> p\<lparr>ps_todo := [], ps_drop := [], ps_flusher := False\<rparr>
           | Some d \<Rightarrow>
               if d \<in> set (ps_dead p) then p\<lparr>ps_todo := ks, ps_drop := List.insert k (ps_drop p)\<rparr>
               else p\<lparr>ps_todo := ks, ps_synced := ps_synced p @ [d]\<rparr>))"

text \<open>One iteration of the loop that deletes the dropped keys.\<close>

definition flush_forget :: "persistence \<Rightarrow> persistence" where
  "flush_forget p =
     (case ps_drop p of
        [] \<Rightarrow> p
      | k # ks \<Rightarrow> if ps_todo p \<noteq> [] then p else p\<lparr>ps_drop := ks, ps_stores := AList.delete k (ps_stores p)\<rparr>)"

text \<open>A whole pass that nothing interrupts.\<close>

definition flush_pass :: "persistence \<Rightarrow> persistence" where
  "flush_pass p =
     (let p1 = flush_begin p; p2 = (flush_look ^^ length (ps_todo p1)) p1
      in (flush_forget ^^ length (ps_drop p2)) p2)"

section \<open>Savers\<close>

definition saver_files :: "string \<Rightarrow> string list" where
  "saver_files name = map (\<lambda>i. name @ i @ ''.pckl'') [''1'', ''2'', ''3'']"

text \<open>The constructor of \<open>InMemorySaver\<close>: the factory is called three times.\<close>

definition new_saver :: "bool \<Rightarrow> string \<Rightarrow> persistence \<Rightarrow> nat list \<times> persistence" where
  "new_saver disabled name p =
     (let ds = map (\<lambda>i. ps_next p + i) [0, 1, 2]
      in (ds, fold (\<lambda>(f, d). register_persistent_dict disabled f d) (zip (saver_files name) ds)
                (p\<lparr>ps_next := ps_next p + 3\<rparr>)))"

text \<open>\<open>MEMORY\<close>, created by the first call.\<close>

definition shared_saver :: "bool \<Rightarrow> string \<Rightarrow> persistence \<Rightarrow> nat list \<times> persistence" where
  "shared_saver disabled name p =
     (case ps_memory p of
        Some ds \<Rightarrow> (ds, p)
      | None \<Rightarrow> (case new_saver disabled name p of (ds, q) \<Rightarrow> (ds, q\<lparr>ps_memory := Some ds\<rparr>)))"

text \<open>
  \<open>Checkpointer(unpack_hook=...)\<close>: the dictionaries the returned saver works on, and those it created
  for itself and keeps alive although it does not use them. The three registrations are one step; the
  flush thread looks at the registry before or after them.
\<close>

definition checkpointer :: "bool \<Rightarrow> string \<Rightarrow> bool \<Rightarrow> persistence \<Rightarrow> nat list \<times> nat list \<times> persistence" where
  "checkpointer disabled name with_hook p =
     (case shared_saver disabled name p of (memory, p1) \<Rightarrow>
        if with_hook then (case new_saver disabled name p1 of (ds, p2) \<Rightarrow> (memory, ds, p2))
        else (memory, [], p1))"

text \<open>
  \<open>_get_checkpointer\<close> of \<open>ops.py\<close>: a custom saver (\<open>None\<close>) leaves this one alone, and the hook is passed on
  only together with a connection.
\<close>

definition get_checkpointer ::
  "bool \<Rightarrow> bool \<Rightarrow> string \<Rightarrow> bool \<Rightarrow> bool \<Rightarrow> persistence \<Rightarrow> (nat list \<times> nat list) option \<times> persistence" where
  "get_checkpointer custom disabled name has_conn with_hook p =
     (if custom then (None, p)
      else case checkpointer disabled name (has_conn \<and> with_hook) p of (shared, own, p1) \<Rightarrow> (Some (shared, own), p1))"

text \<open>A released saver: the dictionaries only it referred to are collected.\<close>

definition release_dicts :: "nat list \<Rightarrow> persistence \<Rightarrow> persistence" where
  "release_dicts ds p = p\<lparr>ps_dead := ds @ ps_dead p\<rparr>"

section \<open>A pass writes what is alive\<close>

definition live_stores :: "persistence \<Rightarrow> nat list" where
  "live_stores p = filter (\<lambda>d. d \<notin> set (ps_dead p)) (map snd (ps_stores p))"

lemma flush_looks:
  assumes "wf_dict (ps_stores p)" and "ps_todo p = dkeys xs" and "set xs \<subseteq> set (ps_stores p)"
  shows "(flush_look ^^ length xs) p = p\<lparr>ps_todo := [],
    ps_drop := fold List.insert (dkeys (filter (\<lambda>(k, d). d \<in> set (ps_dead p)) xs)) (ps_drop p),
    ps_synced := ps_synced p @ filter (\<lambda>d. d \<notin> set (ps_dead p)) (map snd xs)\<rparr>"
  using assms
proof (induction xs arbitrary: p)
  case (Cons x xs)
  obtain k d where x: "x = (k, d)" by fastforce
  have get: "map_of (ps_stores p) k = Some d" using Cons.prems(1,3) x by (simp add: wf_dict_mem)
  have todo: "ps_todo p = k # dkeys xs" using Cons.prems(2) x by simp
  let ?q = "flush_look p"
  have q: "?q = (if d \<in> set (ps_dead p) then p\<lparr>ps_todo := dkeys xs, ps_drop := List.insert k (ps_drop p)\<rparr>
      else p\<lparr>ps_todo := dkeys xs, ps_synced := ps_synced p @ [d]\<rparr>)"
    by (simp add: flush_look_def todo get)
  have "(flush_look ^^ length xs) ?q = ?q\<lparr>ps_todo := [],
    ps_drop := fold List.insert (dkeys (filter (\<lambda>(k, d). d \<in> set (ps_dead ?q)) xs)) (ps_drop ?q),
    ps_synced := ps_synced ?q @ filter (\<lambda>d. d \<notin> set (ps_dead ?q)) (map snd xs)\<rparr>"
    using Cons.prems by (intro Cons.IH) (simp_all add: q)
  then show ?case by (simp add: funpow_swap1 q x)
qed simp

lemma flush_forgets:
  "ps_todo p = [] \<Longrightarrow> ps_drop p = ks \<Longrightarrow> (flush_forget ^^ length ks) p =
     p\<lparr>ps_drop := [], ps_stores := fold AList.delete ks (ps_stores p)\<rparr>"
proof (induction ks arbitrary: p)
  case (Cons k ks)
  then have "flush_forget p = p\<lparr>ps_drop := ks, ps_stores := AList.delete k (ps_stores p)\<rparr>"
    by (simp add: flush_forget_def)
  with Cons.IH[of "flush_forget p"] Cons.prems show ?case
    by (simp add: funpow_swap1)
qed simp


lemma map_of_deletes: "map_of (fold AList.delete ks d) k = (if k \<in> set ks then None else map_of d k)"
  by (induction ks arbitrary: d) (auto simp: dict_simps)

lemma set_inserts: "set (fold List.insert ks xs) = set ks \<union> set xs"
  by (induction ks arbitrary: xs) auto

text \<open>
  An uninterrupted pass of the flush thread writes every registered dictionary that is alive, in
  the order of the registry, and nothing else; afterwards the registry holds exactly the live ones.
\<close>

theorem flush_pass_exact:
  assumes "wf_dict (ps_stores p)" and "ps_flusher p" and "ps_todo p = []" and "ps_drop p = []"
  shows "ps_synced (flush_pass p) = ps_synced p @ live_stores p \<and>
    (\<forall>f d. map_of (ps_stores (flush_pass p)) f = Some d \<longleftrightarrow> map_of (ps_stores p) f = Some d \<and> d \<notin> set (ps_dead p)) \<and>
    ps_todo (flush_pass p) = [] \<and> ps_drop (flush_pass p) = []"
proof -
  define p1 where "p1 = p\<lparr>ps_todo := dkeys (ps_stores p)\<rparr>"
  have start: "flush_begin p = p1" using assms(2-4) by (simp add: flush_begin_def p1_def)
  define drop where "drop = fold List.insert (dkeys (filter (\<lambda>(k, d). d \<in> set (ps_dead p)) (ps_stores p))) []"
  define p2 where "p2 = p1\<lparr>ps_todo := [], ps_drop := drop, ps_synced := ps_synced p @ live_stores p\<rparr>"
  have looks: "(flush_look ^^ length (ps_todo p1)) p1 = p2"
    using flush_looks[of p1 "ps_stores p"] assms(1,4) by (simp add: p1_def p2_def drop_def live_stores_def)
  have "flush_pass p = p2\<lparr>ps_drop := [], ps_stores := fold AList.delete drop (ps_stores p)\<rparr>"
    using flush_forgets[of p2 drop] by (simp add: flush_pass_def Let_def start looks) (simp add: p2_def p1_def)
  moreover have "k \<in> set drop \<longleftrightarrow> (\<exists>d. map_of (ps_stores p) k = Some d \<and> d \<in> set (ps_dead p))" for k
    using assms(1) by (force simp: drop_def set_inserts wf_dict_mem)
  ultimately show ?thesis
    by (auto simp: p2_def p1_def map_of_deletes)
qed

section \<open>Reading a thread's state ends the writing of checkpoints\<close>

text \<open>
  The steps of all threads: a call of \<open>Checkpointer\<close> with or without a hook (reading a thread's state or
  history passes one), another dictionary registered, dictionaries released, and the flush thread.
\<close>

datatype persistence_event =
    Get_checkpointer bool
  | Register_other string
  | Release "nat list"
  | Stop_flush
  | Flush_begin
  | Flush_look
  | Flush_forget

fun persistence_step :: "bool \<Rightarrow> string \<Rightarrow> persistence_event \<Rightarrow> persistence \<Rightarrow> persistence" where
  "persistence_step disabled name (Get_checkpointer hook) p = snd (snd (checkpointer disabled name hook p))"
| "persistence_step disabled name (Register_other f) p =
     register_persistent_dict disabled f (ps_next p) (p\<lparr>ps_next := ps_next p + 1\<rparr>)"
| "persistence_step disabled name (Release ds) p = release_dicts ds p"
| "persistence_step disabled name Stop_flush p = stop_flush_loop p"
| "persistence_step disabled name Flush_begin p = flush_begin p"
| "persistence_step disabled name Flush_look p = flush_look p"
| "persistence_step disabled name Flush_forget p = flush_forget p"

definition run_persistence :: "bool \<Rightarrow> string \<Rightarrow> persistence_event list \<Rightarrow> persistence \<Rightarrow> persistence" where
  "run_persistence disabled name es p = fold (persistence_step disabled name) es p"

text \<open>
  Which of the shared dictionaries the registry refers to: at most under the files in \<open>F\<close>.
\<close>

definition shared_only :: "string set \<Rightarrow> persistence \<Rightarrow> bool" where
  "shared_only F p \<longleftrightarrow>
     (\<forall>f d. map_of (ps_stores p) f = Some d \<longrightarrow> d < ps_next p) \<and>
     (\<forall>ds. ps_memory p = Some ds \<longrightarrow>
        (\<forall>d\<in>set ds. d < ps_next p) \<and> (\<forall>f d. map_of (ps_stores p) f = Some d \<longrightarrow> d \<in> set ds \<longrightarrow> f \<in> F))"

lemma new_saver_eq:
  "new_saver False name p = ([ps_next p, ps_next p + 1, ps_next p + 2],
     p\<lparr>ps_next := ps_next p + 3, ps_flusher := True,
       ps_stores := AList.update (name @ ''3.pckl'') (ps_next p + 2) (AList.update (name @ ''2.pckl'') (ps_next p + 1)
         (AList.update (name @ ''1.pckl'') (ps_next p) (ps_stores p)))\<rparr>)"
  by (simp add: new_saver_def saver_files_def register_persistent_dict_def)

lemma set_saver_files: "set (saver_files name) = {name @ ''1.pckl'', name @ ''2.pckl'', name @ ''3.pckl''}"
  by (auto simp: saver_files_def)

lemma shared_only_cong:
  assumes "shared_only F p" and "ps_memory q = ps_memory p" and "ps_next p \<le> ps_next q"
    and "\<forall>f d. map_of (ps_stores q) f = Some d \<longrightarrow> map_of (ps_stores p) f = Some d \<or> ps_next p \<le> d \<and> d < ps_next q"
  shows "shared_only F q"
proof -
  have "d < ps_next q" if "map_of (ps_stores q) f = Some d" for f d
    using assms(1,3,4) that by (fastforce simp: shared_only_def)
  moreover have "f \<in> F" if "map_of (ps_stores q) f = Some d" "ps_memory p = Some ds" "d \<in> set ds" for f d ds
  proof -
    have "d < ps_next p" using assms(1) that(2,3) by (simp add: shared_only_def)
    then have "map_of (ps_stores p) f = Some d" using assms(4) that(1) by fastforce
    then show ?thesis using assms(1) that(2,3) by (simp add: shared_only_def)
  qed
  moreover have "d < ps_next q" if "ps_memory p = Some ds" "d \<in> set ds" for d ds
    using assms(1,3) that by (fastforce simp: shared_only_def)
  ultimately show ?thesis by (simp add: shared_only_def assms(2))
qed

text \<open>Only a step that creates the shared saver can bring its dictionaries into the registry.\<close>

lemma step_shared:
  assumes "shared_only F p" and "set (saver_files name) \<subseteq> F \<or> ps_memory p \<noteq> None"
  shows "shared_only F (persistence_step False name e p) \<and>
    (ps_memory p \<noteq> None \<longrightarrow> ps_memory (persistence_step False name e p) = ps_memory p)"
proof (cases "(\<exists>hook. e = Get_checkpointer hook) \<and> ps_memory p = None")
  case True
  have old: "map_of (ps_stores p) f = Some d \<Longrightarrow> d < ps_next p" for f d
    using assms(1) by (simp add: shared_only_def)
  from True assms(2) show ?thesis
    by (auto simp: checkpointer_def shared_saver_def new_saver_eq shared_only_def set_saver_files dict_simps split: if_splits dest!: old)
next
  case False
  let ?q = "persistence_step False name e p"
  have "ps_memory ?q = ps_memory p \<and> ps_next p \<le> ps_next ?q \<and>
    (\<forall>f d. map_of (ps_stores ?q) f = Some d \<longrightarrow> map_of (ps_stores p) f = Some d \<or> ps_next p \<le> d \<and> d < ps_next ?q)"
    using False
    by (cases e) (auto simp: checkpointer_def shared_saver_def new_saver_eq register_persistent_dict_def release_dicts_def
        stop_flush_loop_def flush_begin_def flush_look_def flush_forget_def dict_simps Let_def
        split: list.splits option.splits if_splits)
  then show ?thesis using shared_only_cong[OF assms(1)] by blast
qed

lemma run_shared:
  "shared_only F p \<Longrightarrow> set (saver_files name) \<subseteq> F \<or> ps_memory p \<noteq> None \<Longrightarrow>
   shared_only F (run_persistence False name es p) \<and>
   (ps_memory p \<noteq> None \<longrightarrow> ps_memory (run_persistence False name es p) = ps_memory p)"
proof (induction es arbitrary: p)
  case (Cons e es)
  from step_shared[OF Cons.prems, of e] Cons.prems(2)
  have "shared_only F (persistence_step False name e p)"
    "set (saver_files name) \<subseteq> F \<or> ps_memory (persistence_step False name e p) \<noteq> None" by auto
  from Cons.IH[OF this] step_shared[OF Cons.prems, of e] show ?case by (auto simp: run_persistence_def)
qed (simp add: run_persistence_def)

lemma step_synced:
  assumes "shared_only {} p" and "ps_memory p = Some ds"
  shows "\<exists>zs. ps_synced (persistence_step False name e p) = ps_synced p @ zs \<and> set zs \<inter> set ds = {}"
proof (cases "e = Flush_look")
  case True
  with assms show ?thesis
    by (auto simp: flush_look_def shared_only_def split: list.splits option.splits)
next
  case False
  then have "ps_synced (persistence_step False name e p) = ps_synced p"
    using assms(2)
    by (cases e) (auto simp: checkpointer_def shared_saver_def new_saver_eq register_persistent_dict_def release_dicts_def
        stop_flush_loop_def flush_begin_def flush_forget_def Let_def split: list.splits)
  then show ?thesis by (intro exI[of _ "[]"]) simp
qed

lemma run_synced:
  "shared_only {} p \<Longrightarrow> ps_memory p = Some ds \<Longrightarrow>
   \<exists>zs. ps_synced (run_persistence False name es p) = ps_synced p @ zs \<and> set zs \<inter> set ds = {}"
proof (induction es arbitrary: p)
  case (Cons e es)
  from step_synced[OF Cons.prems, of name e] obtain ys where
    ys: "ps_synced (persistence_step False name e p) = ps_synced p @ ys" "set ys \<inter> set ds = {}" by blast
  from step_shared[OF Cons.prems(1), of name e] Cons.prems(2)
  have "shared_only {} (persistence_step False name e p)" "ps_memory (persistence_step False name e p) = Some ds" by auto
  from Cons.IH[OF this] obtain zs where
    "ps_synced (run_persistence False name es (persistence_step False name e p)) = ps_synced p @ ys @ zs"
    "set zs \<inter> set ds = {}" by (auto simp: ys(1))
  with ys(2) show ?case by (intro exI[of _ "ys @ zs"]) (auto simp: run_persistence_def)
qed (simp add: run_persistence_def)

text \<open>
  C37. Reading a thread's state ends the writing of checkpoints. A call of \<open>Checkpointer\<close> with a hook, as
  reading a state or a history makes, creates a saver that registers three new dictionaries under the
  files of the shared ones before it is pointed at the shared ones. Whatever happened before, from that
  call on no step of any thread ever writes a dictionary of the shared saver again: until the shutdown,
  checkpoints are in memory only.
\<close>

theorem state_reads_stop_checkpoint_writes:
  assumes "p = run_persistence False name before persistence_init" and "ps_memory p = Some ds"
  shows "\<exists>zs. ps_synced (run_persistence False name (Get_checkpointer True # later) p) = ps_synced p @ zs \<and>
    set zs \<inter> set ds = {}"
proof -
  have "shared_only (set (saver_files name)) persistence_init"
    by (simp add: shared_only_def persistence_init_def)
  then have shared: "shared_only (set (saver_files name)) p"
    using run_shared[of "set (saver_files name)" persistence_init name before] assms(1) by simp
  let ?q = "persistence_step False name (Get_checkpointer True) p"
  have "shared_only {} ?q"
    using shared assms(2)
    unfolding shared_only_def persistence_step.simps checkpointer_def shared_saver_def new_saver_eq
    by (fastforce simp: set_saver_files dict_simps split: if_splits)
  moreover have "ps_memory ?q = Some ds" "ps_synced ?q = ps_synced p"
    using assms(2) by (simp_all add: checkpointer_def shared_saver_def new_saver_eq)
  ultimately show ?thesis
    using run_synced[of ?q ds name later] by (simp add: run_persistence_def)
qed

theorem state_reads_stop_checkpoint_writes_witness:
  "ps_synced (run_persistence False ''c''
     [Get_checkpointer True, Flush_begin, Flush_look, Flush_look, Flush_look, Release [3, 4, 5], Flush_begin, Flush_look]
     (run_persistence False ''c'' [Get_checkpointer False, Flush_begin, Flush_look, Flush_look, Flush_look] persistence_init))
   = [0, 1, 2, 3, 4, 5] \<and>
   (\<exists>zs. ps_synced (run_persistence False ''c'' [Get_checkpointer True, Flush_begin, Flush_look, Flush_look, Flush_look]
     (run_persistence False ''c'' [Get_checkpointer False, Flush_begin, Flush_look, Flush_look, Flush_look] persistence_init))
   = [0, 1, 2] @ zs \<and> set zs \<inter> {0, 1, 2} = {})"
proof -
  let ?p = "run_persistence False ''c'' [Get_checkpointer False, Flush_begin, Flush_look, Flush_look, Flush_look] persistence_init"
  have "ps_memory ?p = Some [0, 1, 2]" "ps_synced ?p = [0, 1, 2]" by code_simp+
  from state_reads_stop_checkpoint_writes[OF refl this(1), of "[Flush_begin, Flush_look, Flush_look, Flush_look]"] this(2)
  have "\<exists>zs. ps_synced (run_persistence False ''c'' [Get_checkpointer True, Flush_begin, Flush_look, Flush_look, Flush_look] ?p)
   = [0, 1, 2] @ zs \<and> set zs \<inter> {0, 1, 2} = {}" by simp
  moreover have "ps_synced (run_persistence False ''c''
     [Get_checkpointer True, Flush_begin, Flush_look, Flush_look, Flush_look, Release [3, 4, 5], Flush_begin, Flush_look] ?p)
   = [0, 1, 2, 3, 4, 5]" by code_simp
  ultimately show ?thesis by blast
qed

theorem flush_pass_exact_witness:
  "ps_synced (flush_pass (persistence_init\<lparr>ps_stores := [(''a'', 1), (''b'', 2)], ps_dead := [1], ps_flusher := True\<rparr>)) = [2]"
  using flush_pass_exact[of "persistence_init\<lparr>ps_stores := [(''a'', 1), (''b'', 2)], ps_dead := [1], ps_flusher := True\<rparr>"]
  by (simp add: persistence_init_def live_stores_def wf_dict_def)

end
