(* ===== verification/Lifecycle.thy ===== *)
theory Lifecycle
  imports Store Scheduler
begin

text \<open>
  Start-up and shutdown of the server: \<open>lifespan\<close> of \<open>lifespan.py\<close>, \<open>start_pool\<close> and \<open>stop_pool\<close> of
  \<open>database.py\<close>. Most of what they call is outside \<open>src/\<close>: a call is an entry of the trace, and
  whether it raises is the argument \<open>fails\<close>. Leaving the task group cancels its tasks and passes an
  exception on.
\<close>

section \<open>Sequences of calls\<close>

text \<open>The calls made and the exception that ended the sequence, if any.\<close>

fun run_calls :: "('c \<Rightarrow> exc option) \<Rightarrow> 'c list \<Rightarrow> 'c list \<times> exc option" where
  "run_calls fails [] = ([], None)"
| "run_calls fails (c # cs) =
     (case fails c of
        Some e \<Rightarrow> ([c], Some e)
      | None \<Rightarrow> (case run_calls fails cs of (made, e) \<Rightarrow> (c # made, e)))"

lemma run_calls_ok: "\<forall>c\<in>set cs. fails c = None \<Longrightarrow> run_calls fails cs = (cs, None)"
  by (induction cs) auto

lemma run_calls_ok_iff: "snd (run_calls fails cs) = None \<longleftrightarrow> (\<forall>c\<in>set cs. fails c = None)"
  by (induction cs) (auto split: option.splits prod.splits)

lemma run_calls_made: "set (fst (run_calls fails cs)) \<subseteq> set cs"
  by (induction cs) (auto split: option.splits prod.splits)

lemma run_calls_append:
  "run_calls fails (xs @ ys) =
   (case run_calls fails xs of
      (made, Some e) \<Rightarrow> (made, Some e)
    | (made, None) \<Rightarrow> (case run_calls fails ys of (made', e) \<Rightarrow> (made @ made', e)))"
  by (induction xs) (auto split: option.splits prod.splits)

lemma run_calls_reaches:
  "c \<notin> set xs \<Longrightarrow> c \<in> set (fst (run_calls fails (xs @ c # ys))) \<longleftrightarrow> (\<forall>x\<in>set xs. fails x = None)"
proof (induction xs)
  case Nil
  then show ?case by (auto split: option.split prod.split)
next
  case (Cons x xs)
  then show ?case by (auto split: option.split prod.split)
qed

section \<open>The server\<close>

datatype call =
    Start_http_client | Start_pool | Start_checkpointer | Start_ui_bundler | Start_metrics
  | Collect_store | Get_store | Patch_packages | Collect_graphs | Serve
  | Report_stopping | Exit_store | Exit_checkpointer | Stop_ui_bundler | Stop_remote_graphs | Stop_http_client
  | Stop_webhook_client | Stop_pool | Stop_metrics

datatype task = Metadata_loop | Collector_loop | Store_sweeper | Thread_ttl_loop | Queue_loop | Cron_scheduler

definition startup_calls :: "call list" where
  "startup_calls = [Start_http_client, Start_pool, Start_checkpointer, Start_ui_bundler, Start_metrics]"

definition serving_calls :: "call list" where
  "serving_calls = [Collect_store, Get_store, Patch_packages, Collect_graphs, Serve]"

definition teardown_calls :: "call list" where
  "teardown_calls =
     [Report_stopping, Exit_store, Exit_checkpointer, Stop_ui_bundler, Stop_remote_graphs, Stop_http_client, Stop_webhook_client,
      Stop_pool, Stop_metrics]"

text \<open>The tasks created, for the calls that were made inside the task group.\<close>

definition started_tasks :: "bool \<Rightarrow> int \<Rightarrow> (call \<Rightarrow> exc option) \<Rightarrow> call list \<Rightarrow> task list" where
  "started_tasks custom_store jobs fails made =
     [Metadata_loop, Collector_loop] @
     (if Get_store \<in> set made \<and> fails Get_store = None
      then (if custom_store then [] else [Store_sweeper]) @ [Thread_ttl_loop] else []) @
     (if Serve \<in> set made then (if 0 < jobs then [Queue_loop] else []) @ [Cron_scheduler] else [])"

record lifespan_result =
  lf_calls :: "call list"
  lf_tasks :: "task list"
  lf_outcome :: "exc option"
  lf_last_error :: "exc option"

definition graph_load_error :: exc where
  "graph_load_error = PyError ''GraphLoadError''"

definition cancelled_error :: exc where
  "cancelled_error = PyError ''CancelledError''"

text \<open>\<open>previous\<close> is the module's last error before; it is reset unless setting the loop fails.\<close>

definition lifespan :: "bool \<Rightarrow> int \<Rightarrow> (call \<Rightarrow> exc option) \<Rightarrow> lifespan_result" where
  "lifespan custom_store jobs fails =
     (case run_calls fails startup_calls of
        (made, Some e) \<Rightarrow> \<lparr>lf_calls = made, lf_tasks = [], lf_outcome = Some e, lf_last_error = None\<rparr>
      | (made, None) \<Rightarrow>
          (case run_calls fails serving_calls of (made', raised) \<Rightarrow>
           case run_calls fails teardown_calls of (made'', teardown_raised) \<Rightarrow>
             \<lparr>lf_calls = made @ made' @ made'', lf_tasks = started_tasks custom_store jobs fails made',
              lf_outcome = (case teardown_raised of
                  Some e \<Rightarrow> Some e
                | None \<Rightarrow> if raised = Some cancelled_error then None else raised),
              lf_last_error = (if raised = Some graph_load_error then raised else None)\<rparr>))"

section \<open>The database pool\<close>

text \<open>What \<open>start_pool\<close> finds in the file of the rows.\<close>

datatype rows_file = No_file | Readable "world \<Rightarrow> world" | Unreadable

definition pool_store_config :: "pdict option \<Rightarrow> store_module \<Rightarrow> store_module" where
  "pool_store_config config m =
     (case (sm_config m, config) of (None, Some c) \<Rightarrow> if c = [] then m else set_store_config c m | _ \<Rightarrow> m)"

text \<open>
  An unreadable file is removed, and the file of the retry counter with it, which raises when there is
  none (\<open>retry_file\<close>).
\<close>

definition open_pool :: "rows_file \<Rightarrow> bool \<Rightarrow> world \<Rightarrow> unit res \<times> world" where
  "open_pool file retry_file w =
     (case file of
        No_file \<Rightarrow> (Inr (), start_pool w)
      | Readable load \<Rightarrow> (Inr (), start_pool (load w))
      | Unreadable \<Rightarrow> if retry_file then (Inr (), start_pool w) else (Inl (PyError ''FileNotFoundError''), w))"

section \<open>The files of the store\<close>

text \<open>
  \<open>_load_data\<close>: what reading a file raised, if anything. A missing file is an empty dictionary, every
  other exception becomes a \<open>RuntimeError\<close>; a cancellation is not an \<open>Exception\<close>.
\<close>

definition load_data :: "bool \<Rightarrow> exc option \<Rightarrow> unit res" where
  "load_data has_file raised =
     (if \<not> has_file then Inr ()
      else case raised of
        None \<Rightarrow> Inr ()
      | Some e \<Rightarrow>
          if e = PyError ''FileNotFoundError'' then Inr ()
          else if e = cancelled_error then Inl e
          else Inl (PyError ''RuntimeError''))"

text \<open>The constructor of the store: data, vectors and TTL records, in this order.\<close>

definition load_store :: "bool \<Rightarrow> exc option \<Rightarrow> exc option \<Rightarrow> exc option \<Rightarrow> unit res" where
  "load_store disabled data_raised vectors_raised ttl_raised =
     (if disabled then Inr ()
      else bind_res (load_data True data_raised) (\<lambda>_.
        bind_res (load_data True vectors_raised) (\<lambda>_. load_data True ttl_raised)))"

lemma load_store_ok:
  "load_store disabled d v t = Inr () \<longleftrightarrow>
   disabled \<or> {d, v, t} \<subseteq> {None, Some (PyError ''FileNotFoundError'')}"
  by (auto simp: load_store_def load_data_def bind_res_def split: option.splits)

section \<open>The end of the pool\<close>

datatype pool_call =
    Stop_flush_loop | Close_rows | Close_retry_counter | Stop_sweeper | Close_store | Exit_saver | Stop_stream

definition stop_pool_calls :: "pool_call list" where
  "stop_pool_calls = [Stop_flush_loop, Close_rows, Close_retry_counter, Stop_sweeper, Close_store, Exit_saver, Stop_stream]"

definition stop_pool :: "(pool_call \<Rightarrow> exc option) \<Rightarrow> pool_call list \<times> exc option" where
  "stop_pool fails = run_calls fails stop_pool_calls"

section \<open>Properties\<close>

text \<open>
  C38. When the shutdown writes the data. The pool is stopped, which writes rows, checkpoints and the
  store to their files, exactly when start-up succeeded and each of the seven tear-down steps before it
  did; how the serving ended does not matter. So after a failure while starting the checkpointer, the UI
  or the metrics, and after a failure of any of these steps, the pool that was started is not stopped.
\<close>

theorem shutdown_stops_pool:
  "Stop_pool \<in> set (lf_calls (lifespan custom_store jobs fails)) \<longleftrightarrow>
   (\<forall>c\<in>{Start_http_client, Start_pool, Start_checkpointer, Start_ui_bundler, Start_metrics, Report_stopping, Exit_store,
        Exit_checkpointer, Stop_ui_bundler, Stop_remote_graphs, Stop_http_client, Stop_webhook_client}. fails c = None)"
proof -
  have none: "Stop_pool \<notin> set (fst (run_calls fails startup_calls))" "Stop_pool \<notin> set (fst (run_calls fails serving_calls))"
    using run_calls_made[of fails startup_calls] run_calls_made[of fails serving_calls]
    by (auto simp: startup_calls_def serving_calls_def)
  have reach: "Stop_pool \<in> set (fst (run_calls fails teardown_calls)) \<longleftrightarrow>
      (\<forall>c\<in>{Report_stopping, Exit_store, Exit_checkpointer, Stop_ui_bundler, Stop_remote_graphs, Stop_http_client, Stop_webhook_client}.
         fails c = None)"
    using run_calls_reaches[of Stop_pool "[Report_stopping, Exit_store, Exit_checkpointer, Stop_ui_bundler, Stop_remote_graphs,
      Stop_http_client, Stop_webhook_client]" fails "[Stop_metrics]"]
    by (simp add: teardown_calls_def)
  have start: "snd (run_calls fails startup_calls) = None \<longleftrightarrow>
      (\<forall>c\<in>{Start_http_client, Start_pool, Start_checkpointer, Start_ui_bundler, Start_metrics}. fails c = None)"
    by (simp only: run_calls_ok_iff startup_calls_def) simp
  show ?thesis
  proof (cases "snd (run_calls fails startup_calls) = None")
    case True
    then have "Stop_pool \<in> set (lf_calls (lifespan custom_store jobs fails)) \<longleftrightarrow>
        Stop_pool \<in> set (fst (run_calls fails teardown_calls))"
      using none by (auto simp: lifespan_def split: prod.splits option.splits)
    with reach start True show ?thesis by auto
  next
    case False
    then have "Stop_pool \<notin> set (lf_calls (lifespan custom_store jobs fails))"
      using none by (auto simp: lifespan_def split: prod.splits option.splits)
    with start False show ?thesis by auto
  qed
qed

theorem shutdown_stops_pool_witness:
  "Stop_pool \<notin> set (lf_calls (lifespan False 1 ((\<lambda>_. None)(Exit_store := Some value_error)))) \<and>
   Stop_pool \<in> set (lf_calls (lifespan False 1 (\<lambda>_. None)))"
  using shutdown_stops_pool[of False 1 "(\<lambda>_. None)(Exit_store := Some value_error)"]
    shutdown_stops_pool[of False 1 "\<lambda>_. None"]
  by simp

end
