(* ===== verification/Access.thy ===== *)
theory Access
  imports State Cancelling
begin

text \<open>
  Authorization across the components of \<open>ops.py\<close>: what the operations on one thread do for a caller
  whose filters the thread does not pass. The handler (\<open>handle_event\<close>) is any function that answers
  every action on threads with filters that reject the thread.
\<close>

definition hidden :: "auth \<Rightarrow> uuid \<Rightarrow> world \<Rightarrow> bool" where
  "hidden A tid w \<longleftrightarrow> (\<exists>t. find_thread tid w = Some t \<and>
     (\<forall>action subject. \<exists>f. A ''threads'' action subject = Inr f \<and> truthy f \<and>
        check_filter_match (t_metadata t) f = Inr False))"

lemma hiddenE:
  assumes "hidden A tid w"
  obtains t f where "find_thread tid w = Some t" "A ''threads'' action subject = Inr f" "truthy f"
    "passes f (t_metadata t) = Inr False" "get_with_filters tid f w = (Inr None, w)"
  using assms by (fastforce simp: hidden_def passes_def get_with_filters_def)

lemma hidden_thread:
  assumes "hidden A tid w"
  shows "threads_get cfg A tid include_ttl w = (Inl (HTTPException 404), w)"
    and "threads_patch A now tid metadata ttl w = (Inr None, w)"
    and "threads_delete E A tid w = (Inl (HTTPException 404), w)"
    and "threads_put A now tid metadata if_exists ttl w = (Inl (HTTPException 409), w)"
    and "cron_thread_ok A (Some tid) w = Inl (HTTPException 404)"
    and "check_stream_auth A tid w = (Inl (HTTPException 404), w)"
proof -
  show "threads_get cfg A tid include_ttl w = (Inl (HTTPException 404), w)"
    by (rule hiddenE[OF assms, of "''read''" "Some tid"]) (simp add: threads_get_def)
  show "threads_patch A now tid metadata ttl w = (Inr None, w)"
    by (rule hiddenE[OF assms, of "''update''" "Some tid"]) (simp add: threads_patch_def)
  show "threads_delete E A tid w = (Inl (HTTPException 404), w)"
    by (rule hiddenE[OF assms, of "''delete''" "Some tid"]) (simp add: threads_delete_def)
  show "threads_put A now tid metadata if_exists ttl w = (Inl (HTTPException 409), w)"
    by (rule hiddenE[OF assms, of "''create''" "Some tid"]) (simp add: threads_put_def)
  show "cron_thread_ok A (Some tid) w = Inl (HTTPException 404)"
    by (rule hiddenE[OF assms, of "''read''" "Some tid"]) (simp add: cron_thread_ok_def)
  show "check_stream_auth A tid w = (Inl (HTTPException 404), w)"
    by (rule hiddenE[OF assms, of "''read''" "Some tid"]) (simp add: check_stream_auth_def)
qed

lemma hidden_copy: "hidden A tid w \<Longrightarrow> threads_copy A now fresh tid w = (Inr None, w)"
  by (rule hiddenE[of A tid w "''read''" "Some tid"], assumption,
      rule hiddenE[of A tid w "''create''" "Some fresh"], assumption) (simp add: threads_copy_def)

lemma hidden_search:
  assumes "get_with_filters tid f w = (Inr None, w)"
  shows "filter_runs_visible f tid rs w = (Inr [], w)"
  using assms by (induction rs) simp_all

lemma hidden_runs:
  assumes "hidden A tid w"
  shows "fst (runs_get A rid tid w) = Inr None \<and> snd (runs_get A rid tid w) = w"
    and "runs_delete E A rid tid w = (Inr None, w)"
    and "runs_search A tid limit offset status w = (Inr [], w)"
    and "runs_cancel E A now ms (Some ids) action (Some tid) None None w = (Inl (HTTPException 404), w)"
proof -
  show "fst (runs_get A rid tid w) = Inr None \<and> snd (runs_get A rid tid w) = w"
    by (rule hiddenE[OF assms, of "''read''" "Some tid"]) (auto simp: runs_get_def split: option.split)
  show "runs_delete E A rid tid w = (Inr None, w)"
    by (rule hiddenE[OF assms, of "''delete''" "Some tid"]) (simp add: runs_delete_def)
  show "runs_search A tid limit offset status w = (Inr [], w)"
    by (rule hiddenE[OF assms, of "''search''" "Some tid"])
      (simp add: runs_search_def hidden_search Let_def py_slice_def py_sorted_def)
  show "runs_cancel E A now ms (Some ids) action (Some tid) None None w = (Inl (HTTPException 404), w)"
    by (rule hiddenE[OF assms, of "''update''" "Some tid"])
      (simp add: runs_cancel_def cancel_args_ok_def status_list_def cancel_candidates_def)
qed

lemma hidden_create_run:
  assumes "hidden A tid w" and "rq_thread q = Some tid"
  shows "snd (runs_put A now fresh q w) = w \<and> (\<forall>rs. fst (runs_put A now fresh q w) = Inr rs \<longrightarrow> rs = [])"
proof (cases "find_assistant (rq_assistant q) w")
  case None
  then show ?thesis by (simp add: runs_put_def)
next
  case (Some a)
  let ?allowed = "if created_by_system (a_metadata a) then Inr True
    else bind_res (A ''assistants'' ''read'' (Some (rq_assistant q))) (\<lambda>f. passes f (a_metadata a))"
  let ?subject = "if truthy (dget_default (rq_kwargs q) ''temporary'' (PBool False)) then None else Some tid"
  show ?thesis
    by (rule hiddenE[OF assms(1), of "''create_run''" ?subject], cases ?allowed)
      (use Some assms(2) in \<open>auto simp: runs_put_def Let_def split: if_splits\<close>)
qed

lemma hidden_state:
  assumes "hidden A tid w" and "config_thread config = Inr tid"
  shows "state_get A cfg G config subgraphs w = (Inl (HTTPException 404), w)"
    and "state_list A cfg G config limit before metadata w = (Inl (HTTPException 404), w)"
    and "state_post A cfg G now ms config vals as_node w = (Inl (HTTPException 404), w)"
    and "state_bulk A cfg G now ms config supersteps w = (Inl (HTTPException 404), w)"
  using assms(2) hidden_thread(1)[OF assms(1)]
    hiddenE[OF assms(1), of "''update''" "Some tid"] hiddenE[OF assms(1), of "''read''" "Some tid"]
  by (fastforce simp: state_get_def state_list_def state_post_def state_bulk_def)+

section \<open>Operations on many threads\<close>

text \<open>What the tables hold of a thread: its row, and the rows of its runs.\<close>

definition rows_of :: "uuid \<Rightarrow> world \<Rightarrow> thread option \<times> run list" where
  "rows_of tid w = (find_thread tid w, filter (\<lambda>r. r_thread r = tid) (runs w))"

lemma rows_of_other:
  assumes "t \<noteq> tid" and "\<And>u. t_id (f u) = t_id u"
  shows "rows_of tid (update_thread t f w) = rows_of tid w"
proof -
  have "find (\<lambda>u. t_id u = tid) (update_first (\<lambda>u. t_id u = t) f us) = find (\<lambda>u. t_id u = tid) us" for us
    using assms by (induction us) auto
  then show ?thesis by (simp add: rows_of_def find_thread_def update_thread_def)
qed

lemma rows_of_runs:
  "rows_of tid (w\<lparr>streams := sm\<rparr>) = rows_of tid w" "rows_of tid (w\<lparr>ckpt_saver := cs\<rparr>) = rows_of tid w"
  "filter (\<lambda>r. r_thread r = tid) rs = filter (\<lambda>r. r_thread r = tid) (runs w) \<Longrightarrow> rows_of tid (w\<lparr>runs := rs\<rparr>) = rows_of tid w"
  by (simp_all add: rows_of_def find_thread_def)

lemma hidden_not_seen:
  assumes "hidden A tid w" and "A ''threads'' action subject = Inr f"
  shows "\<not> may_see f tid w" and "truthy f"
  by (rule hiddenE[OF assms(1), of action subject], use assms(2) in \<open>simp add: may_see_def passes_def\<close>)+

lemma rows_of_get_with_filters:
  assumes "truthy f" and "\<not> may_see f tid w"
  shows "rows_of tid (snd (get_with_filters t f w)) = rows_of tid w"
proof (cases "t = tid")
  case True
  then have "snd (get_with_filters t f w) = w"
    using assms by (cases "find_thread tid w"; cases "passes f (t_metadata (the (find_thread tid w)))")
      (auto simp: get_with_filters_def may_see_def passes_def split: if_splits)
  then show ?thesis by simp
next
  case False
  then show ?thesis
    by (auto simp: get_with_filters_def rows_of_other split: option.split
        intro!: attempt_keeps[where P = "\<lambda>w'. rows_of tid w' = rows_of tid w"])
qed

lemma filter_list_update_other:
  "\<not> P y \<Longrightarrow> (i < length xs \<Longrightarrow> \<not> P (xs ! i)) \<Longrightarrow> filter P (xs[i := y]) = filter P xs"
proof (induction xs arbitrary: i)
  case Nil
  then show ?case by simp
next
  case (Cons x xs)
  then show ?case by (cases i) auto
qed

lemma filter_delete_other: "(\<And>x. Q x \<Longrightarrow> \<not> P x) \<Longrightarrow> filter P (delete_first Q xs) = filter P xs"
  by (induction xs) auto

lemma rows_of_cancel_one:
  assumes "i < length (runs w)" and "r_thread (runs w ! i) \<noteq> tid"
  shows "rows_of tid (snd (snd (cancel_one action now t i w))) = rows_of tid w"
    and "map r_thread (runs (snd (snd (cancel_one action now t i w)))) = map r_thread (runs w)"
    and "Delete_run rid t' \<in> set (fst (cancel_one action now t i w)) \<Longrightarrow> t' \<noteq> tid"
proof -
  show "rows_of tid (snd (snd (cancel_one action now t i w))) = rows_of tid w"
    using assms
    by (auto simp: cancel_one_def Let_def case_prod_unfold rows_of_runs rows_of_other filter_list_update_other
        intro!: rows_of_runs(3)[THEN trans])
  show "map r_thread (runs (snd (snd (cancel_one action now t i w)))) = map r_thread (runs w)"
    using assms(1) by (auto simp: cancel_one_def Let_def case_prod_unfold map_update list_update_same_conv)
  show "t' \<noteq> tid" if "Delete_run rid t' \<in> set (fst (cancel_one action now t i w))"
    using that assms(2) by (auto simp: cancel_one_def Let_def case_prod_unfold split: if_splits)
qed

lemma rows_of_cancel_each:
  assumes "\<forall>i\<in>set is. i < length (runs w) \<and> r_thread (runs w ! i) \<noteq> tid"
  shows "rows_of tid (snd (snd (cancel_each action now t is w))) = rows_of tid w \<and>
    (\<forall>rid t'. Delete_run rid t' \<in> set (fst (cancel_each action now t is w)) \<longrightarrow> t' \<noteq> tid)"
  using assms
proof (induction "is" arbitrary: w)
  case Nil
  then show ?case by simp
next
  case (Cons i "is")
  let ?w1 = "snd (snd (cancel_one action now t i w))"
  have i: "i < length (runs w)" "r_thread (runs w ! i) \<noteq> tid" using Cons.prems by simp_all
  note one = rows_of_cancel_one[OF i, where action = action and now = now and t = t]
  from map_eq_imp_length_eq[OF one(2)] have len: "length (runs ?w1) = length (runs w)" .
  have "r_thread (runs ?w1 ! k) = r_thread (runs w ! k)" if "k < length (runs w)" for k
    using arg_cong[OF one(2), of "\<lambda>xs. xs ! k"] that len by simp
  with Cons.prems len have "\<forall>i\<in>set is. i < length (runs ?w1) \<and> r_thread (runs ?w1 ! i) \<noteq> tid" by simp
  from Cons.IH[OF this] one(1,3) show ?case by (auto simp: case_prod_unfold)
qed

lemma rows_of_delete_run:
  assumes "hidden A tid w" and "t \<noteq> tid"
  shows "rows_of tid (snd (runs_delete E A rid t w)) = rows_of tid w"
proof -
  have row: "rows_of tid (snd (delete_run_row E rid t v)) = rows_of tid v" for v
    using assms(2) by (auto simp: delete_run_row_def Let_def rows_of_def find_thread_def intro!: filter_delete_other)
  show ?thesis
  proof (cases "A ''threads'' ''delete'' (Some t)")
    case (Inr f)
    note f = hidden_not_seen[OF assms(1) Inr]
    have "rows_of tid (snd (get_with_filters t f w)) = rows_of tid w" by (rule rows_of_get_with_filters[OF f(2,1)])
    with Inr f(2) row show ?thesis
      by (auto simp: runs_delete_def case_prod_unfold
          intro!: attempt_keeps[where P = "\<lambda>w'. rows_of tid w' = rows_of tid w"])
  qed (simp add: runs_delete_def)
qed

lemma hidden_rows: "rows_of tid w' = rows_of tid w \<Longrightarrow> hidden A tid w' = hidden A tid w"
  by (simp add: rows_of_def hidden_def)

lemma rows_of_gather:
  "hidden A tid w \<Longrightarrow> (\<And>rid t'. Delete_run rid t' \<in> set cs \<Longrightarrow> t' \<noteq> tid) \<Longrightarrow>
   rows_of tid (snd (gather_calls E A ms action t cs w)) = rows_of tid w"
proof (induction cs arbitrary: w)
  case Nil
  then show ?case by simp
next
  case (Cons c cs)
  let ?w1 = "snd (run_call E A ms action t c w)"
  have own: "rows_of tid ?w1 = rows_of tid w"
  proof (cases c)
    case (Delete_run rid t')
    then have "t' \<noteq> tid" using Cons.prems(2)[of rid t'] by simp
    then show ?thesis
      using Delete_run by (simp add: run_call_def case_prod_unfold rows_of_delete_run[OF Cons.prems(1)] split: option.split)
  qed (simp add: run_call_def rows_of_runs)
  have "rows_of tid (snd (gather_calls E A ms action t cs ?w1)) = rows_of tid ?w1"
    using Cons.prems(2) by (intro Cons.IH) (auto simp: hidden_rows[OF own] Cons.prems(1))
  with own show ?case by (simp add: case_prod_unfold)
qed

lemma same_meta_sees: "same_meta w w' \<Longrightarrow> \<not> may_see f tid w \<Longrightarrow> \<not> may_see f tid w'"
  by (simp add: may_see_same)

lemma rows_of_filter_visible:
  "truthy f \<Longrightarrow> \<not> may_see f tid w \<Longrightarrow> rows_of tid (snd (filter_visible f is w)) = rows_of tid w"
proof (induction "is" arbitrary: w)
  case Nil
  then show ?case by simp
next
  case (Cons i "is")
  let ?w1 = "snd (get_with_filters (r_thread (runs w ! i)) f w)"
  have own: "rows_of tid ?w1 = rows_of tid w" using Cons.prems by (rule rows_of_get_with_filters)
  have "\<not> may_see f tid ?w1" using same_meta_sees[OF get_with_filters_meta Cons.prems(2)] .
  from Cons.IH[OF Cons.prems(1) this] own show ?case
    by (auto simp: case_prod_unfold intro!: attempt_keeps[where P = "\<lambda>w'. rows_of tid w' = rows_of tid w"])
qed

text \<open>No cancellation touches a hidden thread, however the runs are chosen.\<close>

lemma rows_of_cancel:
  assumes "hidden A tid w"
  shows "rows_of tid (snd (runs_cancel E A now ms run_ids action t status aid w)) = rows_of tid w"
proof (cases "cancel_args_ok run_ids t status aid")
  case args: True
  show ?thesis
  proof (cases "A ''threads'' ''update'' t")
    case (Inr f)
    note f = hidden_not_seen[OF assms Inr]
    show ?thesis
    proof (cases "status_list status")
      case st: (Inr statuses)
      obtain cands w1 where c: "cancel_candidates f run_ids t statuses aid w = (cands, w1)" by fastforce
      have "rows_of tid (snd (cancel_candidates f run_ids t statuses aid w)) = rows_of tid w"
        using f rows_of_get_with_filters[OF f(2,1)] rows_of_filter_visible[OF f(2,1)]
        by (cases t) (auto simp: cancel_candidates_def Let_def case_prod_unfold
            intro!: attempt_keeps[where P = "\<lambda>w'. rows_of tid w' = rows_of tid w"])
      then have own: "rows_of tid w1 = rows_of tid w" using c by simp
      show ?thesis
      proof (cases cands)
        case (Inr js)
        have runs: "runs w1 = runs w" using cancel_candidates_same[of w f run_ids t statuses aid] c same_keeps(2) by simp
        have "js = filter (\<lambda>i. selected f run_ids t statuses aid w (runs w ! i)) [0..<length (runs w)]"
          using candidates_exact[OF args st] c Inr by simp
        then have "\<forall>i\<in>set js. i < length (runs w1) \<and> r_thread (runs w1 ! i) \<noteq> tid"
          using f(1) by (auto simp: runs selected_def)
        note each = rows_of_cancel_each[OF this, of action now t]
        let ?w2 = "snd (snd (cancel_each action now t js w1))"
        have own2: "rows_of tid ?w2 = rows_of tid w" using each own by simp
        have "rows_of tid (snd (gather_calls E A ms action t (fst (cancel_each action now t js w1)) ?w2)) = rows_of tid w"
          using rows_of_gather[of A tid ?w2] each own2 hidden_rows[OF own2] assms by simp
        then show ?thesis using args \<open>A ''threads'' ''update'' t = Inr f\<close> st c Inr own own2
          by (simp add: runs_cancel_def case_prod_unfold)
      qed (use args Inr st c own in \<open>simp add: runs_cancel_def\<close>)
    qed (use args Inr in \<open>simp add: runs_cancel_def\<close>)
  qed (use args in \<open>simp add: runs_cancel_def\<close>)
qed (simp add: runs_cancel_def)

text \<open>Searching and counting skip it.\<close>

lemma collect_rejected:
  assumes "\<And>t. t \<in> set ts \<Longrightarrow> t_id t = tid \<Longrightarrow> P t = Inr False"
  shows "find (\<lambda>t. t_id t = tid) (snd (collect_threads P ts)) = find (\<lambda>t. t_id t = tid) ts"
    and "fst (collect_threads P ts) = Inr us \<Longrightarrow> tid \<notin> t_id ` set us"
  using assms
proof (induction ts arbitrary: us)
  case Nil
  { case 1 then show ?case by simp next case 2 then show ?case by simp }
next
  case (Cons t ts)
  { case 1
    with Cons.IH(1) show ?case by (cases "P t"; cases "t_id t = tid") (auto simp: Let_def case_prod_unfold)
  next
    case 2
    then obtain b vs where b: "P t = Inr b" and vs: "fst (collect_threads P ts) = Inr vs"
      "us = (if b then default_state_updated t # vs else vs)"
      by (cases "P t"; cases "fst (collect_threads P ts)") (auto simp: Let_def case_prod_unfold res_simps)
    have "tid \<notin> t_id ` set vs" using Cons.IH(2)[OF vs(1)] 2 by simp
    moreover have "t_id t \<noteq> tid" if b using 2(2)[of t] b that by auto
    ultimately show ?case by (auto simp: vs(2)) }
qed

lemma hidden_rejected:
  assumes "hidden A tid w" and "distinct (map t_id (threads w))" and "A ''threads'' action subject = Inr f"
    and "t \<in> set (threads w)" and "t_id t = tid"
  shows "thread_matches f metadata vals status t = Inr False"
proof (rule hiddenE[OF assms(1), of action subject])
  fix u g
  assume u: "find_thread tid w = Some u" "A ''threads'' action subject = Inr g" "passes g (t_metadata u) = Inr False"
  have "u \<in> set (threads w)" "t_id u = t_id t" using thread_table.lookup_mem[OF u(1)] assms(5) by simp_all
  then have "u = t" using assms(2,4) by (auto simp: distinct_map dest: inj_onD)
  with u assms(3) show ?thesis by (simp add: thread_matches_def)
qed

lemma set_page: "set (fst (page offset limit xs)) \<subseteq> set xs"
  by (auto simp: page_def py_slice_def dest: in_set_takeD in_set_dropD)

lemma set_sort_threads: "set (sort_threads sort_by sort_order ts) = set ts"
  by (simp add: sort_threads_def py_sorted_def split: option.split)

lemma hidden_search_threads:
  assumes "hidden A tid w" and "distinct (map t_id (threads w))"
  shows "rows_of tid (snd (threads_search A ids metadata vals status limit offset sort_by sort_order w)) = rows_of tid w"
    and "fst (threads_search A ids metadata vals status limit offset sort_by sort_order w) = Inr (us, n) \<Longrightarrow> tid \<notin> t_id ` set us"
    and "threads_count A metadata vals status w =
      threads_count A metadata vals status (w\<lparr>threads := filter (\<lambda>t. t_id t \<noteq> tid) (threads w)\<rparr>)"
proof -
  obtain f where f: "A ''threads'' ''search'' None = Inr f" by (rule hiddenE[OF assms(1), of "''search''" None])
  note no = hidden_rejected[OF assms f]
  let ?P = "\<lambda>t. if ids \<noteq> [] \<and> Some (t_id t) \<notin> set ids then Inr False else thread_matches f metadata vals status t"
  have P: "?P t = Inr False" if "t \<in> set (threads w)" "t_id t = tid" for t using no[OF that] by simp
  note found = collect_rejected[of "threads w" tid ?P, OF P]
  show "rows_of tid (snd (threads_search A ids metadata vals status limit offset sort_by sort_order w)) = rows_of tid w"
    using f found(1) by (simp add: threads_search_def case_prod_unfold rows_of_def find_thread_def Let_def)
  show "tid \<notin> t_id ` set us"
    if "fst (threads_search A ids metadata vals status limit offset sort_by sort_order w) = Inr (us, n)"
  proof -
    from that f obtain vs where "fst (collect_threads ?P (threads w)) = Inr vs"
      "us = fst (page offset limit (sort_threads sort_by sort_order vs))"
      by (cases "None \<in> set ids"; cases "fst (collect_threads ?P (threads w))")
        (auto simp: threads_search_def case_prod_unfold Let_def res_simps)
    with found(2)[of vs] set_page[of offset limit "sort_threads sort_by sort_order vs"] show ?thesis
      by (auto simp: set_sort_threads)
  qed
  have id: "bind_res x Inr = x" for x :: "thread list res" by (cases x) simp_all
  have "filter_res Q ts = filter_res Q (filter (\<lambda>t. t_id t \<noteq> tid) ts)"
    if "\<And>t. t \<in> set ts \<Longrightarrow> t_id t = tid \<Longrightarrow> Q t = Inr False" for Q and ts :: "thread list"
    using that by (induction ts) (auto simp: id)
  from this[of "threads w" "thread_matches f metadata vals status"] no
  show "threads_count A metadata vals status w =
      threads_count A metadata vals status (w\<lparr>threads := filter (\<lambda>t. t_id t \<noteq> tid) (threads w)\<rparr>)"
    using f by (simp add: threads_count_def res_simps)
qed

text \<open>Pruning a list with a hidden thread is refused before anything is deleted.\<close>

lemma check_all_hidden:
  "truthy f \<Longrightarrow> \<not> may_see f tid w \<Longrightarrow>
   rows_of tid (snd (check_all_visible f tids w)) = rows_of tid w \<and> same_but_defaults w (snd (check_all_visible f tids w)) \<and>
   (tid \<in> set tids \<longrightarrow> fst (check_all_visible f tids w) \<noteq> Inr True)"
proof (induction tids arbitrary: w)
  case Nil
  then show ?case by simp
next
  case (Cons t tids)
  let ?w1 = "snd (get_with_filters t f w)"
  have own: "rows_of tid ?w1 = rows_of tid w" using Cons.prems by (rule rows_of_get_with_filters)
  have "\<not> may_see f tid ?w1" using same_meta_sees[OF get_with_filters_meta Cons.prems(2)] .
  note IH = Cons.IH[OF Cons.prems(1) this] and same = get_with_filters_same[of w t f]
  have self: "x = None" if "fst (get_with_filters t f w) = Inr x" "t = tid" for x
    using get_with_filters_sees[OF that(1) Cons.prems(1)] Cons.prems(2) that(2) by simp
  show ?case
  proof (cases "fst (get_with_filters t f w)")
    case (Inl e)
    then show ?thesis using own same by (simp add: case_prod_unfold)
  next
    case (Inr x)
    then show ?thesis
      using own IH same_trans[OF same] self[OF Inr]
      by (cases "fst (check_all_visible f tids ?w1)") (auto simp: case_prod_unfold)
  qed
qed

lemma hidden_prune:
  assumes "hidden A tid w" and "tid \<in> set tids"
  shows "\<exists>e w'. threads_prune E A tids strategy n w = Some (Inl e, w') \<and> rows_of tid w' = rows_of tid w \<and> same_but_defaults w w'"
proof -
  obtain f where f: "A ''threads'' ''delete'' None = Inr f" by (rule hiddenE[OF assms(1), of "''delete''" None])
  note h = hidden_not_seen[OF assms(1) f]
  have ne: "tids \<noteq> []" using assms(2) by auto
  from check_all_hidden[OF h(2,1), of tids] assms(2) show ?thesis
    by (cases "check_all_visible f tids w"; cases "fst (check_all_visible f tids w)")
      (auto simp: threads_prune_def f h(2) ne)
qed

section \<open>Properties\<close>

text \<open>
  C4. A thread the caller may not see is neither shown nor touched. Let the handler answer every action on
  threads with filters that a stored thread does not pass, and thread ids be distinct. Then reading, patching,
  deleting, copying or re-creating the thread, reading or updating its state, creating, reading, deleting,
  searching or cancelling runs on it, and the check before its streams or its runs' streams are joined all
  report that there is nothing (an error, or an empty result) and change nothing at all. Searching for
  threads never yields it, counting them does not count it, pruning a list that contains it is refused, and
  cancelling in bulk, by status or by assistant, with either action, leaves the row of the thread and all of its
  runs as they are. Not covered, since these operations of the runtime take no caller: the status updates of
  the worker, the sweep, and subscribing to a stream or publishing to it.
\<close>

theorem hidden_thread_untouched:
  assumes "hidden A tid w" and "config_thread config = Inr tid" and "rq_thread q = Some tid"
    and "distinct (map t_id (threads w))" and "tid \<in> set tids"
  shows "threads_get cfg A tid include_ttl w = (Inl (HTTPException 404), w) \<and>
    threads_patch A now tid metadata ttl w = (Inr None, w) \<and>
    threads_delete E A tid w = (Inl (HTTPException 404), w) \<and>
    threads_put A now tid metadata if_exists ttl w = (Inl (HTTPException 409), w) \<and>
    threads_copy A now fresh tid w = (Inr None, w) \<and>
    state_get A cfg G config subgraphs w = (Inl (HTTPException 404), w) \<and>
    state_list A cfg G config limit before filters w = (Inl (HTTPException 404), w) \<and>
    state_post A cfg G now ms config vals as_node w = (Inl (HTTPException 404), w) \<and>
    state_bulk A cfg G now ms config supersteps w = (Inl (HTTPException 404), w) \<and>
    snd (runs_put A now fresh q w) = w \<and> (\<forall>rs. fst (runs_put A now fresh q w) = Inr rs \<longrightarrow> rs = []) \<and>
    fst (runs_get A rid tid w) = Inr None \<and> snd (runs_get A rid tid w) = w \<and>
    runs_delete E A rid tid w = (Inr None, w) \<and>
    runs_search A tid page_size offset status w = (Inr [], w) \<and>
    runs_cancel E A now ms (Some ids) action (Some tid) None None w = (Inl (HTTPException 404), w) \<and>
    check_stream_auth A tid w = (Inl (HTTPException 404), w) \<and>
    (\<forall>us n. fst (threads_search A wanted metadata values' status page_size offset sort_by sort_order w) = Inr (us, n) \<longrightarrow>
       tid \<notin> t_id ` set us) \<and>
    rows_of tid (snd (threads_search A wanted metadata values' status page_size offset sort_by sort_order w)) = rows_of tid w \<and>
    threads_count A metadata values' status w =
      threads_count A metadata values' status (w\<lparr>threads := filter (\<lambda>t. t_id t \<noteq> tid) (threads w)\<rparr>) \<and>
    (\<exists>e w'. threads_prune E A tids strategy batch w = Some (Inl e, w') \<and> rows_of tid w' = rows_of tid w \<and>
       runs w' = runs w \<and> ckpt_saver w' = ckpt_saver w) \<and>
    rows_of tid (snd (runs_cancel E A now ms run_ids action' anywhere status' aid w)) = rows_of tid w"
proof -
  have prune: "\<exists>e w'. threads_prune E A tids strategy batch w = Some (Inl e, w') \<and> rows_of tid w' = rows_of tid w \<and>
       runs w' = runs w \<and> ckpt_saver w' = ckpt_saver w"
    using hidden_prune[OF assms(1,5), of E strategy batch] same_keeps(2,3) by blast
  note single = hidden_thread[OF assms(1)] hidden_copy[OF assms(1)] hidden_runs[OF assms(1)]
    hidden_create_run[OF assms(1,3)] hidden_state[OF assms(1,2)]
  note many = hidden_search_threads[OF assms(1,4)] rows_of_cancel[OF assms(1)]
  show ?thesis
    by (intro conjI allI impI) (rule single many(1,3,4) prune | (erule many(2)) | (simp add: single))+
qed

definition demo_owner :: auth where
  "demo_owner = (\<lambda>resource action subject. Inr (PDict [(''owner'', PStr ''me'')]))"

definition demo_foreign :: world where
  "demo_foreign = world_init\<lparr>threads := [(demo_thread ''t'' ''idle'')\<lparr>t_metadata := [(''owner'', PStr ''you'')]\<rparr>],
     runs := [demo_run ''r1'' ''t'' ''running'' 1]\<rparr>"

theorem hidden_thread_untouched_witness:
  "runs_search demo_owner ''t'' 10 0 None demo_foreign = (Inr [], demo_foreign) \<and>
   threads_delete demo_env demo_owner ''t'' demo_foreign = (Inl (HTTPException 404), demo_foreign)"
proof -
  have "check_filter_match [(''owner'', PStr ''you'')] (PDict [(''owner'', PStr ''me'')]) = Inr False" by code_simp
  then have h: "hidden demo_owner ''t'' demo_foreign"
    by (simp add: hidden_def demo_owner_def demo_foreign_def find_thread_def demo_thread_def)
  have c: "config_thread demo_config = Inr ''t''" by code_simp
  have q: "rq_thread \<lparr>rq_assistant = ''a'', rq_kwargs = [], rq_thread = Some ''t'', rq_user = None, rq_run = None,
      rq_status = ''pending'', rq_metadata = [], rq_prevent = False, rq_multitask = ''reject'',
      rq_if_not_exists = ''reject'', rq_after = 0, rq_session = None\<rparr> = Some ''t''" by simp
  have d: "distinct (map t_id (threads demo_foreign))" by (simp add: demo_foreign_def)
  have t: "''t'' \<in> set [''t'']" by simp
  from hidden_thread_untouched[OF h c q d t, where cfg = demo_cfg and include_ttl = False and now = 0 and metadata = "[]"
      and ttl = None and E = demo_env and if_exists = "''raise''" and fresh = "''f''" and G = demo_graph
      and subgraphs = False and limit = 1 and before = None and filters = None and ms = 0 and vals = PNone
      and as_node = None and supersteps = "[]" and rid = "''r1''" and page_size = 10 and offset = 0 and status = None
      and ids = "[]" and action = "''interrupt''" and wanted = "[]" and values' = "[]" and sort_by = None
      and sort_order = None and strategy = "''delete''" and batch = 1 and run_ids = None and action' = "''rollback''"
      and anywhere = None and status' = "Some ''all''" and aid = None]
  show ?thesis by blast
qed

end
