(* ===== verification/Queue_Spec.thy ===== *)
theory Queue_Spec
  imports System
begin

text \<open>
  A specification of the run queue and the proof that \<open>Runs.next\<close> (\<open>ops.py\<close>) meets it: a loop that
  re-reads the changing rows, skips and marks them is the same as one choice made on the rows as they
  were.
\<close>

section \<open>The specification\<close>

text \<open>Of the elements with the same key only the first.\<close>

fun firsts :: "('a \<Rightarrow> 'k) \<Rightarrow> 'a list \<Rightarrow> 'a list" where
  "firsts key [] = []"
| "firsts key (x # xs) = x # firsts key (filter (\<lambda>y. key y \<noteq> key x) xs)"

text \<open>
  Among the due runs looked at, oldest first, those of a stored thread without a running run, and of
  each thread only the first.
\<close>

definition chosen :: "nat list \<Rightarrow> world \<Rightarrow> nat list" where
  "chosen is w =
     (let owner = (\<lambda>i. r_thread (runs w ! i))
      in firsts owner (filter (\<lambda>i. find_thread (owner i) w \<noteq> None \<and> \<not> thread_running (owner i) (runs w)) is))"

definition started :: "run \<Rightarrow> run" where
  "started r = r\<lparr>r_status := ''running''\<rparr>"

definition mark_started :: "nat set \<Rightarrow> run list \<Rightarrow> run list" where
  "mark_started S rs = map (\<lambda>(i, r). if i \<in> S then started r else r) (enumerate 0 rs)"

lemma length_mark [simp]: "length (mark_started S rs) = length rs"
  by (simp add: mark_started_def)

lemma nth_mark: "i < length rs \<Longrightarrow> mark_started S rs ! i = (if i \<in> S then started (rs ! i) else rs ! i)"
  by (simp add: mark_started_def nth_enumerate_eq)

lemma mark_update: "i < length rs \<Longrightarrow> mark_started S (rs[i := started (rs ! i)]) = mark_started (insert i S) rs"
  by (rule nth_equalityI) (auto simp: nth_mark nth_list_update started_def)

lemma mark_none: "mark_started {} rs = rs"
  by (rule nth_equalityI) (simp_all add: nth_mark)

lemma set_firsts: "set (firsts key xs) \<subseteq> set xs"
  by (induction key xs rule: firsts.induct) auto

lemma firsts_distinct: "distinct (map key (firsts key xs))"
proof (induction key xs rule: firsts.induct)
  case (2 key x xs)
  have "key x \<notin> key ` set (firsts key (filter (\<lambda>y. key y \<noteq> key x) xs))"
    using set_firsts[of key "filter (\<lambda>y. key y \<noteq> key x) xs"] by auto
  with 2 show ?case by simp
qed simp

lemma firsts_cong: "(\<And>x. x \<in> set xs \<Longrightarrow> f x = g x) \<Longrightarrow> firsts f xs = firsts g xs"
proof (induction f xs rule: firsts.induct)
  case (2 f x xs)
  have "filter (\<lambda>y. f y \<noteq> f x) xs = filter (\<lambda>y. g y \<noteq> g x) xs" using 2(2) by (intro filter_cong) auto
  moreover have "firsts f (filter (\<lambda>y. f y \<noteq> f x) xs) = firsts g (filter (\<lambda>y. f y \<noteq> f x) xs)"
    using 2 by (intro 2(1)) auto
  ultimately show ?case by simp
qed simp

section \<open>The loop\<close>

lemma thread_running_started:
  assumes "i < length rs" and "r_status (rs ! i) = ''pending''"
  shows "thread_running t (rs[i := started (rs ! i)]) \<longleftrightarrow> t = r_thread (rs ! i) \<or> thread_running t rs"
proof
  assume "thread_running t (rs[i := started (rs ! i)])"
  then obtain r where "r \<in> set (rs[i := started (rs ! i)])" "r_thread r = t" "r_status r = ''running''"
    by (auto simp: thread_running_def list_ex_iff)
  moreover from this(1) have "r = started (rs ! i) \<or> r \<in> set rs" using set_update_subset_insert by fastforce
  ultimately show "t = r_thread (rs ! i) \<or> thread_running t rs"
    by (auto simp: thread_running_def list_ex_iff started_def)
next
  assume t: "t = r_thread (rs ! i) \<or> thread_running t rs"
  have "started (rs ! i) \<in> set (rs[i := started (rs ! i)])" using assms(1) by (rule set_update_memI)
  then have "thread_running (r_thread (rs ! i)) (rs[i := started (rs ! i)])"
    by (auto simp: thread_running_def list_ex_iff started_def intro!: bexI[of _ "started (rs ! i)"])
  with t thread_running_update[OF assms] show "thread_running t (rs[i := started (rs ! i)])" by auto
qed

lemma start_all_spec:
  assumes "distinct is" and "\<forall>i\<in>set is. i < length (runs w) \<and> r_status (runs w ! i) = ''pending''"
  shows "map fst (fst (start_all is w)) = map (\<lambda>i. started (runs w ! i)) (chosen is w) \<and>
    (\<exists>c. snd (start_all is w) = w\<lparr>runs := mark_started (set (chosen is w)) (runs w), retry_counter := c\<rparr>)"
  using assms
proof (induction "is" arbitrary: w)
  case Nil
  show ?case by (intro conjI exI[of _ "retry_counter w"]) (simp_all add: chosen_def mark_none)
next
  case (Cons i "is")
  let ?t = "r_thread (runs w ! i)"
  have i: "i < length (runs w)" "r_status (runs w ! i) = ''pending''" "i \<notin> set is" using Cons.prems by simp_all
  show ?case
  proof (cases "find_thread ?t w \<noteq> None \<and> \<not> thread_running ?t (runs w)")
    case False
    then have "try_start i w = (None, w)" using i(2) by (auto simp: try_start_def Let_def)
    moreover have "chosen (i # is) w = chosen is w" using False by (auto simp: chosen_def Let_def)
    ultimately show ?thesis using Cons.IH[of w] Cons.prems by (simp add: case_prod_unfold)
  next
    case True
    define w1 where "w1 = snd (try_start i w)"
    obtain n c where start: "try_start i w = (Some (started (runs w ! i), n), w1)"
      and w1: "w1 = w\<lparr>retry_counter := c, runs := (runs w)[i := started (runs w ! i)]\<rparr>"
      using True i(2) that by (auto simp: try_start_def Let_def increment_retry_def w1_def started_def)
    have other: "runs w1 ! j = runs w ! j" if "j \<in> set is" for j
      using that i(3) by (cases "j = i") (simp_all add: w1)
    have running: "thread_running t (runs w1) \<longleftrightarrow> t = ?t \<or> thread_running t (runs w)" for t
      using thread_running_started[OF i(1,2), of t] by (simp add: w1)
    have found: "find_thread t w1 = find_thread t w" for t by (simp add: w1 find_thread_def)
    let ?free = "\<lambda>w j. find_thread (r_thread (runs w ! j)) w \<noteq> None \<and> \<not> thread_running (r_thread (runs w ! j)) (runs w)"
    have "filter (?free w1) is = filter (\<lambda>j. r_thread (runs w ! j) \<noteq> ?t) (filter (?free w) is)"
      unfolding filter_filter by (rule filter_cong) (auto simp: other running found)
    moreover have "chosen is w1 = firsts (\<lambda>j. r_thread (runs w ! j)) (filter (?free w1) is)"
      unfolding chosen_def Let_def by (rule firsts_cong) (auto simp: other)
    moreover have "chosen (i # is) w =
        i # firsts (\<lambda>j. r_thread (runs w ! j)) (filter (\<lambda>j. r_thread (runs w ! j) \<noteq> ?t) (filter (?free w) is))"
      using True by (simp add: chosen_def)
    ultimately have chosen: "chosen (i # is) w = i # chosen is w1" by simp
    have sub: "set (chosen is w1) \<subseteq> set is"
      unfolding chosen_def Let_def by (rule order_trans[OF set_firsts]) auto
    have "\<forall>j\<in>set is. j < length (runs w1) \<and> r_status (runs w1 ! j) = ''pending''"
      using Cons.prems(2) other by (simp add: w1)
    with Cons.IH[of w1] Cons.prems(1) obtain c' where
      IH: "map fst (fst (start_all is w1)) = map (\<lambda>j. started (runs w1 ! j)) (chosen is w1)"
        "snd (start_all is w1) = w1\<lparr>runs := mark_started (set (chosen is w1)) (runs w1), retry_counter := c'\<rparr>" by auto
    have "map (\<lambda>j. started (runs w1 ! j)) (chosen is w1) = map (\<lambda>j. started (runs w ! j)) (chosen is w1)"
      using sub other by (intro map_cong) auto
    moreover have "snd (start_all (i # is) w) =
        w\<lparr>runs := mark_started (set (chosen (i # is) w)) (runs w), retry_counter := c'\<rparr>"
      using IH(2) mark_update[OF i(1), of "set (chosen is w1)"]
      by (simp add: case_prod_unfold start chosen) (simp add: w1)
    ultimately show ?thesis using IH(1)
      by (intro conjI exI[of _ c']) (simp_all add: case_prod_unfold start chosen)
  qed
qed

text \<open>
  C2. \<open>Runs.next\<close> is one choice on the rows as they were. The runs it hands out are, in order of creation,
  those among the first \<open>limit\<close> due pending runs whose thread is stored and has no running run, and of
  each thread only the oldest; exactly their rows change, and only from \<open>pending\<close> to \<open>running\<close>; nothing
  else of the state changes but the retry counters.
\<close>

theorem next_meets_specification:
  "map fst (fst (runs_next now limit w)) =
     map (\<lambda>i. started (runs w ! i)) (chosen (take limit (pending_indices now (runs w))) w) \<and>
   (\<exists>c. snd (runs_next now limit w) =
     w\<lparr>runs := mark_started (set (chosen (take limit (pending_indices now (runs w))) w)) (runs w), retry_counter := c\<rparr>) \<and>
   distinct (map (\<lambda>i. r_thread (runs w ! i)) (chosen (take limit (pending_indices now (runs w))) w))"
proof -
  let ?is = "take limit (pending_indices now (runs w))"
  have "distinct (pending_indices now (runs w))"
    by (auto simp: pending_indices_def distinct_map inj_on_def in_set_enumerate_eq)
  then have "distinct ?is" by simp
  moreover have "\<forall>i\<in>set ?is. i < length (runs w) \<and> r_status (runs w ! i) = ''pending''"
    by (auto simp: set_pending_indices dest: in_set_takeD)
  ultimately have "map fst (fst (start_all ?is w)) = map (\<lambda>i. started (runs w ! i)) (chosen ?is w) \<and>
    (\<exists>c. snd (start_all ?is w) = w\<lparr>runs := mark_started (set (chosen ?is w)) (runs w), retry_counter := c\<rparr>)"
    by (rule start_all_spec)
  then show ?thesis by (simp add: runs_next_def chosen_def Let_def firsts_distinct)
qed

end
