(* ===== verification/Typing.thy ===== *)
theory Typing
  imports System
begin

text \<open>
  A type invariant of the rows: what the fields that the source types with \<open>Literal\<close> or with a
  positive number hold in every state that calls can reach, whatever the arguments of the calls.
\<close>

section \<open>Well-typed rows\<close>

text \<open>\<open>ThreadStatus\<close>; the interrupts of a thread are a dictionary once they are set.\<close>

definition thread_typed :: "thread \<Rightarrow> bool" where
  "thread_typed t \<longleftrightarrow>
     t_status t \<in> {''idle'', ''busy'', ''interrupted'', ''error''} \<and>
     (case t_interrupts t of None \<Rightarrow> True | Some (PDict d) \<Rightarrow> True | _ \<Rightarrow> False)"

definition world_typed :: "world \<Rightarrow> bool" where
  "world_typed w \<longleftrightarrow>
     (\<forall>t\<in>set (threads w). thread_typed t) \<and>
     (\<forall>a\<in>set (assistants w). 1 \<le> a_version a) \<and> (\<forall>v\<in>set (assistant_versions w). 1 \<le> v_version v) \<and>
     (\<forall>n\<in>snd ` set (retry_counter w). 1 \<le> n)"

lemma world_typed_frame [simp]:
  "world_typed (w\<lparr>runs := rs\<rparr>) = world_typed w" "world_typed (w\<lparr>crons := cs\<rparr>) = world_typed w"
  "world_typed (w\<lparr>thread_ttls := ttls\<rparr>) = world_typed w" "world_typed (w\<lparr>ckpt_saver := s\<rparr>) = world_typed w"
  "world_typed (w\<lparr>streams := sm\<rparr>) = world_typed w"
  by (simp_all add: world_typed_def)

lemma typed_init: "world_typed world_init"
  by (simp add: world_typed_def world_init_def)

lemma typed_threads:
  "world_typed w \<Longrightarrow> (\<And>t. t \<in> set ts \<Longrightarrow> thread_typed t) \<Longrightarrow> world_typed (w\<lparr>threads := ts\<rparr>)"
  by (simp add: world_typed_def)

lemma typed_thread: "world_typed w \<Longrightarrow> t \<in> set (threads w) \<Longrightarrow> thread_typed t"
  by (simp add: world_typed_def)

lemma typed_update_thread:
  "(\<And>t. thread_typed t \<Longrightarrow> thread_typed (f t)) \<Longrightarrow> world_typed w \<Longrightarrow> world_typed (update_thread tid f w)"
  unfolding update_thread_def by (intro typed_threads) (auto dest!: set_update_first intro: typed_thread)

lemma typed_new_thread: "thread_typed t \<Longrightarrow> world_typed w \<Longrightarrow> world_typed (w\<lparr>threads := threads w @ [t]\<rparr>)"
  by (intro typed_threads) (auto intro: typed_thread)

text \<open>Every way in which the code writes a thread row.\<close>

lemma thread_writes_typed [simp]:
  "thread_typed (default_state_updated t) = thread_typed t"
  "thread_typed t \<Longrightarrow> thread_typed (busy_thread q a now t)"
  "thread_typed t \<Longrightarrow> thread_typed (idle_thread now t)"
  "thread_typed (patched_thread metadata now t) = thread_typed t"
  "thread_typed (new_run_thread q a tid now)" "thread_typed (new_thread tid metadata now)"
  "thread_typed (copied_thread tid now t)"
  by (auto simp: thread_typed_def default_state_updated_def busy_thread_def idle_thread_def patched_thread_def
      new_run_thread_def new_thread_def copied_thread_def split: option.split)

lemma status_writes_typed:
  assumes "status \<in> {''idle'', ''busy'', ''interrupted'', ''error''}"
  shows "thread_typed (status_update patch now status checkpoint exn t)"
    and "thread_typed (joint_update patch now graph_id status checkpoint exn t)"
  using assms by (auto simp: thread_typed_def status_update_def joint_update_def interrupts_of_def split: option.split)

section \<open>Operations\<close>

lemma get_with_filters_typed: "world_typed w \<Longrightarrow> world_typed (snd (get_with_filters tid filters w))"
  by (auto simp: get_with_filters_def intro!: attempt_keeps[where P = world_typed] typed_update_thread split: option.split)

lemma filter_visible_typed: "world_typed w \<Longrightarrow> world_typed (snd (filter_visible filters is w))"
proof (induction "is" arbitrary: w)
  case (Cons i "is")
  from Cons.IH[OF get_with_filters_typed[OF Cons.prems]] get_with_filters_typed[OF Cons.prems] show ?case
    by (auto simp: case_prod_unfold intro!: attempt_keeps[where P = world_typed])
qed simp

lemma filter_runs_visible_typed: "world_typed w \<Longrightarrow> world_typed (snd (filter_runs_visible filters tid rs w))"
proof (induction rs arbitrary: w)
  case (Cons r rs)
  from Cons.IH[OF get_with_filters_typed[OF Cons.prems]] get_with_filters_typed[OF Cons.prems] show ?case
    by (auto simp: case_prod_unfold intro!: attempt_keeps[where P = world_typed])
qed simp

lemma check_all_visible_typed: "world_typed w \<Longrightarrow> world_typed (snd (check_all_visible filters tids w))"
proof (induction tids arbitrary: w)
  case (Cons tid tids)
  from Cons.IH[OF get_with_filters_typed[OF Cons.prems]] get_with_filters_typed[OF Cons.prems] show ?case
    by (auto simp: case_prod_unfold intro!: attempt_keeps[where P = world_typed])
qed simp

lemma collect_threads_typed: "\<forall>t\<in>set ts. thread_typed t \<Longrightarrow> \<forall>t\<in>set (snd (collect_threads P ts)). thread_typed t"
  by (induction ts) (auto simp: case_prod_unfold Let_def split: sum.split)

lemma values_update: "Q v \<Longrightarrow> \<forall>x\<in>snd ` set d. Q x \<Longrightarrow> \<forall>x\<in>snd ` set (AList.update k v d). Q x"
  by (induction d) auto

lemma increment_retry_typed:
  assumes "world_typed w"
  shows "world_typed (snd (increment_retry rid w))"
proof -
  have old: "\<forall>n\<in>snd ` set (retry_counter w). 1 \<le> n" using assms by (simp add: world_typed_def)
  have "1 \<le> n" if "map_of (retry_counter w) rid = Some n" for n
  proof -
    from map_of_SomeD[OF that] have "n \<in> snd ` set (retry_counter w)" by (rule image_eqI[rotated]) simp
    with old show ?thesis by blast
  qed
  then have new: "1 \<le> dget_default (retry_counter w) rid 0 + 1"
    by (cases "map_of (retry_counter w) rid") (simp_all add: dget_default_def add.commute add_increasing)
  then have "\<forall>n\<in>snd ` set (AList.update rid (dget_default (retry_counter w) rid 0 + 1) (retry_counter w)). 1 \<le> n"
    by (rule values_update[OF _ old])
  with assms show ?thesis by (simp add: increment_retry_def Let_def world_typed_def)
qed

lemma try_start_typed: "world_typed w \<Longrightarrow> world_typed (snd (try_start i w))"
  using increment_retry_typed[of w "r_id (runs w ! i)"] by (simp add: try_start_def Let_def case_prod_unfold)

lemma start_all_typed: "world_typed w \<Longrightarrow> world_typed (snd (start_all is w))"
  by (induction "is" arbitrary: w) (auto simp: case_prod_unfold try_start_typed)

lemma insert_run_typed: "world_typed w \<Longrightarrow> world_typed (snd (insert_run q a e tid now w))"
  by (simp add: insert_run_def Let_def attempt_keeps)

lemma runs_put_typed: "world_typed w \<Longrightarrow> world_typed (snd (runs_put A now fresh q w))"
  by (auto simp: runs_put_def Let_def split: option.split
      intro!: attempt_keeps[where P = world_typed] insert_run_typed typed_new_thread typed_update_thread)

lemma runs_get_typed: "world_typed w \<Longrightarrow> world_typed (snd (runs_get A rid tid w))"
  using get_with_filters_typed
  by (auto simp: runs_get_def case_prod_unfold intro!: attempt_keeps[where P = world_typed] split: option.split)

lemma runs_search_typed: "world_typed w \<Longrightarrow> world_typed (snd (runs_search A tid limit offset status w))"
  using filter_runs_visible_typed
  by (auto simp: runs_search_def Let_def case_prod_unfold intro!: attempt_keeps[where P = world_typed])

lemma delete_run_row_typed: "world_typed w \<Longrightarrow> world_typed (snd (delete_run_row E rid tid w))"
  by (simp add: delete_run_row_def Let_def)

lemma runs_delete_typed: "world_typed w \<Longrightarrow> world_typed (snd (runs_delete E A rid tid w))"
  using get_with_filters_typed delete_run_row_typed
  by (auto simp: runs_delete_def case_prod_unfold intro!: attempt_keeps[where P = world_typed])

lemma cancel_candidates_typed:
  "world_typed w \<Longrightarrow> world_typed (snd (cancel_candidates filters run_ids tid statuses aid w))"
  using get_with_filters_typed filter_visible_typed
  by (auto simp: cancel_candidates_def Let_def case_prod_unfold intro!: attempt_keeps[where P = world_typed] split: option.split)

lemma cancel_one_typed: "world_typed w \<Longrightarrow> world_typed (snd (snd (cancel_one action now tid i w)))"
  by (simp add: cancel_one_def Let_def case_prod_unfold typed_update_thread)

lemma cancel_each_typed: "world_typed w \<Longrightarrow> world_typed (snd (snd (cancel_each action now tid is w)))"
  by (induction "is" arbitrary: w) (auto simp: case_prod_unfold cancel_one_typed)

lemma gather_calls_typed: "world_typed w \<Longrightarrow> world_typed (snd (gather_calls E A ms action tid cs w))"
proof (induction cs arbitrary: w)
  case (Cons c cs)
  have "world_typed (snd (run_call E A ms action tid c w))"
    using Cons.prems runs_delete_typed by (auto simp: run_call_def case_prod_unfold split: cancel_call.split option.split)
  with Cons.IH show ?case by (simp add: case_prod_unfold)
qed simp

lemma runs_cancel_typed: "world_typed w \<Longrightarrow> world_typed (snd (runs_cancel E A now ms run_ids action tid status aid w))"
  unfolding runs_cancel_def
  by (auto simp: case_prod_unfold cancel_candidates_typed cancel_each_typed gather_calls_typed
      intro!: attempt_keeps[where P = world_typed])

section \<open>Operations on threads\<close>

lemma threads_search_typed:
  "world_typed w \<Longrightarrow> world_typed (snd (threads_search A ids metadata vals status limit offset sort_by sort_order w))"
  using collect_threads_typed[of "threads w"] typed_thread[of w]
  by (auto simp: threads_search_def Let_def case_prod_unfold intro!: attempt_keeps[where P = world_typed] typed_threads)

lemma threads_get_typed: "world_typed w \<Longrightarrow> world_typed (snd (threads_get cfg A tid include_ttl w))"
  using get_with_filters_typed
  by (auto simp: threads_get_def case_prod_unfold intro!: attempt_keeps[where P = world_typed] split: option.split)

lemma store_ttl_typed: "world_typed w \<Longrightarrow> world_typed (snd (store_ttl tid ttl x w))"
  by (simp add: store_ttl_def case_prod_unfold split: option.split)

lemma threads_put_typed: "world_typed w \<Longrightarrow> world_typed (snd (threads_put A now tid metadata if_exists ttl w))"
  by (auto simp: threads_put_def Let_def split: option.split
      intro!: attempt_keeps[where P = world_typed] store_ttl_typed typed_new_thread)

lemma threads_patch_typed: "world_typed w \<Longrightarrow> world_typed (snd (threads_patch A now tid metadata ttl w))"
  by (auto simp: threads_patch_def split: option.split
      intro!: attempt_keeps[where P = world_typed] store_ttl_typed typed_update_thread)

lemma threads_set_status_typed: "world_typed w \<Longrightarrow> world_typed (snd (threads_set_status patch now tid checkpoint exn w))"
  by (simp add: threads_set_status_def Let_def typed_update_thread status_writes_typed)

lemma threads_set_joint_status_typed:
  "world_typed w \<Longrightarrow>
   world_typed (snd (threads_set_joint_status E A patch now tid rid run_status graph_id checkpoint exn w))"
  using runs_delete_typed
  by (auto simp: threads_set_joint_status_def Let_def case_prod_unfold base_joint_status_def set_run_status_def
      intro!: attempt_keeps[where P = world_typed] typed_update_thread status_writes_typed)

lemma delete_thread_rows_typed: "world_typed w \<Longrightarrow> world_typed (delete_thread_rows E tid w)"
  using set_delete_first_subset[of "\<lambda>t. t_id t = tid" "threads w"] by (auto simp: delete_thread_rows_def world_typed_def)

lemma threads_delete_typed: "world_typed w \<Longrightarrow> world_typed (snd (threads_delete E A tid w))"
  by (auto simp: threads_delete_def delete_thread_rows_typed intro!: attempt_keeps[where P = world_typed] split: option.split)

lemma delete_each_typed: "world_typed w \<Longrightarrow> world_typed (snd (delete_each E A tids w))"
proof (induction tids arbitrary: w)
  case (Cons tid tids)
  obtain r w1 where r: "threads_delete E A tid w = (r, w1)" by fastforce
  with threads_delete_typed[OF Cons.prems, of E A tid] have w1: "world_typed w1" by simp
  show ?case
  proof (cases r)
    case (Inl e)
    with r w1 Cons.IH[OF w1] show ?thesis by (cases e) simp_all
  next
    case (Inr d)
    with r Cons.IH[OF w1] show ?thesis by (simp add: case_prod_unfold)
  qed
qed simp

lemma prune_batches_typed: "prune_batches E bs w = Some w' \<Longrightarrow> world_typed w' = world_typed w"
proof (induction bs arbitrary: w)
  case (Cons b bs)
  then obtain res s where "prune_batches E bs (w\<lparr>ckpt_saver := s\<rparr>) = Some w'" by (auto split: option.splits)
  from Cons.IH[OF this] show ?case by simp
qed simp

lemma threads_prune_typed:
  assumes "world_typed w" and ret: "threads_prune E A tids strategy batch_size w = Some (res, w')"
  shows "world_typed w'"
proof (cases "tids = [] \<or> (\<exists>e. A ''threads'' ''delete'' None = Inl e)")
  case True
  with assms show ?thesis by (auto simp: threads_prune_def split: if_splits)
next
  case False
  then obtain filters where A: "A ''threads'' ''delete'' None = Inr filters" and "tids \<noteq> []"
    by (cases "A ''threads'' ''delete'' None") auto
  obtain ok w1 where v: "(if truthy filters then check_all_visible filters tids w else (Inr True, w)) = (ok, w1)"
    by fastforce
  have w1: "world_typed w1" using assms(1) check_all_visible_typed[OF assms(1), of filters tids] v by (auto split: if_splits)
  show ?thesis
    using ret A \<open>tids \<noteq> []\<close> w1 delete_each_typed[OF w1, of E A tids] prune_batches_typed[of E _ w1]
    unfolding threads_prune_def Let_def by (auto simp: v split: sum.splits if_splits)
qed

lemma threads_copy_typed: "world_typed w \<Longrightarrow> world_typed (snd (threads_copy A now fresh tid w))"
proof -
  assume w: "world_typed w"
  have "world_typed (w\<lparr>threads := threads w @ [copied_thread fresh now t], thread_ttls := ttls, ckpt_saver := s\<rparr>)" for t ttls s
    using typed_new_thread[OF _ w, of "copied_thread fresh now t"] by simp
  with w show ?thesis
    by (auto simp: threads_copy_def Let_def intro!: attempt_keeps[where P = world_typed] split: option.split)
qed

lemma sweep_batch_typed: "world_typed w \<Longrightarrow> world_typed (snd (sweep_batch E xs n w))"
proof (induction xs arbitrary: n w)
  case (Cons x xs)
  obtain r w1 where r: "threads_delete E no_auth (ex_id x) w = (r, w1)" by fastforce
  with threads_delete_typed[OF Cons.prems, of E no_auth "ex_id x"] have "world_typed w1" by simp
  with Cons show ?case by (cases r) (simp_all add: r)
qed simp

lemma sweep_batches_typed: "world_typed w \<Longrightarrow> sweep_batches E bs n w = Some (res, w') \<Longrightarrow> world_typed w'"
proof (induction bs arbitrary: n w)
  case (Cons b bs)
  define keep where k: "keep = map ex_id (filter (\<lambda>x. ttl_strategy (ex_policy x) = ''keep_latest'') b)"
  note sw = Cons.prems(2)[unfolded sweep_batches.simps, folded k, unfolded Let_def]
  then obtain w1 where w1: "(if keep = [] then Some w else prune_batches E [keep] w) = Some w1"
    by (auto split: option.splits)
  then have t1: "world_typed w1"
    using Cons.prems(1) prune_batches_typed[of E "[keep]" w w1] by (cases "keep = []") simp_all
  obtain r w2 where r: "sweep_batch E b n w1 = (r, w2)" by fastforce
  have "world_typed w2" using sweep_batch_typed[OF t1, of E b n] r by simp
  with sw Cons.IH w1 r show ?case by (cases r) (simp_all add: w1)
qed simp

lemma threads_sweep_typed:
  assumes "world_typed w" and sw: "threads_sweep_ttl E cfg now limit batch_size w = Some (res, w')"
  shows "world_typed w'"
  using assms sweep_batches_typed[OF assms(1)]
  by (auto simp: threads_sweep_ttl_def Let_def split: if_splits sum.splits option.splits)

section \<open>Operations on assistants, crons and state\<close>

lemma typed_assistants:
  "world_typed w \<Longrightarrow> (\<And>a. a \<in> set as \<Longrightarrow> 1 \<le> a_version a) \<Longrightarrow> (\<And>v. v \<in> set vs \<Longrightarrow> 1 \<le> v_version v) \<Longrightarrow>
   world_typed (w\<lparr>assistants := as, assistant_versions := vs\<rparr>)"
  by (simp add: world_typed_def)

lemma typed_update_assistant:
  assumes "world_typed w" and "\<And>a. 1 \<le> a_version a \<Longrightarrow> 1 \<le> a_version (f a)"
  shows "world_typed (update_assistant aid f w)"
proof -
  have "1 \<le> a_version b" if b: "b \<in> set (update_first (\<lambda>a. a_id a = aid) f (assistants w))" for b
    using set_update_first[OF b] assms by (auto simp: world_typed_def)
  with assms(1) show ?thesis by (simp add: update_assistant_def world_typed_def)
qed

lemma next_version_positive:
  assumes "world_typed w" and "next_version aid w = Inr n"
  shows "1 \<le> n"
proof (cases "versions_of aid w")
  case Nil
  with assms(2) show ?thesis by (simp add: next_version_def split: if_splits)
next
  case (Cons v vs)
  then have "v \<in> set (versions_of aid w)" by simp
  with assms(1) have "1 \<le> v" by (auto simp: versions_of_def world_typed_def)
  with fold_max_ge[of v v vs] Cons assms(2) show ?thesis by (simp add: next_version_def split: if_splits)
qed

lemma assistants_put_typed: "world_typed w \<Longrightarrow> world_typed (snd (assistants_put A G now aid q if_exists w))"
proof -
  assume w: "world_typed w"
  then have "world_typed (w\<lparr>assistants := assistants w @ [new_assistant aid q now],
      assistant_versions := assistant_versions w @ [version_of (new_assistant aid q now) now]\<rparr>)"
    by (intro typed_assistants[OF w]) (auto simp: world_typed_def new_assistant_def version_of_def case_prod_unfold)
  with w show ?thesis
    by (auto simp: assistants_put_def Let_def intro!: attempt_keeps[where P = world_typed] split: option.split)
qed

lemma assistants_patch_typed:
  assumes w: "world_typed w"
  shows "world_typed (snd (assistants_patch A G now aid p w))"
proof -
  have "world_typed ((update_assistant aid (patched_assistant p n now) w)
      \<lparr>assistant_versions := assistant_versions w @ [version_of (patched_assistant p n now a) now]\<rparr>)"
    if "next_version aid w = Inr n" for n a
  proof -
    have n: "1 \<le> n" by (rule next_version_positive[OF w that])
    then have "world_typed (update_assistant aid (patched_assistant p n now) w)"
      by (intro typed_update_assistant[OF w]) (simp add: patched_assistant_def case_prod_unfold)
    with n w show ?thesis by (auto simp: world_typed_def version_of_def patched_assistant_def case_prod_unfold)
  qed
  with w show ?thesis
    by (auto simp: assistants_patch_def Let_def intro!: attempt_keeps[where P = world_typed] split: option.split)
qed

lemma assistants_set_latest_typed: "world_typed w \<Longrightarrow> world_typed (snd (assistants_set_latest A now aid n w))"
proof -
  assume w: "world_typed w"
  have "world_typed (update_assistant aid (restored_assistant v now) w)"
    if "find (\<lambda>v. v_assistant v = aid \<and> v_version v = n) (assistant_versions w) = Some v" for v
    using w find_SomeD[OF that] by (intro typed_update_assistant[OF w]) (auto simp: restored_assistant_def world_typed_def)
  with w show ?thesis
    by (auto simp: assistants_set_latest_def intro!: attempt_keeps[where P = world_typed] split: option.split)
qed

lemma assistants_delete_typed: "world_typed w \<Longrightarrow> world_typed (snd (assistants_delete E A now ms aid delete_threads w))"
proof -
  assume w: "world_typed w"
  have rows: "world_typed (delete_assistant_rows aid v)" if "world_typed v" for v
    using that by (simp add: delete_assistant_rows_def world_typed_def)
  have "world_typed (snd (if delete_threads then delete_each E A (threads_of_assistant aid w) w else (Inr 0, w)))"
    using delete_each_typed w by simp
  with w show ?thesis
    by (auto simp: assistants_delete_def case_prod_unfold runs_cancel_typed rows
        intro!: attempt_keeps[where P = world_typed] split: option.split)
qed

lemma crons_typed:
  assumes "world_typed w"
  shows "world_typed (snd (crons_put C A now cid cq w))" and "world_typed (snd (crons_modify C A now cid u w))"
    and "world_typed (snd (crons_delete A cid w))" and "world_typed (crons_set_next_run_date cid date w)"
  using assms get_with_filters_typed
  by (auto simp: crons_put_def crons_modify_def crons_delete_def crons_set_next_run_date_def update_cron_def Let_def case_prod_unfold
      intro!: attempt_keeps[where P = world_typed] split: option.split)

lemma state_reads_typed:
  assumes "world_typed w"
  shows "world_typed (snd (state_get A cfg H config subgraphs w))"
    and "world_typed (snd (state_list A cfg H config limit before metadata w))"
    and "world_typed (snd (check_stream_auth A tid w))"
  using threads_get_typed[OF assms] get_with_filters_typed[OF assms] assms
  by (auto simp: state_get_def state_list_def check_stream_auth_def case_prod_unfold
      intro!: attempt_keeps[where P = world_typed] split: option.split)

lemma record_update_typed: "world_typed w \<Longrightarrow> world_typed (snd (record_update A cfg G now ms config tid w))"
  using state_reads_typed(1) threads_set_status_typed
  by (auto simp: record_update_def case_prod_unfold intro!: attempt_keeps[where P = world_typed])

lemma state_writes_typed:
  assumes "world_typed w"
  shows "world_typed (snd (state_post A cfg H now ms config vals as_node w))"
    and "world_typed (snd (state_bulk A cfg H now ms config supersteps w))"
  using threads_get_typed[OF assms] record_update_typed assms
  by (auto simp: state_post_def state_bulk_def case_prod_unfold Let_def
      intro!: attempt_keeps[where P = world_typed] split: option.split)

section \<open>Every reachable state\<close>

lemma connection_clear_typed: "world_typed w \<Longrightarrow> world_typed (connection_clear w)"
  by (simp add: connection_clear_def global_store_clear_def world_typed_def)

lemma system_step_typed:
  assumes step: "system_step E cfg C w w'" and typed: "world_typed w"
  shows "world_typed w'"
  using step
proof (cases rule: system_step.cases)
  case (threads_prune A tids strategy batch_size res)
  with typed threads_prune_typed show ?thesis by simp
next
  case (threads_sweep now limit batch_size swept)
  with typed threads_sweep_typed show ?thesis by simp
qed (use typed in \<open>simp_all add: runs_next_def start_all_typed runs_put_typed runs_get_typed runs_delete_typed
    runs_cancel_typed runs_search_typed runs_set_status_def threads_search_typed threads_get_typed threads_put_typed
    threads_patch_typed threads_set_status_typed threads_set_joint_status_typed threads_delete_typed
    threads_copy_typed assistants_put_typed assistants_patch_typed assistants_set_latest_typed
    assistants_delete_typed crons_typed connection_clear_typed state_reads_typed state_writes_typed\<close>)

interpretation typing: inductive_invariant world_init "system_step E cfg C" world_typed for E cfg C
  by unfold_locales (auto intro: typed_init system_step_typed)

lemma reachable_typed: "reachable E cfg C w \<Longrightarrow> world_typed w"
  unfolding reachable_steps by (rule typing.good_reachable)

text \<open>
  C24. Every row keeps its type. In every state that calls can reach, whatever their arguments and
  whatever the base saver does, a thread has one of the four thread statuses and its interrupts, once
  set, are a dictionary; assistants and their stored versions carry a positive version number, and a
  started run has a positive attempt number.
\<close>

theorem reachable_rows_typed:
  assumes "reachable E cfg C w"
  shows "(\<forall>t\<in>set (threads w). t_status t \<in> {''idle'', ''busy'', ''interrupted'', ''error''} \<and>
       (\<forall>x. t_interrupts t = Some x \<longrightarrow> (\<exists>d. x = PDict d))) \<and>
    (\<forall>a\<in>set (assistants w). 1 \<le> a_version a) \<and> (\<forall>v\<in>set (assistant_versions w). 1 \<le> v_version v) \<and>
    (\<forall>rid n. map_of (retry_counter w) rid = Some n \<longrightarrow> 1 \<le> n)"
proof -
  note typed = reachable_typed[OF assms, unfolded world_typed_def]
  have "t_status t \<in> {''idle'', ''busy'', ''interrupted'', ''error''} \<and>
      (\<forall>x. t_interrupts t = Some x \<longrightarrow> (\<exists>d. x = PDict d))" if "t \<in> set (threads w)" for t
  proof -
    have t: "thread_typed t" using typed that by blast
    moreover have "\<exists>d. x = PDict d" if "t_interrupts t = Some x" for x
      using t that by (cases x) (simp_all add: thread_typed_def)
    ultimately show ?thesis by (simp add: thread_typed_def)
  qed
  moreover have "1 \<le> n" if "map_of (retry_counter w) rid = Some n" for rid n
    using typed image_eqI[of n snd, OF _ map_of_SomeD[OF that]] by (elim conjE) auto
  ultimately show ?thesis using typed by blast
qed

theorem reachable_rows_typed_witness:
  "t_status (hd (threads (snd (threads_put no_auth 1 ''t'' [] ''raise'' None world_init)))) \<in>
     {''idle'', ''busy'', ''interrupted'', ''error''} \<and>
   map t_status (threads (snd (threads_put no_auth 1 ''t'' [] ''raise'' None world_init))) = [''idle'']"
proof -
  have one: "map t_status (threads (snd (threads_put no_auth 1 ''t'' [] ''raise'' None world_init))) = [''idle'']" by code_simp
  then have "hd (threads (snd (threads_put no_auth 1 ''t'' [] ''raise'' None world_init))) \<in>
      set (threads (snd (threads_put no_auth 1 ''t'' [] ''raise'' None world_init)))" by (intro hd_in_set) auto
  with reachable_rows_typed[OF demo_reachable] one show ?thesis by blast
qed

end
