(* ===== verification/Checkpoint_Reads.thy ===== *)
theory Checkpoint_Reads
  imports Checkpoint_Saver
begin

text \<open>
  The reading side of the patched \<open>InMemorySaver\<close> (\<open>checkpoint.py\<close>): the asynchronous reads, which
  decrypt the metadata of a checkpoint, and the estimates other parts read. What the base class finds
  (\<open>get_tuple\<close>, \<open>list\<close>) is an argument, and so is the decryption of the API server; no decryption is
  configured when it is \<open>None\<close>.
\<close>

record checkpoint_tuple =
  ct_config :: pdict
  ct_checkpoint :: pyval
  ct_metadata :: pdict
  ct_parent :: "pdict option"
  ct_writes :: pyval

type_synonym decryption = "(pdict \<Rightarrow> pdict option res) option"

section \<open>Estimates\<close>

definition estimated_size_bytes :: "saver \<Rightarrow> int" where
  "estimated_size_bytes s = ss_total_bytes (sizes s)"

definition estimated_checkpoint_count :: "saver \<Rightarrow> int" where
  "estimated_checkpoint_count s = ss_total_checkpoints (sizes s)"

definition estimated_size_for_thread :: "uuid \<Rightarrow> saver \<Rightarrow> int" where
  "estimated_size_for_thread tid s = thread_bytes (sizes s) tid"

definition estimated_checkpoint_count_for_thread :: "uuid \<Rightarrow> saver \<Rightarrow> int" where
  "estimated_checkpoint_count_for_thread tid s = thread_checkpoints (sizes s) tid"

section \<open>Decryption\<close>

definition decrypt_json :: "decryption \<Rightarrow> pdict \<Rightarrow> pdict res" where
  "decrypt_json D data =
     (case D of
        None \<Rightarrow> Inr data
      | Some decrypt_if_needed \<Rightarrow>
          bind_res (decrypt_if_needed data) (\<lambda>result. case result of None \<Rightarrow> Inl value_error | Some d \<Rightarrow> Inr d))"

definition decrypted_tuple :: "decryption \<Rightarrow> checkpoint_tuple \<Rightarrow> checkpoint_tuple res" where
  "decrypted_tuple D t =
     bind_res (decrypt_json D (ct_metadata t)) (\<lambda>metadata.
       Inr \<lparr>ct_config = ct_config t, ct_checkpoint = ct_checkpoint t, ct_metadata = metadata,
            ct_parent = ct_parent t, ct_writes = ct_writes t\<rparr>)"

definition aget_tuple ::
  "decryption \<Rightarrow> (pdict \<Rightarrow> checkpoint_tuple option res) \<Rightarrow> pdict \<Rightarrow> checkpoint_tuple option res" where
  "aget_tuple D get_tuple config =
     bind_res (get_tuple config) (\<lambda>found.
       case found of
         None \<Rightarrow> Inr None
       | Some t \<Rightarrow> bind_res (decrypted_tuple D t) (\<lambda>t'. Inr (Some t')))"

text \<open>An asynchronous generator: what it yields until it ends, and the exception it ends with.\<close>

fun yield_decrypted :: "decryption \<Rightarrow> checkpoint_tuple list \<Rightarrow> checkpoint_tuple list \<times> exc option" where
  "yield_decrypted D [] = ([], None)"
| "yield_decrypted D (t # ts) =
     (case decrypted_tuple D t of
        Inl e \<Rightarrow> ([], Some e)
      | Inr t' \<Rightarrow> (case yield_decrypted D ts of (ts', e) \<Rightarrow> (t' # ts', e)))"

record list_request =
  lr_config :: "pdict option"
  lr_filter :: "pdict option"
  lr_before :: "pdict option"
  lr_limit :: "nat option"

definition alist ::
  "decryption \<Rightarrow> (list_request \<Rightarrow> checkpoint_tuple list) \<Rightarrow> list_request \<Rightarrow> checkpoint_tuple list \<times> exc option" where
  "alist D list_tuples q = yield_decrypted D (list_tuples q)"

definition aget_iter ::
  "decryption \<Rightarrow> (pdict \<Rightarrow> checkpoint_tuple option res) \<Rightarrow> pdict \<Rightarrow> checkpoint_tuple list \<times> exc option" where
  "aget_iter D get_tuple config =
     (case aget_tuple D get_tuple config of
        Inl e \<Rightarrow> ([], Some e)
      | Inr None \<Rightarrow> ([], None)
      | Inr (Some t) \<Rightarrow> ([t], None))"

section \<open>What reads return\<close>

lemma decrypted_tuple_fields:
  "decrypted_tuple D t = Inr t' \<Longrightarrow>
   decrypt_json D (ct_metadata t) = Inr (ct_metadata t') \<and> t' = t\<lparr>ct_metadata := ct_metadata t'\<rparr>"
  by (cases "decrypt_json D (ct_metadata t)") (auto simp: decrypted_tuple_def bind_res_def)

lemma decrypted_tuple_off: "decrypted_tuple None t = Inr t"
  by (simp add: decrypted_tuple_def decrypt_json_def)

lemma aget_tuple_off: "aget_tuple None get_tuple config = get_tuple config"
  by (auto simp: aget_tuple_def decrypted_tuple_off bind_res_def split: sum.split option.split)

lemma yield_decrypted_exact:
  assumes "yield_decrypted D us = (ts, e)"
  shows "length ts \<le> length us \<and> (\<forall>i < length ts. decrypted_tuple D (us ! i) = Inr (ts ! i)) \<and>
   (case e of
      None \<Rightarrow> length ts = length us
    | Some x \<Rightarrow> length ts < length us \<and> decrypted_tuple D (us ! length ts) = Inl x)"
  using assms
proof (induction us arbitrary: ts)
  case (Cons u us)
  show ?case
  proof (cases "decrypted_tuple D u")
    case (Inl x)
    with Cons.prems show ?thesis by auto
  next
    case (Inr t)
    obtain ts' where ts': "yield_decrypted D us = (ts', e)" "ts = t # ts'"
      using Cons.prems Inr by (auto split: prod.splits)
    from Cons.IH[OF ts'(1)] Inr ts'(2) show ?thesis
      by (auto simp: nth_Cons split: nat.splits option.splits)
  qed
qed simp

text \<open>
  A history is read up to the first checkpoint whose metadata cannot be decrypted. The generator
  yields the checkpoints of the base class in their order, nothing but their metadata is changed and each has
  its own decrypted metadata; it ends with an exception exactly when the next one cannot be decrypted.
\<close>

theorem alist_exact:
  assumes "alist D list_tuples q = (ts, e)"
  shows "length ts \<le> length (list_tuples q) \<and>
   (\<forall>i < length ts. decrypted_tuple D (list_tuples q ! i) = Inr (ts ! i)) \<and>
   (case e of
      None \<Rightarrow> length ts = length (list_tuples q)
    | Some x \<Rightarrow> length ts < length (list_tuples q) \<and> decrypted_tuple D (list_tuples q ! length ts) = Inl x)"
  using yield_decrypted_exact[OF assms[unfolded alist_def]] .

definition demo_tuple :: "string \<Rightarrow> checkpoint_tuple" where
  "demo_tuple key = \<lparr>ct_config = [], ct_checkpoint = PNone, ct_metadata = [(key, PNone)], ct_parent = None, ct_writes = PList []\<rparr>"

text \<open>A decryption that answers nothing for the key \<open>lost\<close>: the read ends before that checkpoint.\<close>

theorem alist_exact_witness:
  "map ct_metadata (fst (alist (Some (\<lambda>d. Inr (if map_of d ''lost'' = None then Some (AList.update ''seen'' PNone d) else None)))
     (\<lambda>q. [demo_tuple ''a'', demo_tuple ''lost'', demo_tuple ''b'']) \<lparr>lr_config = None, lr_filter = None, lr_before = None, lr_limit = None\<rparr>))
   = [[(''a'', PNone), (''seen'', PNone)]]"
proof -
  let ?D = "Some (\<lambda>d. Inr (if map_of d ''lost'' = None then Some (AList.update ''seen'' PNone d) else None)) :: decryption"
  let ?q = "\<lparr>lr_config = None, lr_filter = None, lr_before = None, lr_limit = None\<rparr>"
  let ?l = "\<lambda>q. [demo_tuple ''a'', demo_tuple ''lost'', demo_tuple ''b'']"
  obtain ts e where r: "alist ?D ?l ?q = (ts, e)" by fastforce
  have e: "snd (alist ?D ?l ?q) = Some value_error" and n: "length (fst (alist ?D ?l ?q)) = 1" by code_simp+
  from alist_exact[OF r] n r have a: "decrypted_tuple ?D (demo_tuple ''a'') = Inr (ts ! 0)" by auto
  have "ct_metadata (ts ! 0) = [(''a'', PNone), (''seen'', PNone)]"
    using arg_cong[where f = "\<lambda>x. case x of Inr y \<Rightarrow> ct_metadata y | Inl z \<Rightarrow> []", OF a]
    by (simp add: decrypted_tuple_def decrypt_json_def demo_tuple_def dict_simps)
  moreover have "ts = [ts ! 0]" using n r by (cases ts) auto
  ultimately show ?thesis using r by (metis (no_types) fst_conv list.simps(8) list.simps(9))
qed

end
