(* ===== verification/Defects.thy ===== *)
theory Defects
  imports System
begin

text \<open>
  Behaviours of the operations of \<open>ops.py\<close> that the code hardly intends, each as a theorem about every
  state in which it shows, with a state in which it does.
\<close>

section \<open>Cancellation\<close>

text \<open>
  Cancelling one of several runs makes a busy thread idle. When a pending run is cancelled on a thread
  with a running run, that run goes on, and the thread is \<open>idle\<close> all the same.
\<close>

theorem cancelling_idles_busy_thread:
  assumes "i < length (runs w)" and "r_status (runs w ! i) = ''pending''" and "action \<noteq> ''rollback''"
    and "j < length (runs w)" and "r_status (runs w ! j) = ''running''"
    and "find_thread (r_thread (runs w ! i)) w = Some t"
  shows "find_thread (r_thread (runs w ! i)) (snd (snd (cancel_one action now tid i w))) = Some (idle_thread now t) \<and>
    runs (snd (snd (cancel_one action now tid i w))) ! j = runs w ! j"
proof -
  have "i \<noteq> j" using assms(2,5) by auto
  then have "runs (snd (snd (cancel_one action now tid i w))) ! j = runs w ! j"
    using assms(2,3) by (simp add: cancel_one_def Let_def case_prod_unfold is_active_def)
  moreover have "find_thread (r_thread (runs w ! i)) (snd (snd (cancel_one action now tid i w))) =
      find_thread (r_thread (runs w ! i)) (update_thread (r_thread (runs w ! i)) (idle_thread now) w)"
    using assms(2,3) by (simp add: cancel_one_def Let_def case_prod_unfold is_active_def find_thread_def update_thread_def)
  ultimately show ?thesis using assms(6) by (simp add: thread_table.lookup_update)
qed

definition demo_two_runs :: world where
  "demo_two_runs = world_init\<lparr>threads := [demo_thread ''t'' ''busy''],
     runs := [demo_run ''r1'' ''t'' ''running'' 1, demo_run ''r2'' ''t'' ''pending'' 2]\<rparr>"

theorem cancelling_idles_busy_thread_witness:
  "map_option t_status (find_thread ''t'' (snd (snd (cancel_one ''interrupt'' 9 (Some ''t'') 1 demo_two_runs)))) = Some ''idle'' \<and>
   r_status (runs (snd (snd (cancel_one ''interrupt'' 9 (Some ''t'') 1 demo_two_runs))) ! 0) = ''running''"
  using cancelling_idles_busy_thread[of 1 demo_two_runs "''interrupt''" 0 "demo_thread ''t'' ''busy''" 9 "Some ''t''"]
  by (simp add: demo_two_runs_def demo_run_def demo_thread_def find_thread_def idle_thread_def)

text \<open>
  A new subscriber takes the cancellation away from the worker. What waits in the control queues of a
  run, its worker's queue among them, moves to the queue of whoever subscribes to the run.
\<close>

theorem subscriber_takes_control_messages:
  assumes "sm_wf sm" and "q \<in> set (dd_get (sm_control_queues sm) (thread_key tid) rid)"
  shows "contents (snd (stream_subscribe rid tid sm)) q = [] \<and>
    contents (snd (stream_subscribe rid tid sm)) (fst (stream_subscribe rid tid sm)) =
      concat (map (contents sm) (dd_get (sm_control_queues sm) (thread_key tid) rid))"
proof -
  have "next_queue sm \<notin> set (dd_get (sm_control_queues sm) (thread_key tid) rid)" by (rule fresh_control[OF assms(1)])
  moreover have "fst (stream_subscribe rid tid sm) = next_queue sm"
    by (simp add: stream_subscribe_def case_prod_unfold add_queue_fields)
  ultimately show ?thesis using assms by (simp add: subscribe_eq)
qed

section \<open>Deletion and versions\<close>

text \<open>
  Deleting a run that is not there deletes checkpoints. The checkpoints that carry the identifier in
  their metadata are gone before the missing run is reported.
\<close>

theorem delete_of_unknown_run_deletes_checkpoints:
  assumes "find_run rid tid w = None"
  shows "runs_delete E no_auth rid tid w =
    (Inl (HTTPException 404), w\<lparr>ckpt_saver := delete_run_checkpoints E tid rid (ckpt_saver w)\<rparr>)"
  using assms by (simp add: runs_delete_def delete_run_row_def no_auth_def Let_def find_run_def)

text \<open>
  An assistant that lost its versions cannot be patched. Clearing the store keeps system assistants
  without their versions; as soon as another assistant is created, every patch of one raises.
\<close>

theorem patch_without_versions_raises:
  assumes "find_assistant aid w = Some a" and "versions_of aid w = []" and "assistant_versions w \<noteq> []"
    and "\<not> context_clash (ap_config p) (ap_context p)"
  shows "assistants_patch no_auth any_graph now aid p w = (Inl value_error, w)"
  using assms
  by (simp add: assistants_patch_def no_auth_def next_version_def any_graph_def check_graph_def split: option.split)

theorem patch_without_versions_raises_witness:
  "\<exists>w. reachable demo_env cfg demo_cron_env w \<and>
     assistants_patch no_auth any_graph 5 ''s'' (demo_patch ''h'') w = (Inl value_error, w)"
proof -
  let ?system = "(demo_request ''g'')\<lparr>aq_metadata := [(''created_by'', PStr ''system'')]\<rparr>"
  let ?w1 = "snd (assistants_put no_auth any_graph 1 ''s'' ?system ''raise'' world_init)"
  let ?w = "snd (assistants_put no_auth any_graph 2 ''a'' (demo_request ''g'') ''raise'' (connection_clear ?w1))"
  have reach: "reachable demo_env cfg demo_cron_env ?w"
    by (intro reachable.step[OF reachable.step[OF reachable.step[OF reachable.start]]])
      (rule system_step.assistants_put system_step.clear)+
  have "map_option a_id (find_assistant ''s'' ?w) = Some ''s''" by code_simp
  then obtain a where a: "find_assistant ''s'' ?w = Some a" by auto
  have v: "versions_of ''s'' ?w = []" "map v_version (assistant_versions ?w) = [1]"
    and c: "\<not> context_clash (ap_config (demo_patch ''h'')) (ap_context (demo_patch ''h''))" by code_simp+
  from v(2) have "assistant_versions ?w \<noteq> []" by auto
  from patch_without_versions_raises[OF a v(1) this c, of 5] reach show ?thesis by blast
qed

section \<open>Containment\<close>

text \<open>Lists are compared by equality, unlike in the containment of Postgres.\<close>

lemma lists_are_not_contained:
  "is_jsonb_contained (PDict [(''tags'', PList [PInt 1, PInt 2])]) [(''tags'', PList [PInt 1])] = Inr False"
  by code_simp

end
