(* ===== verification/Projection.thy ===== *)
theory Projection
  imports State
begin

text \<open>
  What searches of \<open>ops.py\<close> yield of the rows they found: the columns the caller selects, and for threads the
  values at paths it asks for. A row is a record here; \<open>F\<close> is its dictionary (an absent column is not
  in it, a time is what the caller of the API sees), and \<open>X\<close> is \<open>extract_path_value\<close> of the API server. The
  generators read the rows when they are iterated; here that is right after the search.
\<close>

definition project :: "string list \<Rightarrow> pdict \<Rightarrow> pdict" where
  "project select row = (if select = [] then row else filter (\<lambda>(k, v). k \<in> set select) row)"

definition assistant_iterator :: "(assistant \<Rightarrow> pdict) \<Rightarrow> string list \<Rightarrow> assistant list \<Rightarrow> pdict list" where
  "assistant_iterator F select rows = map (\<lambda>a. project select (F a)) rows"

definition run_iterator :: "(run \<Rightarrow> pdict) \<Rightarrow> string list \<Rightarrow> run list \<Rightarrow> pdict list" where
  "run_iterator F select rows = map (\<lambda>r. project select (F r)) rows"

definition cron_iterator :: "(cron \<Rightarrow> pdict) \<Rightarrow> string list \<Rightarrow> cron list \<Rightarrow> pdict list" where
  "cron_iterator F select rows = map (\<lambda>c. project select (F c)) rows"

text \<open>\<open>extract\<close> maps an alias to a path; the paths are read in the whole row, not in the selected columns.\<close>

definition extracted :: "(pdict \<Rightarrow> string \<Rightarrow> pyval) \<Rightarrow> (string, string) dict \<Rightarrow> pdict \<Rightarrow> pdict" where
  "extracted X extract row = map (\<lambda>(alias, path). (alias, X row path)) extract"

definition thread_iterator ::
  "(thread \<Rightarrow> pdict) \<Rightarrow> (pdict \<Rightarrow> string \<Rightarrow> pyval) \<Rightarrow> string list \<Rightarrow> (string, string) dict \<Rightarrow> thread list \<Rightarrow> pdict list" where
  "thread_iterator F X select extract rows =
     map (\<lambda>t. let row = project select (F t)
              in if extract = [] then row
                 else AList.update ''extracted'' (PDict (extracted X extract (F t))) row) rows"

section \<open>Columns\<close>

lemma project_lookup:
  "map_of (project select row) k = (if select = [] \<or> k \<in> set select then map_of row k else None)"
  by (simp add: project_def map_of_filter_key)

lemma project_wf: "wf_dict row \<Longrightarrow> wf_dict (project select row)"
  by (auto simp: project_def wf_dict_def distinct_map_filter)

text \<open>Selecting twice is selecting the common columns.\<close>

lemma project_project:
  "select \<noteq> [] \<Longrightarrow> select' \<noteq> [] \<Longrightarrow>
   project select (project select' row) = filter (\<lambda>(k, v). k \<in> set select \<inter> set select') row"
  by (auto simp: project_def intro: filter_cong)

text \<open>
  A result of a thread search. It has a column exactly if the column is selected and in the row, with the
  row's value; \<open>extracted\<close>, when paths are asked for, replaces a column of that name and holds for each
  alias the value at its path in the whole row, whatever is selected.
\<close>

theorem thread_results_exact:
  assumes "i < length rows"
  shows "length (thread_iterator F X select extract rows) = length rows \<and>
   map_of (thread_iterator F X select extract rows ! i) k =
     (if k = ''extracted'' \<and> extract \<noteq> []
      then Some (PDict (map (\<lambda>(alias, path). (alias, X (F (rows ! i)) path)) extract))
      else if select = [] \<or> k \<in> set select then map_of (F (rows ! i)) k else None)"
  using assms by (simp add: thread_iterator_def Let_def extracted_def project_lookup map_of_update)

theorem thread_results_exact_witness:
  "map_of (hd (thread_iterator (\<lambda>t. [(''thread_id'', PStr (t_id t)), (''status'', PStr (t_status t))]) (\<lambda>row path. dget_default row path PNone)
     [''thread_id''] [(''s'', ''status'')] [demo_thread ''t'' ''idle''])) ''extracted'' = Some (PDict [(''s'', PStr ''idle'')])"
  using thread_results_exact[of 0 "[demo_thread ''t'' ''idle'']" "\<lambda>t. [(''thread_id'', PStr (t_id t)), (''status'', PStr (t_status t))]"
      "\<lambda>row path. dget_default row path PNone" "[''thread_id'']" "[(''s'', ''status'')]" "''extracted''"]
  by (auto simp: demo_thread_def dget_default_def hd_conv_nth thread_iterator_def)

end
