(* ===== verification/Busy_Threads.thy ===== *)
theory Busy_Threads
  imports System
begin

text \<open>
  The status of a thread and the runs on it: as long as no run is cancelled and no finished run is made
  active again, a thread with an active run is \<open>busy\<close>. That cancelling breaks this is in \<open>Defects\<close>.
\<close>

section \<open>The invariant\<close>

definition busy_inv :: "world \<Rightarrow> bool" where
  "busy_inv w \<longleftrightarrow>
     (\<forall>t\<in>set (threads w). \<forall>r\<in>set (runs w). r_thread r = t_id t \<longrightarrow> is_active (r_status r) \<longrightarrow> t_status t = ''busy'')"

definition calm :: "world \<Rightarrow> bool" where
  "calm w \<longleftrightarrow> world_inv w \<and> busy_inv w"

lemma calmD: "calm w \<Longrightarrow> world_inv w" "calm w \<Longrightarrow> busy_inv w"
  by (simp_all add: calm_def)

lemma busy_frame [simp]:
  "busy_inv (w\<lparr>crons := cs\<rparr>) = busy_inv w" "busy_inv (w\<lparr>thread_ttls := ttls\<rparr>) = busy_inv w"
  "busy_inv (w\<lparr>ckpt_saver := s\<rparr>) = busy_inv w" "busy_inv (w\<lparr>streams := sm\<rparr>) = busy_inv w"
  "busy_inv (w\<lparr>retry_counter := c\<rparr>) = busy_inv w" "busy_inv (w\<lparr>assistants := as\<rparr>) = busy_inv w"
  "busy_inv (w\<lparr>assistant_versions := vs\<rparr>) = busy_inv w"
  by (simp_all add: busy_inv_def)

lemma busy_init: "busy_inv world_init"
  by (simp add: busy_inv_def world_init_def)

text \<open>Rows may disappear, and runs may become inactive.\<close>

lemma busy_shrink:
  assumes "busy_inv w" and "set (threads w') \<subseteq> set (threads w)"
    and "\<And>r'. r' \<in> set (runs w') \<Longrightarrow> is_active (r_status r') \<Longrightarrow>
      \<exists>r\<in>set (runs w). r_thread r = r_thread r' \<and> is_active (r_status r)"
  shows "busy_inv w'"
  using assms unfolding busy_inv_def by (metis subsetD)

lemma busy_runs_subset: "busy_inv w \<Longrightarrow> set rs \<subseteq> set (runs w) \<Longrightarrow> busy_inv (w\<lparr>runs := rs\<rparr>)"
  by (rule busy_shrink[of w]) auto

text \<open>Updates of a thread that keep its status, make it busy, or are allowed because it has no active run.\<close>

lemma busy_update:
  assumes inv: "world_inv w" and busy: "busy_inv w" and id: "\<And>t. t_id (f t) = t_id t"
    and ok: "\<And>t. t \<in> set (threads w) \<Longrightarrow> t_id t = tid \<Longrightarrow>
      t_status (f t) = ''busy'' \<or> t_status (f t) = t_status t \<or> \<not> has_active_runs tid w"
  shows "busy_inv (update_thread tid f w)"
  unfolding busy_inv_def
proof (intro ballI impI)
  fix t r
  assume t: "t \<in> set (threads (update_thread tid f w))" and r: "r \<in> set (runs (update_thread tid f w))"
    "r_thread r = t_id t" "is_active (r_status r)"
  from r have act: "has_active_runs (t_id t) w" by (auto simp: has_active_runs_def list_ex_iff)
  from thread_table.rows_update_mem[OF t] show "t_status t = ''busy''"
  proof
    assume old: "t \<in> set (threads w)"
    with busy r show ?thesis by (auto simp: busy_inv_def)
  next
    assume "\<exists>t'\<in>set (threads w). t_id t' = tid \<and> t = f t'"
    then obtain t' where t': "t' \<in> set (threads w)" "t_id t' = tid" "t = f t'" by blast
    moreover have "t_status t' = ''busy''" using busy r t' id by (auto simp: busy_inv_def)
    ultimately show ?thesis using ok[OF t'(1,2)] act id by auto
  qed
qed

lemma busy_new_thread:
  assumes inv: "world_inv w" and busy: "busy_inv w" and new: "t_id t \<notin> t_id ` set (threads w)"
  shows "busy_inv (w\<lparr>threads := threads w @ [t]\<rparr>)"
proof -
  have "r_thread r \<noteq> t_id t" if "r \<in> set (runs w)" for r
    using world_inv_parts(2)[OF inv that] new by auto
  with busy show ?thesis by (auto simp: busy_inv_def)
qed

lemma busy_new_run:
  assumes "busy_inv w" and "\<And>t. t \<in> set (threads w) \<Longrightarrow> t_id t = r_thread r \<Longrightarrow> t_status t = ''busy''"
  shows "busy_inv (w\<lparr>runs := runs w @ [r]\<rparr>)"
  using assms by (auto simp: busy_inv_def)

lemma busy_same_status:
  assumes "busy_inv w" and "map t_id ts = map t_id (threads w)" and "map t_status ts = map t_status (threads w)"
  shows "busy_inv (w\<lparr>threads := ts\<rparr>)"
proof -
  have pairs: "(\<lambda>t. (t_id t, t_status t)) ` set ts = (\<lambda>t. (t_id t, t_status t)) ` set (threads w)"
  proof -
    have "map (\<lambda>t. (t_id t, t_status t)) ts = zip (map t_id ts) (map t_status ts)" by (induction ts) simp_all
    also have "\<dots> = map (\<lambda>t. (t_id t, t_status t)) (threads w)"
      unfolding assms(2,3) by (induction "threads w") (simp_all add: zip_map_map zip_same_conv_map)
    finally show ?thesis by (metis list.set_map)
  qed
  show ?thesis
    unfolding busy_inv_def
  proof (intro ballI impI)
    fix t r
    assume t: "t \<in> set (threads (w\<lparr>threads := ts\<rparr>))" and r: "r \<in> set (runs (w\<lparr>threads := ts\<rparr>))"
      "r_thread r = t_id t" "is_active (r_status r)"
    from t pairs have "(t_id t, t_status t) \<in> (\<lambda>t. (t_id t, t_status t)) ` set (threads w)" by auto
    then obtain u where "u \<in> set (threads w)" "t_id u = t_id t" "t_status u = t_status t" by auto
    with assms(1) r show "t_status t = ''busy''" by (auto simp: busy_inv_def)
  qed
qed

text \<open>Setting the status of one thread, of whatever status it was before.\<close>

lemma update_first_distinct:
  "distinct (map key xs) \<Longrightarrow> x \<in> set (update_first (\<lambda>y. key y = i) f xs) \<Longrightarrow> (\<And>y. key (f y) = key y) \<Longrightarrow>
   key x = i \<Longrightarrow> \<exists>y\<in>set xs. key y = i \<and> x = f y"
proof (induction xs)
  case (Cons y xs)
  show ?case
  proof (cases "key y = i")
    case True
    with Cons.prems have "x = f y" by (auto simp: image_iff)
    with True show ?thesis by auto
  next
    case False
    with Cons show ?thesis by auto
  qed
qed simp

lemma busy_set_status:
  assumes distinct: "distinct (map t_id (threads w))" and id: "\<And>t. t_id (f t) = t_id t"
    and others: "\<And>t r. t \<in> set (threads w) \<Longrightarrow> t_id t \<noteq> tid \<Longrightarrow> r \<in> set (runs w) \<Longrightarrow> r_thread r = t_id t \<Longrightarrow>
      is_active (r_status r) \<Longrightarrow> t_status t = ''busy''"
    and ok: "has_active_runs tid w \<Longrightarrow> (\<And>t. t_status (f t) = ''busy'')"
  shows "busy_inv (update_thread tid f w)"
  unfolding busy_inv_def
proof (intro ballI impI)
  fix t r
  assume t: "t \<in> set (threads (update_thread tid f w))" and r: "r \<in> set (runs (update_thread tid f w))"
    "r_thread r = t_id t" "is_active (r_status r)"
  show "t_status t = ''busy''"
  proof (cases "t_id t = tid")
    case True
    from t have "t \<in> set (update_first (\<lambda>t. t_id t = tid) f (threads w))" by (simp add: update_thread_def)
    from update_first_distinct[OF distinct this id True] obtain y where "t = f y" by blast
    moreover have "has_active_runs tid w" using r True by (auto simp: has_active_runs_def list_ex_iff)
    ultimately show ?thesis using ok by blast
  next
    case False
    with thread_table.rows_update_mem[OF t] id have "t \<in> set (threads w)" by auto
    with others[OF this False] r show ?thesis by simp
  qed
qed

section \<open>Lookups and runs\<close>

lemma default_status [simp]: "t_status (default_state_updated t) = t_status t"
  by (simp add: default_state_updated_def split: option.split)

lemma get_with_filters_busy: "world_inv w \<Longrightarrow> busy_inv w \<Longrightarrow> busy_inv (snd (get_with_filters tid filters w))"
  by (auto simp: get_with_filters_def intro!: attempt_keeps[where P = busy_inv] busy_update split: option.split)

lemma get_with_filters_calm: "calm w \<Longrightarrow> calm (snd (get_with_filters tid filters w))"
  unfolding calm_def using get_with_filters_busy same_keeps(1)[OF get_with_filters_same] by blast

lemma filter_runs_visible_calm: "calm w \<Longrightarrow> calm (snd (filter_runs_visible filters tid rs w))"
proof (induction rs arbitrary: w)
  case (Cons r rs)
  from Cons.IH[OF get_with_filters_calm[OF Cons.prems]] get_with_filters_calm[OF Cons.prems] show ?case
    by (auto simp: case_prod_unfold intro!: attempt_keeps[where P = calm])
qed simp

lemma check_all_visible_calm: "calm w \<Longrightarrow> calm (snd (check_all_visible filters tids w))"
proof (induction tids arbitrary: w)
  case (Cons tid tids)
  from Cons.IH[OF get_with_filters_calm[OF Cons.prems]] get_with_filters_calm[OF Cons.prems] show ?case
    by (auto simp: case_prod_unfold intro!: attempt_keeps[where P = calm])
qed simp

lemma try_start_busy:
  assumes "busy_inv w" and i: "i < length (runs w)"
  shows "busy_inv (snd (try_start i w))"
proof (cases "r_status (runs w ! i) = ''pending''")
  case True
  show ?thesis
  proof (rule busy_shrink[OF assms(1)])
    fix r'
    assume r': "r' \<in> set (runs (snd (try_start i w)))" "is_active (r_status r')"
    have "r' \<in> set (runs w) \<or> r' = (runs w ! i)\<lparr>r_status := ''running''\<rparr>"
      using r'(1) by (auto simp: try_start_def Let_def increment_retry_def split: if_splits dest!: set_update_subset_insert[THEN subsetD])
    then show "\<exists>r\<in>set (runs w). r_thread r = r_thread r' \<and> is_active (r_status r)"
      using r'(2) True nth_mem[OF i] by (auto simp: is_active_def)
  qed simp
next
  case False
  with assms show ?thesis by (simp add: try_start_def)
qed

lemma start_all_busy: "world_inv w \<Longrightarrow> busy_inv w \<Longrightarrow> \<forall>i\<in>set is. i < length (runs w) \<Longrightarrow> busy_inv (snd (start_all is w))"
proof (induction "is" arbitrary: w)
  case (Cons i "is")
  then show ?case using try_start_inv[of w i] try_start_busy[of w i] by (simp add: case_prod_unfold)
qed simp

lemma runs_next_busy: "calm w \<Longrightarrow> busy_inv (snd (runs_next now limit w))"
  unfolding runs_next_def calm_def by (intro start_all_busy) (auto dest: pending_indices_bound in_set_takeD)

lemma insert_run_busy:
  assumes "busy_inv w" and "\<And>t. t \<in> set (threads w) \<Longrightarrow> t_id t = tid \<Longrightarrow> t_status t = ''busy''"
  shows "busy_inv (snd (insert_run q a e tid now w))"
proof -
  have "busy_inv (w\<lparr>runs := runs w @ [new_run q a e tid now created]\<rparr>)" for created
    using assms by (intro busy_new_run) (simp_all add: new_run_def Let_def)
  with assms(1) show ?thesis by (simp add: insert_run_def Let_def attempt_keeps)
qed

lemma busy_statuses [simp]:
  "t_status (busy_thread q a now t) = ''busy''" "t_status (new_run_thread q a tid now) = ''busy''"
  "t_id (new_run_thread q a tid now) = tid"
  by (simp_all add: busy_thread_def new_run_thread_def)

lemma runs_put_busy:
  assumes calm: "calm w" and fresh: "fresh \<notin> t_id ` set (threads w)"
  shows "busy_inv (snd (runs_put A now fresh q w))"
proof -
  note inv = calmD(1)[OF calm] and busy = calmD(2)[OF calm]
  have create: "busy_inv (snd (insert_run q a e tid now (w\<lparr>threads := threads w @ [new_run_thread q a tid now]\<rparr>)))"
    if "tid \<notin> t_id ` set (threads w)" for a e tid
    using that by (intro insert_run_busy busy_new_thread[OF inv busy]) (auto dest: arg_cong[where f = t_status])
  have update: "busy_inv (snd (insert_run q a e (t_id t) now (update_thread (t_id t) (busy_thread q a now) w)))"
    if "find_thread tid w = Some t" for a e t tid
  proof (intro insert_run_busy busy_update[OF inv busy])
    fix u
    assume u: "u \<in> set (threads (update_thread (t_id t) (busy_thread q a now) w))" "t_id u = t_id t"
    then have "u \<in> set (update_first (\<lambda>t'. t_id t' = t_id t) (busy_thread q a now) (threads w))"
      by (simp add: update_thread_def)
    from update_first_distinct[OF world_inv_parts(1)[OF inv] this _ u(2)] show "t_status u = ''busy''" by auto
  qed simp_all
  show ?thesis
    using busy update
    by (auto simp: runs_put_def Let_def thread_table.lookup_None create create[OF fresh] split: option.split
        intro!: attempt_keeps[where P = busy_inv])
qed

lemma runs_get_busy: "calm w \<Longrightarrow> busy_inv (snd (runs_get A rid tid w))"
  using get_with_filters_busy
  by (auto simp: runs_get_def calm_def case_prod_unfold intro!: attempt_keeps[where P = busy_inv] split: option.split)

lemma runs_search_busy: "calm w \<Longrightarrow> busy_inv (snd (runs_search A tid limit offset status w))"
  using filter_runs_visible_calm
  by (auto simp: runs_search_def Let_def case_prod_unfold calm_def intro!: attempt_keeps[where P = busy_inv])

lemma delete_run_row_busy: "busy_inv w \<Longrightarrow> busy_inv (snd (delete_run_row E rid tid w))"
  by (simp add: delete_run_row_def Let_def busy_runs_subset set_delete_first_subset)

lemma runs_delete_busy: "calm w \<Longrightarrow> busy_inv (snd (runs_delete E A rid tid w))"
  using get_with_filters_busy delete_run_row_busy
  by (auto simp: runs_delete_def case_prod_unfold calm_def intro!: attempt_keeps[where P = busy_inv])

text \<open>Only an active run is set to an active status.\<close>

definition stays_inactive :: "uuid \<Rightarrow> string \<Rightarrow> world \<Rightarrow> bool" where
  "stays_inactive rid status w \<longleftrightarrow>
     (is_active status \<longrightarrow> (\<forall>r\<in>set (runs w). r_id r = Some rid \<longrightarrow> is_active (r_status r)))"

lemma runs_set_status_busy:
  assumes "busy_inv w" and "stays_inactive rid status w"
  shows "busy_inv (runs_set_status now rid status w)"
proof (rule busy_shrink[OF assms(1)])
  fix r'
  assume r': "r' \<in> set (runs (runs_set_status now rid status w))" "is_active (r_status r')"
  then have "r' \<in> set (update_first (\<lambda>r. r_id r = Some rid) (\<lambda>r. r\<lparr>r_status := status, r_updated := now\<rparr>) (runs w))"
    by (simp add: runs_set_status_def)
  from set_update_first[OF this] show "\<exists>r\<in>set (runs w). r_thread r = r_thread r' \<and> is_active (r_status r)"
    using r'(2) assms(2) by (auto simp: stays_inactive_def)
qed (simp add: runs_set_status_def)

section \<open>Threads\<close>

lemma collect_threads_statuses: "map t_status (snd (collect_threads P ts)) = map t_status ts"
  by (induction ts) (auto simp: case_prod_unfold Let_def split: sum.split)

lemma threads_search_busy:
  "calm w \<Longrightarrow> busy_inv (snd (threads_search A ids metadata vals status limit offset sort_by sort_order w))"
  using busy_same_status[OF calmD(2) collect_threads_ids collect_threads_statuses, of w]
  by (auto simp: threads_search_def Let_def case_prod_unfold calm_def intro!: attempt_keeps[where P = busy_inv])

lemma threads_get_calm: "calm w \<Longrightarrow> calm (snd (threads_get cfg A tid include_ttl w))"
  using get_with_filters_calm
  by (auto simp: threads_get_def case_prod_unfold intro!: attempt_keeps[where P = calm] split: option.split)

lemma store_ttl_busy: "busy_inv w \<Longrightarrow> busy_inv (snd (store_ttl tid ttl x w))"
  by (simp add: store_ttl_def case_prod_unfold split: option.split)

lemma threads_put_busy:
  assumes "calm w" and "if_exists \<in> {''raise'', ''do_nothing''}"
  shows "busy_inv (snd (threads_put A now tid metadata if_exists ttl w))"
proof -
  have "busy_inv (snd (store_ttl tid ttl (new_thread tid metadata now) (w\<lparr>threads := threads w @ [new_thread tid metadata now]\<rparr>)))"
    if "find_thread tid w = None"
    using that calmD[OF assms(1)]
    by (intro store_ttl_busy busy_new_thread) (simp_all add: new_thread_def thread_table.lookup_None)
  with calmD[OF assms(1)] assms(2) show ?thesis
    by (auto simp: threads_put_def Let_def intro!: attempt_keeps[where P = busy_inv] split: option.split)
qed

lemma threads_patch_busy: "calm w \<Longrightarrow> busy_inv (snd (threads_patch A now tid metadata ttl w))"
  by (auto simp: threads_patch_def calm_def patched_thread_def split: option.split
      intro!: attempt_keeps[where P = busy_inv] store_ttl_busy busy_update)

lemma threads_set_status_busy: "calm w \<Longrightarrow> busy_inv (snd (threads_set_status patch now tid checkpoint exn w))"
  unfolding calm_def threads_set_status_def Let_def by (auto intro: busy_update)

lemma set_run_status_other:
  assumes "r \<in> set (runs (set_run_status now rid tid status w))" and "r_thread r \<noteq> tid"
  shows "r \<in> set (runs w)"
proof -
  from assms(1) have "r \<in> set (update_first (\<lambda>r. r_id r = Some rid \<and> r_thread r = tid)
      (\<lambda>r. r\<lparr>r_status := status, r_updated := now\<rparr>) (runs w))" by (simp add: set_run_status_def)
  from set_update_first[OF this] assms(2) show ?thesis by auto
qed

lemma joint_busy:
  assumes calm: "calm w" and same: "threads w1 = threads w"
    and others: "\<And>r. r \<in> set (runs w1) \<Longrightarrow> r_thread r \<noteq> tid \<Longrightarrow> r \<in> set (runs w)"
    and status: "has_active_runs tid w1 \<Longrightarrow> status = ''busy''"
  shows "busy_inv (update_thread tid (joint_update patch now graph_id status checkpoint exn) w1)"
proof (rule busy_set_status)
  show "distinct (map t_id (threads w1))" using world_inv_parts(1)[OF calmD(1)[OF calm]] same by simp
  show "t_status t = ''busy''" if "t \<in> set (threads w1)" "t_id t \<noteq> tid" "r \<in> set (runs w1)" "r_thread r = t_id t"
    "is_active (r_status r)" for t r
  proof -
    have "r \<in> set (runs w)" using others that(2-4) by simp
    with that calmD(2)[OF calm] same show ?thesis by (auto simp: busy_inv_def)
  qed
qed (use status in simp_all)

lemma threads_set_joint_status_busy:
  assumes calm: "calm w"
  shows "busy_inv (snd (threads_set_joint_status E A patch now tid rid run_status graph_id checkpoint exn w))"
proof -
  let ?base = "base_joint_status checkpoint exn"
  have deleted: "busy_inv (snd (attempt (bind_res (fst (runs_delete E A rid tid w)) (\<lambda>_. Inr ())) (snd (runs_delete E A rid tid w))
      (\<lambda>_. (Inr (), update_thread tid (joint_update patch now graph_id (if is_active ''rollback'' \<or> has_active_runs tid (snd (runs_delete E A rid tid w))
         then ''busy'' else ?base) checkpoint exn) (snd (runs_delete E A rid tid w))))))"
    using runs_delete_busy[OF calm, of E A rid tid] runs_delete_inv[OF calmD(1)[OF calm], of E A rid tid]
    by (auto intro!: attempt_keeps[where P = busy_inv] busy_update)
  have set: "busy_inv (update_thread tid (joint_update patch now graph_id (if is_active run_status \<or> has_active_runs tid
      (set_run_status now rid tid run_status w) then ''busy'' else ?base) checkpoint exn) (set_run_status now rid tid run_status w))"
  proof (rule joint_busy[OF calm])
    show "threads (set_run_status now rid tid run_status w) = threads w" by (simp add: set_run_status_def)
  qed (auto dest: set_run_status_other)
  from deleted set calmD(2)[OF calm] show ?thesis
    by (simp add: threads_set_joint_status_def Let_def case_prod_unfold)
qed

lemma rows_without_busy: "busy_inv w \<Longrightarrow> rows_without D w w' \<Longrightarrow> busy_inv w'"
  by (erule busy_shrink) (auto simp: rows_without_def)

lemma delete_thread_rows_busy: "busy_inv w \<Longrightarrow> busy_inv (delete_thread_rows E tid w)"
  by (erule busy_shrink) (auto simp: delete_thread_rows_def dest: set_delete_first_subset[THEN subsetD])

lemma threads_delete_busy: "busy_inv w \<Longrightarrow> busy_inv (snd (threads_delete E A tid w))"
  by (auto simp: threads_delete_def delete_thread_rows_busy intro!: attempt_keeps[where P = busy_inv] split: option.split)

lemma delete_each_busy: "busy_inv w \<Longrightarrow> busy_inv (snd (delete_each E A tids w))"
proof (induction tids arbitrary: w)
  case (Cons tid tids)
  obtain r w1 where r: "threads_delete E A tid w = (r, w1)" by fastforce
  with threads_delete_busy[OF Cons.prems, of E A tid] have w1: "busy_inv w1" by simp
  show ?case
  proof (cases r)
    case (Inl e)
    with r w1 Cons.IH[OF w1] show ?thesis by (cases e) simp_all
  next
    case (Inr d)
    with r Cons.IH[OF w1] show ?thesis by (simp add: case_prod_unfold)
  qed
qed simp

lemma prune_batches_busy: "prune_batches E bs w = Some w' \<Longrightarrow> busy_inv w' = busy_inv w"
proof (induction bs arbitrary: w)
  case (Cons b bs)
  then obtain res s where "prune_batches E bs (w\<lparr>ckpt_saver := s\<rparr>) = Some w'" by (auto split: option.splits)
  from Cons.IH[OF this] show ?case by simp
qed simp

lemma threads_prune_busy:
  assumes "calm w" and ret: "threads_prune E A tids strategy batch_size w = Some (res, w')"
  shows "busy_inv w'"
proof (cases "tids = [] \<or> (\<exists>e. A ''threads'' ''delete'' None = Inl e)")
  case True
  with assms show ?thesis by (auto simp: threads_prune_def calm_def split: if_splits)
next
  case False
  then obtain filters where A: "A ''threads'' ''delete'' None = Inr filters" and "tids \<noteq> []"
    by (cases "A ''threads'' ''delete'' None") auto
  obtain ok w1 where v: "(if truthy filters then check_all_visible filters tids w else (Inr True, w)) = (ok, w1)"
    by fastforce
  have w1: "busy_inv w1"
    using check_all_visible_calm[OF assms(1), of filters tids] assms(1) v by (auto simp: calm_def split: if_splits)
  show ?thesis
    using ret A \<open>tids \<noteq> []\<close> w1 delete_each_busy[OF w1, of E A tids] prune_batches_busy[of E _ w1]
    unfolding threads_prune_def Let_def by (auto simp: v split: sum.splits if_splits)
qed

lemma threads_copy_busy:
  assumes "calm w" and "can_copy w tid fresh"
  shows "busy_inv (snd (threads_copy A now fresh tid w))"
proof -
  have "busy_inv (w\<lparr>threads := threads w @ [copied_thread fresh now t]\<rparr>)" for t
    using assms by (intro busy_new_thread) (simp_all add: calm_def can_copy_def copied_thread_def)
  then have "busy_inv (w\<lparr>threads := threads w @ [copied_thread fresh now t], thread_ttls := ttls, ckpt_saver := s\<rparr>)" for t ttls s
    by simp
  with calmD(2)[OF assms(1)] show ?thesis
    by (auto simp: threads_copy_def Let_def intro!: attempt_keeps[where P = busy_inv] split: option.split)
qed

lemma threads_sweep_busy:
  assumes base: "base_delete_ok E" and "calm w" and sw: "threads_sweep_ttl E cfg now limit batch_size w = Some (res, w')"
  shows "busy_inv w'"
proof (cases res)
  case (Inl e)
  with sweep_exact[OF base calmD(1)[OF assms(2)] sw] calmD(2)[OF assms(2)] show ?thesis by simp
next
  case (Inr stats)
  with sweep_exact[OF base calmD(1)[OF assms(2)] sw] obtain D where "rows_without D w w'"
    by (cases stats) auto
  with calmD(2)[OF assms(2)] show ?thesis by (rule rows_without_busy)
qed

section \<open>Assistants, crons and state\<close>

lemma assistants_busy:
  assumes "busy_inv w"
  shows "busy_inv (snd (assistants_put A G now aid aq if_exists w))" and "busy_inv (snd (assistants_patch A G now aid p w))"
    and "busy_inv (snd (assistants_set_latest A now aid n w))"
  using assms
  by (auto simp: assistants_put_def assistants_patch_def assistants_set_latest_def update_assistant_def Let_def
      intro!: attempt_keeps[where P = busy_inv] split: option.split)

lemma crons_busy:
  assumes "calm w"
  shows "busy_inv (snd (crons_put C A now cid cq w))" and "busy_inv (snd (crons_modify C A now cid u w))"
    and "busy_inv (snd (crons_delete A cid w))" and "busy_inv (crons_set_next_run_date cid date w)"
  using assms get_with_filters_busy
  by (auto simp: crons_put_def crons_modify_def crons_delete_def crons_set_next_run_date_def update_cron_def Let_def
      calm_def case_prod_unfold intro!: attempt_keeps[where P = busy_inv] split: option.split)

lemma state_reads_calm:
  assumes "calm w"
  shows "calm (snd (state_get A cfg H config subgraphs w))" and "calm (snd (state_list A cfg H config limit before metadata w))"
    and "calm (snd (check_stream_auth A tid w))"
  using threads_get_calm[OF assms] get_with_filters_calm[OF assms] assms
  by (auto simp: state_get_def state_list_def check_stream_auth_def case_prod_unfold
      intro!: attempt_keeps[where P = calm] split: option.split)

lemma record_update_busy: "calm w \<Longrightarrow> busy_inv (snd (record_update A cfg G now ms config tid w))"
  using threads_set_status_busy[OF state_reads_calm(1)] calmD(2)[OF state_reads_calm(1)]
  by (auto simp: record_update_def case_prod_unfold intro!: attempt_keeps[where P = busy_inv])

lemma state_writes_busy:
  assumes "graph_ok H" and calm: "calm w"
  shows "busy_inv (snd (state_post A cfg H now ms config vals as_node w))"
    and "busy_inv (snd (state_bulk A cfg H now ms config supersteps w))"
proof -
  have get: "calm (snd (threads_get cfg A tid False w))" for tid by (rule threads_get_calm[OF calm])
  have upd: "calm (w1\<lparr>ckpt_saver := snd (update_state H g tc c v n (ckpt_saver w1))\<rparr>)" if "calm w1" for w1 g tc c v n
    using that assms(1) world_inv_parts(6)[OF calmD(1)[OF that]] by (auto simp: calm_def graph_ok_def intro: inv_saver)
  have bulk: "calm (w1\<lparr>ckpt_saver := snd (bulk_update H g tc c us (ckpt_saver w1))\<rparr>)" if "calm w1" for w1 g tc c us
    using that assms(1) world_inv_parts(6)[OF calmD(1)[OF that]] by (auto simp: calm_def graph_ok_def intro: inv_saver)
  note post = record_update_busy[OF upd[OF get]] and bulk_rec = record_update_busy[OF bulk[OF get]]
  show "busy_inv (snd (state_post A cfg H now ms config vals as_node w))"
    using calmD(2)[OF calm] calmD(2)[OF get] post
    by (auto simp: state_post_def case_prod_unfold Let_def intro!: attempt_keeps[where P = busy_inv] split: option.split)
  show "busy_inv (snd (state_bulk A cfg H now ms config supersteps w))"
    using calmD(2)[OF calm] calmD(2)[OF get] bulk_rec
    by (auto simp: state_bulk_def case_prod_unfold Let_def intro!: attempt_keeps[where P = busy_inv] split: option.split)
qed

section \<open>Steps without cancellation\<close>

text \<open>
  The steps of the runtime except for the cancellation of runs, which the deletion of an assistant
  includes; and a status that makes a run active is only set on an active run.
\<close>

inductive calm_step :: "saver_env \<Rightarrow> api_config \<Rightarrow> cron_env \<Rightarrow> world \<Rightarrow> world \<Rightarrow> bool"
  for E cfg C where
  calm_runs_next: "calm_step E cfg C w (snd (runs_next now limit w))"
| calm_runs_put: "fresh \<notin> t_id ` set (threads w) \<Longrightarrow> rq_status q \<noteq> ''running'' \<Longrightarrow>
    calm_step E cfg C w (snd (runs_put A now fresh q w))"
| calm_runs_get: "calm_step E cfg C w (snd (runs_get A rid tid w))"
| calm_runs_delete: "calm_step E cfg C w (snd (runs_delete E A rid tid w))"
| calm_runs_search: "calm_step E cfg C w (snd (runs_search A tid limit offset status w))"
| calm_runs_set_status: "status \<noteq> ''running'' \<Longrightarrow> stays_inactive rid status w \<Longrightarrow>
    calm_step E cfg C w (runs_set_status now rid status w)"
| calm_threads_search: "calm_step E cfg C w (snd (threads_search A ids metadata vals status limit offset sort_by sort_order w))"
| calm_threads_get: "calm_step E cfg C w (snd (threads_get cfg A tid include_ttl w))"
| calm_threads_put: "if_exists \<in> {''raise'', ''do_nothing''} \<Longrightarrow>
    calm_step E cfg C w (snd (threads_put A now tid metadata if_exists ttl w))"
| calm_threads_patch: "calm_step E cfg C w (snd (threads_patch A now tid metadata ttl w))"
| calm_threads_set_status: "calm_step E cfg C w (snd (threads_set_status patch now tid checkpoint exn w))"
| calm_threads_set_joint_status: "run_status \<noteq> ''running'' \<Longrightarrow>
    calm_step E cfg C w (snd (threads_set_joint_status E A patch now tid rid run_status graph_id checkpoint exn w))"
| calm_threads_delete: "calm_step E cfg C w (snd (threads_delete E A tid w))"
| calm_threads_prune: "threads_prune E A tids strategy batch_size w = Some (res, w') \<Longrightarrow> calm_step E cfg C w w'"
| calm_threads_copy: "can_copy w tid fresh \<Longrightarrow> calm_step E cfg C w (snd (threads_copy A now fresh tid w))"
| calm_threads_sweep: "threads_sweep_ttl E cfg now limit batch_size w = Some (swept, w') \<Longrightarrow> calm_step E cfg C w w'"
| calm_assistants_put: "calm_step E cfg C w (snd (assistants_put A G now aid request if_exists w))"
| calm_assistants_patch: "calm_step E cfg C w (snd (assistants_patch A G now aid p w))"
| calm_assistants_set_latest: "calm_step E cfg C w (snd (assistants_set_latest A now aid n w))"
| calm_crons_put: "calm_step E cfg C w (snd (crons_put C A now cid cq w))"
| calm_crons_update: "calm_step E cfg C w (snd (crons_modify C A now cid u w))"
| calm_crons_delete: "calm_step E cfg C w (snd (crons_delete A cid w))"
| calm_crons_set_next: "calm_step E cfg C w (crons_set_next_run_date cid date w)"
| calm_state_get: "calm_step E cfg C w (snd (state_get A cfg H config subgraphs w))"
| calm_state_list: "calm_step E cfg C w (snd (state_list A cfg H config limit before metadata w))"
| calm_state_post: "graph_ok H \<Longrightarrow> calm_step E cfg C w (snd (state_post A cfg H now ms config vals as_node w))"
| calm_state_bulk: "graph_ok H \<Longrightarrow> calm_step E cfg C w (snd (state_bulk A cfg H now ms config supersteps w))"
| calm_stream_auth: "calm_step E cfg C w (snd (check_stream_auth A tid w))"
| calm_saver: "op_allowed x (ckpt_saver w) \<Longrightarrow> saver_step E x (ckpt_saver w) = Some s \<Longrightarrow>
    calm_step E cfg C w (w\<lparr>ckpt_saver := s\<rparr>)"
| calm_stream: "calm_step E cfg C w (w\<lparr>streams := stream_step y (streams w)\<rparr>)"
| calm_clear: "calm_step E cfg C w (connection_clear w)"

lemma calm_step_system: "calm_step E cfg C w w' \<Longrightarrow> system_step E cfg C w w'"
  by (induction rule: calm_step.induct) (rule system_step.intros; assumption)+

lemma calm_step_busy:
  assumes base: "base_saver_ok E" and step: "calm_step E cfg C w w'" and calm: "calm w"
  shows "busy_inv w'"
  using step
proof (cases rule: calm_step.cases)
  case (calm_threads_prune A tids strategy batch_size res)
  with calm threads_prune_busy show ?thesis by simp
next
  case (calm_threads_sweep now limit batch_size swept)
  moreover have "base_delete_ok E" using base by (simp add: base_saver_ok_def)
  ultimately show ?thesis using calm threads_sweep_busy by blast
next
  case calm_clear
  then show ?thesis by (simp add: connection_clear_def global_store_clear_def busy_inv_def)
qed (use calm calmD[OF calm] in \<open>simp_all add: runs_next_busy runs_put_busy runs_get_busy runs_delete_busy runs_search_busy
    runs_set_status_busy threads_search_busy calmD(2)[OF threads_get_calm] threads_put_busy threads_patch_busy
    threads_set_status_busy threads_set_joint_status_busy threads_delete_busy threads_copy_busy assistants_busy
    crons_busy calmD(2)[OF state_reads_calm(1)] calmD(2)[OF state_reads_calm(2)] calmD(2)[OF state_reads_calm(3)]
    state_writes_busy\<close>)

lemma calm_step_calm: "base_saver_ok E \<Longrightarrow> calm_step E cfg C w w' \<Longrightarrow> calm w \<Longrightarrow> calm w'"
  using calm_step_busy[of E cfg C w w'] system_step_inv[of E cfg C w w'] calm_step_system by (simp add: calm_def)

interpretation quiet: inductive_invariant world_init "\<lambda>w w'. base_saver_ok E \<and> calm_step E cfg C w w'" calm for E cfg C
  by unfold_locales (auto simp: calm_def[of world_init] world_inv_init busy_init intro: calm_step_calm)

text \<open>
  C5. Active runs keep their thread busy. In every state reached by any calls in any order, except those
  that cancel runs or make a finished run active again, a thread with a pending or running run has the
  status \<open>busy\<close>: creation, the queue, both status updates, deletions, copies, sweeps and state updates
  keep the two tables in step.
\<close>

theorem active_runs_keep_threads_busy:
  assumes "base_saver_ok E" and "(calm_step E cfg C)\<^sup>*\<^sup>* world_init w" and "t \<in> set (threads w)"
    and "r \<in> set (runs w)" and "r_thread r = t_id t" and "r_status r \<in> {''pending'', ''running''}"
  shows "t_status t = ''busy''"
proof -
  have "(\<lambda>w w'. base_saver_ok E \<and> calm_step E cfg C w w')\<^sup>*\<^sup>* world_init w" using assms(1,2) by simp
  from quiet.good_reachable[OF this] have "busy_inv w" by (rule calmD(2))
  with assms(3-6) show ?thesis by (auto simp: busy_inv_def is_active_def)
qed

definition demo_run_request :: run_request where
  "demo_run_request = \<lparr>rq_assistant = ''a'', rq_kwargs = [], rq_thread = Some ''t'', rq_user = None, rq_run = Some ''r'',
     rq_status = ''pending'', rq_metadata = [], rq_prevent = False, rq_multitask = ''enqueue'',
     rq_if_not_exists = ''create'', rq_after = 0, rq_session = None\<rparr>"

definition demo_created :: world where
  "demo_created = snd (runs_put no_auth 2 ''f'' demo_run_request
     (snd (assistants_put no_auth any_graph 1 ''a'' (demo_request ''g'') ''raise'' world_init)))"

theorem active_runs_keep_threads_busy_witness:
  "map t_status (threads demo_created) = [''busy''] \<and> t_status (hd (threads demo_created)) = ''busy''"
proof -
  let ?w1 = "snd (assistants_put no_auth any_graph 1 ''a'' (demo_request ''g'') ''raise'' world_init)"
  have none: "threads ?w1 = []" by code_simp
  have "calm_step demo_env demo_cfg demo_cron_env ?w1 demo_created"
    unfolding demo_created_def by (rule calm_step.calm_runs_put) (simp_all add: none demo_run_request_def)
  then have reach: "(calm_step demo_env demo_cfg demo_cron_env)\<^sup>*\<^sup>* world_init demo_created"
    by (meson calm_step.calm_assistants_put r_into_rtranclp rtranclp.rtrancl_into_rtrancl)
  have rows: "map t_id (threads demo_created) = [''t'']" "map r_thread (runs demo_created) = [''t'']"
    "map r_status (runs demo_created) = [''pending'']" by code_simp+
  from rows obtain t r where t: "threads demo_created = [t]" "t_id t = ''t''" and r: "runs demo_created = [r]" "r_thread r = ''t''"
    "r_status r = ''pending''" by (auto simp: map_eq_Cons_conv)
  with active_runs_keep_threads_busy[OF demo_env_ok reach, of t r] show ?thesis by simp
qed

end
