(* ===== verification/Run_Life.thy ===== *)
theory Run_Life
  imports Queue_Spec Busy_Threads
begin

text \<open>
  The life of a run across the operations of \<open>ops.py\<close>: \<open>Runs.put\<close> stores it, \<open>Runs.next\<close> hands it to a
  worker, and \<open>Threads.set_joint_status\<close> ends it, whatever the other threads are doing.
\<close>

section \<open>Lists of rows\<close>

lemma find_appended: "\<forall>x\<in>set xs. \<not> P x \<Longrightarrow> P y \<Longrightarrow> find P (xs @ [y]) = Some y"
  by (induction xs) auto

lemma update_first_appended: "\<forall>x\<in>set xs. \<not> P x \<Longrightarrow> P y \<Longrightarrow> update_first P f (xs @ [y]) = xs @ [f y]"
  by (induction xs) auto

lemma find_run_appended:
  "runs w = rs @ [r] \<Longrightarrow> \<forall>x\<in>set rs. r_id x \<noteq> Some rid \<Longrightarrow> r_id r = Some rid \<Longrightarrow> r_thread r = tid \<Longrightarrow>
   find_run rid tid w = Some r"
  unfolding find_run_def by (simp only:) (rule find_appended, auto)

lemma firsts_unique:
  "x \<in> set xs \<Longrightarrow> \<forall>y\<in>set xs. key y = key x \<longrightarrow> y = x \<Longrightarrow> x \<in> set (firsts key xs)"
proof (induction key xs rule: firsts.induct)
  case (2 key y ys)
  show ?case
  proof (cases "x = y")
    case False
    with 2(2,3) have "key x \<noteq> key y" by auto
    with 2 False show ?thesis by auto
  qed simp
qed simp

lemma mark_append: "mark_started S (rs @ [r]) = mark_started S rs @ [if length rs \<in> S then started r else r]"
  by (rule nth_equalityI) (auto simp: nth_mark nth_append not_less less_Suc_eq)

lemma mark_fields: "r' \<in> set (mark_started S rs) \<Longrightarrow>
  \<exists>i < length rs. r_id r' = r_id (rs ! i) \<and> r_thread r' = r_thread (rs ! i) \<and> (i \<notin> S \<longrightarrow> r' = rs ! i)"
  by (auto simp: in_set_conv_nth nth_mark started_def)

section \<open>The steps\<close>

text \<open>A run for a stored, idle thread is accepted.\<close>

lemma put_accepted:
  assumes "find_assistant (rq_assistant q) w = Some a" and "find_thread tid w = Some t" and "\<not> has_active_runs tid w"
    and "rq_thread q = Some tid" and "plus_seconds now (rq_after q) = Inr created"
  shows "runs_put no_auth now fresh q w =
    (let r = new_run q a (Some (busy_thread q a now t)) tid now created
     in (Inr [r], (update_thread tid (busy_thread q a now) w)\<lparr>runs := runs w @ [r]\<rparr>))"
proof -
  have "t_id t = tid" using assms(2) by (auto simp: find_thread_def dest: find_SomeD)
  moreover have "inflight_runs tid (update_thread tid (busy_thread q a now) w) = []"
    using assms(3) by (auto simp: inflight_runs_def has_active_runs_def list_ex_iff filter_empty_conv)
  ultimately show ?thesis
    using assms(1,2,4,5) by (simp add: runs_put_def no_auth_def insert_run_def Let_def passes_def)
qed


text \<open>A new row adds at most itself to the due ones.\<close>

lemma length_pending_append:
  "length (pending_indices now (rs @ [r])) \<le> Suc (length (pending_indices now rs))"
  by (simp add: pending_indices_def enumerate_append_eq)

text \<open>The queue hands out the only active run of a stored thread; the other rows of the thread stay as they are.\<close>

lemma next_picks_idle:
  assumes runs: "runs w = rs @ [r]" and r: "r_thread r = tid" "r_status r = ''pending''" "r_created r < now"
    and stored: "find_thread tid w \<noteq> None" and alone: "\<forall>x\<in>set rs. r_thread x = tid \<longrightarrow> \<not> is_active (r_status x)"
    and limit: "length (pending_indices now rs) < limit"
  shows "started r \<in> set (map fst (fst (runs_next now limit w)))"
    and "\<exists>rs' c. snd (runs_next now limit w) = w\<lparr>runs := rs' @ [started r], retry_counter := c\<rparr> \<and>
      (\<forall>x\<in>set rs'. \<exists>y\<in>set rs. r_id x = r_id y \<and> r_thread x = r_thread y \<and> (r_thread y = tid \<longrightarrow> x = y))"
proof -
  define js where "js = pending_indices now (runs w)"
  have dist: "distinct js" by (auto simp: js_def pending_indices_def distinct_map inj_on_def in_set_enumerate_eq)
  have pend: "\<forall>i\<in>set js. i < length (runs w) \<and> r_status (runs w ! i) = ''pending''"
    by (auto simp: js_def set_pending_indices)
  have nxt: "runs_next now limit w = start_all js w"
    using length_pending_append[of now rs r] limit by (simp add: runs_next_def js_def runs)
  have last: "length rs \<in> set js" using r by (simp add: js_def set_pending_indices runs)
  have only: "i = length rs" if "i \<in> set js" "r_thread (runs w ! i) = tid" for i
  proof (rule ccontr)
    assume "i \<noteq> length rs"
    with pend that(1) have "runs w ! i \<in> set rs" "r_status (runs w ! i) = ''pending''"
      by (auto simp: runs nth_append)
    with alone that(2) show False by (auto simp: is_active_def)
  qed
  have free: "\<not> thread_running tid (runs w)"
    using alone r by (auto simp: runs thread_running_def list_ex_iff is_active_def)
  let ?S = "set (chosen js w)"
  have sub: "?S \<subseteq> set js" unfolding chosen_def Let_def by (rule order_trans[OF set_firsts]) auto
  have owner: "r_thread (runs w ! length rs) = tid" by (simp add: runs r)
  have "length rs \<in> ?S"
    unfolding chosen_def Let_def
  proof (rule firsts_unique)
    show "length rs \<in> set (filter (\<lambda>i. find_thread (r_thread (runs w ! i)) w \<noteq> None \<and>
        \<not> thread_running (r_thread (runs w ! i)) (runs w)) js)"
      using last stored free by (simp add: owner)
    show "\<forall>y\<in>set (filter (\<lambda>i. find_thread (r_thread (runs w ! i)) w \<noteq> None \<and>
        \<not> thread_running (r_thread (runs w ! i)) (runs w)) js).
        r_thread (runs w ! y) = r_thread (runs w ! length rs) \<longrightarrow> y = length rs"
      using only by (simp add: owner)
  qed
  moreover from start_all_spec[OF dist pend] obtain c where
    spec: "map fst (fst (start_all js w)) = map (\<lambda>i. started (runs w ! i)) (chosen js w)"
      "snd (start_all js w) = w\<lparr>runs := mark_started ?S (runs w), retry_counter := c\<rparr>" by auto
  ultimately show "started r \<in> set (map fst (fst (runs_next now limit w)))"
    by (force simp: nxt spec(1) runs)
  have "snd (runs_next now limit w) = w\<lparr>runs := mark_started ?S rs @ [started r], retry_counter := c\<rparr>"
    using \<open>length rs \<in> ?S\<close> by (simp add: nxt spec(2)) (simp add: runs mark_append)
  moreover have "\<exists>y\<in>set rs. r_id x = r_id y \<and> r_thread x = r_thread y \<and> (r_thread y = tid \<longrightarrow> x = y)"
    if "x \<in> set (mark_started ?S rs)" for x
  proof -
    from mark_fields[OF that] obtain i where
      i: "i < length rs" "r_id x = r_id (rs ! i)" "r_thread x = r_thread (rs ! i)" "i \<notin> ?S \<longrightarrow> x = rs ! i" by auto
    have "x = rs ! i" if "r_thread (rs ! i) = tid"
      using i only[of i] that sub by (auto simp: runs nth_append)
    with i show ?thesis by (intro bexI[of _ "rs ! i"]) auto
  qed
  ultimately show "\<exists>rs' c. snd (runs_next now limit w) = w\<lparr>runs := rs' @ [started r], retry_counter := c\<rparr> \<and>
      (\<forall>x\<in>set rs'. \<exists>y\<in>set rs. r_id x = r_id y \<and> r_thread x = r_thread y \<and> (r_thread y = tid \<longrightarrow> x = y))"
    by blast
qed

text \<open>The end of the only active run of a thread.\<close>

lemma joint_ends_run:
  assumes runs: "runs w = rs @ [r]" and r: "r_id r = Some rid" "r_thread r = tid" and t: "find_thread tid w = Some t"
    and fresh: "\<forall>x\<in>set rs. r_id x \<noteq> Some rid" and alone: "\<forall>x\<in>set rs. r_thread x = tid \<longrightarrow> \<not> is_active (r_status x)"
    and status: "\<not> is_active status" "status \<noteq> ''rollback''"
  shows "threads_set_joint_status E A patch now tid rid status g checkpoint exn w =
    (Inr (), update_thread tid (joint_update patch now g (base_joint_status checkpoint exn) checkpoint exn)
               (w\<lparr>runs := rs @ [r\<lparr>r_status := status, r_updated := now\<rparr>]\<rparr>))"
proof -
  let ?w = "w\<lparr>runs := rs @ [r\<lparr>r_status := status, r_updated := now\<rparr>]\<rparr>"
  have "find_run rid tid w = Some r" by (rule find_run_appended[OF runs fresh r])
  moreover have "set_run_status now rid tid status w = ?w"
    unfolding set_run_status_def runs using fresh r by (subst update_first_appended) auto
  moreover have "\<not> has_active_runs tid ?w"
    using alone status(1) by (auto simp: has_active_runs_def list_ex_iff)
  ultimately show ?thesis using t status by (simp add: threads_set_joint_status_def Let_def)
qed


section \<open>The life of a run\<close>

text \<open>
  C3. A run lives from its creation to its end. Without an authorization handler, let a run with a fresh
  identifier be created for a stored thread on which nothing is active. It is stored as pending and its
  thread becomes busy. If the next call of \<open>Runs.next\<close> comes after its creation time, with nothing in
  between and with a limit above the number of the other due runs, it hands the run out and marks it as
  running, whatever the other threads do; with a smaller limit older runs may take all the places. If a
  worker then reports the end of the run, nothing in between, the run has the reported status and the
  thread the one that follows from the last checkpoint and the exception, with no run left active on it.
\<close>

theorem run_life_cycle:
  assumes assistant: "find_assistant (rq_assistant q) w = Some a" and thread: "find_thread tid w = Some t"
    and idle: "\<not> has_active_runs tid w" and fresh: "Some rid \<notin> r_id ` set (runs w)"
    and q: "rq_thread q = Some tid" "rq_run q = Some rid" "rq_status q = ''pending''"
    and time: "plus_seconds now (rq_after q) = Inr created" "created < now'" and limit: "length (pending_indices now' (runs w)) < limit"
    and status: "\<not> is_active status" "status \<noteq> ''rollback''"
    and put: "runs_put no_auth now fid q w = (answer, w1)"
    and poll: "runs_next now' limit w1 = (handed_out, w2)"
    and report: "threads_set_joint_status E A patch now'' tid rid status g checkpoint exn w2 = (res, w3)"
  shows "\<exists>r. answer = Inr [r] \<and> find_run rid tid w1 = Some r \<and> r_status r = ''pending'' \<and>
      map_option t_status (find_thread tid w1) = Some ''busy'' \<and>
    r\<lparr>r_status := ''running''\<rparr> \<in> set (map fst handed_out) \<and>
      find_run rid tid w2 = Some (r\<lparr>r_status := ''running''\<rparr>) \<and>
      map_option t_status (find_thread tid w2) = Some ''busy'' \<and>
    res = Inr () \<and> find_run rid tid w3 = Some (r\<lparr>r_status := status, r_updated := now''\<rparr>) \<and>
      map_option t_status (find_thread tid w3) = Some (base_joint_status checkpoint exn) \<and> \<not> has_active_runs tid w3"
proof -
  let ?busy = "busy_thread q a now"
  define r where "r = new_run q a (Some (?busy t)) tid now created"
  have r: "r_id r = Some rid" "r_thread r = tid" "r_status r = ''pending''" "r_created r = created"
    using q by (simp_all add: r_def new_run_def Let_def)
  have alone: "\<forall>x\<in>set (runs w). r_thread x = tid \<longrightarrow> \<not> is_active (r_status x)"
    using idle by (auto simp: has_active_runs_def list_ex_iff)
  have new: "\<forall>x\<in>set (runs w). r_id x \<noteq> Some rid" using fresh by (auto simp: image_iff)
  have w1: "answer = Inr [r]" "w1 = (update_thread tid ?busy w)\<lparr>runs := runs w @ [r]\<rparr>"
    using put put_accepted[OF assistant thread idle q(1) time(1)] by (simp_all add: Let_def r_def)
  have runs1: "runs w1 = runs w @ [r]" by (simp add: w1(2))
  have run1: "find_run rid tid w1 = Some r" by (rule find_run_appended[OF runs1 new r(1,2)])
  have t1: "find_thread tid w1 = Some (?busy t)"
    unfolding w1(2) using thread by (simp add: thread_table.lookup_update busy_thread_def)
  obtain rs c where out: "started r \<in> set (map fst handed_out)" and w2: "w2 = w1\<lparr>runs := rs @ [started r], retry_counter := c\<rparr>"
    and rs: "\<forall>x\<in>set rs. \<exists>y\<in>set (runs w). r_id x = r_id y \<and> r_thread x = r_thread y \<and> (r_thread y = tid \<longrightarrow> x = y)"
    using next_picks_idle[OF runs1 r(2,3) _ _ alone limit] r(4) time(2) t1 poll by auto
  have new2: "\<forall>x\<in>set rs. r_id x \<noteq> Some rid" and alone2: "\<forall>x\<in>set rs. r_thread x = tid \<longrightarrow> \<not> is_active (r_status x)"
    using rs new alone by metis+
  have t2: "find_thread tid w2 = Some (?busy t)" using t1 by (simp add: w2 find_thread_def)
  have run2: "find_run rid tid w2 = Some (started r)"
    by (rule find_run_appended[OF _ new2]) (simp_all add: w2 started_def r)
  let ?r = "(started r)\<lparr>r_status := status, r_updated := now''\<rparr>"
  let ?final = "joint_update patch now'' g (base_joint_status checkpoint exn) checkpoint exn"
  have w3: "res = Inr ()" "w3 = update_thread tid ?final (w2\<lparr>runs := rs @ [?r]\<rparr>)"
    using joint_ends_run[of w2 rs "started r" rid tid, OF _ _ _ t2 new2 alone2 status] report r by (simp_all add: w2 started_def)
  have "find_thread tid w3 = Some (?final (?busy t))"
    unfolding w3(2) using t2 by (intro find_thread_update) (simp_all add: joint_update_def)
  moreover have "find_run rid tid w3 = Some ?r"
    by (rule find_run_appended[OF _ new2]) (simp_all add: w3(2) started_def r)
  moreover have "\<not> has_active_runs tid w3"
    using alone2 status(1) by (auto simp: has_active_runs_def list_ex_iff w3(2))
  ultimately show ?thesis
    using w1(1) run1 t1 r(3) out run2 t2 w3(1)
    by (intro exI[of _ r]) (simp add: started_def joint_update_def busy_thread_def)
qed


definition demo_idle :: world where
  "demo_idle = snd (threads_put no_auth 1 ''t'' [] ''raise'' None
     (snd (assistants_put no_auth any_graph 1 ''a'' (demo_request ''g'') ''raise'' world_init)))"

theorem run_life_cycle_witness:
  "map_option t_status (find_thread ''t'' (snd (threads_set_joint_status demo_env no_auth id 9 ''t'' ''r'' ''success'' ''g'' None None
     (snd (runs_next 3 5 (snd (runs_put no_auth 2 ''f'' demo_run_request demo_idle))))))) = Some ''idle''"
proof -
  have "find_assistant ''a'' demo_idle \<noteq> None" "find_thread ''t'' demo_idle \<noteq> None" by code_simp+
  then obtain a t where rows: "find_assistant (rq_assistant demo_run_request) demo_idle = Some a" "find_thread ''t'' demo_idle = Some t"
    by (auto simp: demo_run_request_def)
  have runs: "runs demo_idle = []" by code_simp
  have q: "rq_thread demo_run_request = Some ''t''" "rq_run demo_run_request = Some ''r''"
    "rq_status demo_run_request = ''pending''" by (simp_all add: demo_run_request_def)
  have time: "plus_seconds 2 (rq_after demo_run_request) = Inr 2"
    by (simp add: plus_seconds_def demo_run_request_def datetime_min_def datetime_max_def)
  show ?thesis
    using run_life_cycle[OF rows _ _ q time _ _ _ _
        prod.collapse[symmetric] prod.collapse[symmetric] prod.collapse[symmetric],
        where now' = 3 and limit = 5 and status = "''success''" and fid = "''f''" and E = demo_env and A = no_auth and patch = id and now'' = 9 and g = "''g''" and checkpoint = None and exn = None]
    by (auto simp: runs has_active_runs_def is_active_def base_joint_status_def has_next_def pending_indices_def)
qed

end
