(* ===== verification/Queue_Drain.thy ===== *)
theory Queue_Drain
  imports Run_Life Scheduler_Props
begin

text \<open>
  The queue over many rounds of its loop. The workers belong to the API server; what is assumed of them is
  the relation \<open>settles\<close>: each ends its run by a call of \<open>Threads.set_joint_status\<close>, in any order, and its task
  is cleaned up (\<open>cleanup\<close> of \<open>queue.py\<close>).
\<close>

section \<open>Rounds\<close>

text \<open>Worker \<open>k\<close> reports the end of its run; the status is one of an ended run.\<close>

definition reports :: "worker \<Rightarrow> world \<Rightarrow> world \<Rightarrow> bool" where
  "reports k w w' \<longleftrightarrow>
     (\<exists>E A patch now status g checkpoint exn. status \<notin> {''rollback'', ''pending'', ''running''} \<and>
        w' = snd (threads_set_joint_status E A patch now (r_thread (wk_run k)) (run_key (r_id (wk_run k))) status g
                    checkpoint exn w))"

text \<open>All workers have ended, and their runners are back in the pool.\<close>

inductive settles :: "queue_config \<Rightarrow> world \<times> scheduler \<Rightarrow> world \<times> scheduler \<Rightarrow> bool" for K where
  settled: "sc_workers s = [] \<Longrightarrow> being_returned s = [] \<Longrightarrow> settles K (w, s) (w, s)"
| ends: "k \<in> set (sc_workers s) \<Longrightarrow> reports k w w1 \<Longrightarrow> settles K (w1, cleanup K put_ok k result s) x \<Longrightarrow>
    settles K (w, s) x"
| delivers: "sc_returning s \<noteq> [] \<Longrightarrow> settles K (w, deliver_runner s) x \<Longrightarrow> settles K (w, s) x"

text \<open>One iteration of the loop, at a wall clock of at least \<open>t\<close>, and then the end of its workers.\<close>

definition work_round :: "queue_config \<Rightarrow> (string \<Rightarrow> bool res) \<Rightarrow> time \<Rightarrow> world \<times> scheduler \<Rightarrow> world \<times> scheduler \<Rightarrow> bool" where
  "work_round K is_js t x x' \<longleftrightarrow>
     (\<exists>clock now y. t \<le> now \<and> poll K is_js clock now x = Some (Inr (), y) \<and> settles K y x')"

section \<open>Runs by identifier\<close>

definition with_status :: "string \<Rightarrow> world \<Rightarrow> uuid option set" where
  "with_status s w = r_id ` {r \<in> set (runs w). r_status r = s}"

definition due :: "time \<Rightarrow> world \<Rightarrow> uuid option set" where
  "due now w = r_id ` {r \<in> set (runs w). r_status r = ''pending'' \<and> r_created r < now}"

text \<open>Runs have distinct identifiers and stored threads.\<close>

definition identified :: "world \<Rightarrow> bool" where
  "identified w \<longleftrightarrow> distinct (map r_id (runs w)) \<and> None \<notin> r_id ` set (runs w) \<and>
     r_thread ` set (runs w) \<subseteq> t_id ` set (threads w)"

lemma stored_thread: "identified w \<Longrightarrow> r \<in> set (runs w) \<Longrightarrow> find_thread (r_thread r) w \<noteq> None"
  by (force simp: identified_def find_thread_def find_None_iff)

section \<open>One run\<close>

definition set_by_id :: "uuid option \<Rightarrow> (run \<Rightarrow> run) \<Rightarrow> run list \<Rightarrow> run list" where
  "set_by_id i f rs = map (\<lambda>r. if r_id r = i then f r else r) rs"

lemma update_first_by_id:
  "distinct (map r_id rs) \<Longrightarrow> r \<in> set rs \<Longrightarrow> r_id r = i \<Longrightarrow> r_thread r = tid \<Longrightarrow>
   update_first (\<lambda>r. r_id r = i \<and> r_thread r = tid) f rs = set_by_id i f rs"
proof (induction rs)
  case (Cons x rs)
  show ?case
  proof (cases "x = r")
    case True
    have "set_by_id i f rs = rs"
      unfolding set_by_id_def using Cons.prems(1,3) True by (intro map_idI) (auto simp: image_iff)
    then show ?thesis using True Cons.prems by (simp add: set_by_id_def)
  next
    case False
    then have "r \<in> set rs" "r_id x \<noteq> i" using Cons.prems by (auto simp: image_iff)
    with Cons show ?thesis by (simp add: set_by_id_def)
  qed
qed simp

lemma joint_by_id:
  assumes "identified w" and r: "r \<in> set (runs w)" "r_id r = Some rid" "r_thread r = tid" and "status \<noteq> ''rollback''"
    and w'_def: "w' = snd (threads_set_joint_status E A patch now tid rid status g checkpoint exn w)"
  shows "runs w' = set_by_id (Some rid) (\<lambda>r. r\<lparr>r_status := status, r_updated := now\<rparr>) (runs w)"
    and "t_id ` set (threads w') = t_id ` set (threads w)"
proof -
  have t: "find_thread tid w \<noteq> None" using stored_thread[OF assms(1) r(1)] r(3) by simp
  have f: "find_run rid tid w \<noteq> None" unfolding find_run_def find_None_iff using r by auto
  have "set_run_status now rid tid status w =
      w\<lparr>runs := set_by_id (Some rid) (\<lambda>r. r\<lparr>r_status := status, r_updated := now\<rparr>) (runs w)\<rparr>"
    unfolding set_run_status_def using update_first_by_id[OF _ r] assms(1) by (simp add: identified_def)
  then have w': "w' = update_thread tid (joint_update patch now g
        (if is_active status \<or> has_active_runs tid (w\<lparr>runs := set_by_id (Some rid) (\<lambda>r. r\<lparr>r_status := status, r_updated := now\<rparr>) (runs w)\<rparr>)
         then ''busy'' else base_joint_status checkpoint exn) checkpoint exn)
      (w\<lparr>runs := set_by_id (Some rid) (\<lambda>r. r\<lparr>r_status := status, r_updated := now\<rparr>) (runs w)\<rparr>)"
    using t f assms(5) by (auto simp: w'_def threads_set_joint_status_def Let_def)
  show "runs w' = set_by_id (Some rid) (\<lambda>r. r\<lparr>r_status := status, r_updated := now\<rparr>) (runs w)" by (simp add: w')
  have "map t_id (threads w') = map t_id (threads w)"
    unfolding w' by (simp add: thread_table.keys_update joint_update_def)
  then show "t_id ` set (threads w') = t_id ` set (threads w)" by (metis list.set_map)
qed

lemma set_by_id_ids: "(\<And>r. r_id (f r) = r_id r) \<Longrightarrow> map r_id (set_by_id i f rs) = map r_id rs"
  by (simp add: set_by_id_def comp_def if_distrib cong: if_cong)


definition row_keys :: "world \<Rightarrow> (uuid option \<times> uuid) list" where
  "row_keys w = map (\<lambda>r. (r_id r, r_thread r)) (runs w)"

lemma identified_keys:
  assumes "row_keys w' = row_keys w" and "t_id ` set (threads w) \<subseteq> t_id ` set (threads w')" and "identified w"
  shows "identified w'"
proof -
  have ids: "map r_id (runs w') = map r_id (runs w)" and tids: "map r_thread (runs w') = map r_thread (runs w)"
    using arg_cong[OF assms(1), of "map fst"] arg_cong[OF assms(1), of "map snd"] by (simp_all add: row_keys_def comp_def)
  from ids have "r_id ` set (runs w') = r_id ` set (runs w)" by (metis list.set_map)
  moreover from tids have "r_thread ` set (runs w') = r_thread ` set (runs w)" by (metis list.set_map)
  moreover have "r_thread ` set (runs w) \<subseteq> t_id ` set (threads w')"
    using assms(2,3) order_trans unfolding identified_def by blast
  ultimately show ?thesis using assms(3) ids by (simp add: identified_def)
qed

lemma set_by_id_status:
  assumes "status \<noteq> s"
  shows "r_id ` {r \<in> set (set_by_id i (\<lambda>r. r\<lparr>r_status := status, r_updated := now\<rparr>) rs). r_status r = s \<and> P (r_created r)} =
         r_id ` {r \<in> set rs. r_status r = s \<and> P (r_created r)} - {i}"
proof -
  let ?f = "\<lambda>r. if r_id r = i then r\<lparr>r_status := status, r_updated := now\<rparr> else r"
  have "{r \<in> ?f ` set rs. r_status r = s \<and> P (r_created r)} = {r \<in> set rs. r_id r \<noteq> i \<and> r_status r = s \<and> P (r_created r)}"
    using assms by (auto simp: image_iff split: if_splits)
  then show ?thesis by (auto simp: set_by_id_def)
qed

text \<open>The end of a run takes it out of the running and the due ones, and touches no other.\<close>

lemma joint_effect:
  assumes "identified w" and "(Some rid, tid) \<in> set (row_keys w)" and status: "status \<notin> {''rollback'', ''pending'', ''running''}"
    and w': "w' = snd (threads_set_joint_status E A patch now tid rid status g checkpoint exn w)"
  shows "row_keys w' = row_keys w" and "identified w'" and "with_status ''running'' w' = with_status ''running'' w - {Some rid}"
    and "due t w' = due t w - {Some rid}"
proof -
  obtain r where r: "r \<in> set (runs w)" "r_id r = Some rid" "r_thread r = tid" using assms(2) by (auto simp: row_keys_def)
  have "status \<noteq> ''rollback''" using status by simp
  note effect = joint_by_id[OF assms(1) r this w']
  show keys: "row_keys w' = row_keys w" by (simp add: row_keys_def effect(1)) (simp add: set_by_id_def)
  show "identified w'" using identified_keys[OF keys _ assms(1)] effect(2) by simp
  show "with_status ''running'' w' = with_status ''running'' w - {Some rid}"
    using set_by_id_status[of status "''running''" "Some rid" now "runs w" "\<lambda>_. True"] status by (simp add: with_status_def effect(1))
  show "due t w' = due t w - {Some rid}"
    using set_by_id_status[of status "''pending''" "Some rid" now "runs w" "\<lambda>c. c < t"] status by (simp add: due_def effect(1))
qed

section \<open>One round\<close>

lemma pending_indices_head:
  assumes "pending_indices now rs = m # ms" and "i \<in> set (pending_indices now rs)"
  shows "r_created (rs ! m) \<le> r_created (rs ! i)"
proof -
  let ?xs = "sort_key (\<lambda>(i, r). r_created r) (filter (\<lambda>(i, r). r_status r = ''pending'' \<and> r_created r < now) (enumerate 0 rs))"
  have row: "x = (fst x, rs ! fst x)" if "x \<in> set ?xs" for x
    using that by (auto simp: in_set_enumerate_eq)
  have "sorted (map (\<lambda>(i, r). r_created r) ?xs)" by simp
  also have "map (\<lambda>(i, r). r_created r) ?xs = map (\<lambda>i. r_created (rs ! i)) (pending_indices now rs)"
    unfolding pending_indices_def map_map comp_def
    by (rule map_cong[OF refl]) (use row in \<open>metis (mono_tags, lifting) case_prod_conv fst_conv\<close>)
  finally show ?thesis using assms by auto
qed

lemma next_effect:
  assumes "identified w" and "with_status ''running'' w = {}"
    and nxt: "runs_next now limit w = (handed_out, w1)" and "t \<le> now"
  shows "row_keys w1 = row_keys w" and "identified w1" and "with_status ''running'' w1 \<subseteq> r_id ` set (map fst handed_out)"
    and "due t w1 \<subseteq> due t w - r_id ` set (map fst handed_out)"
    and "(\<lambda>r. (r_id r, r_thread r)) ` set (map fst handed_out) \<subseteq> set (row_keys w)"
    and "0 < limit \<Longrightarrow> due t w \<noteq> {} \<Longrightarrow> r_id ` set (map fst handed_out) \<inter> due t w \<noteq> {}"
proof -
  define js where "js = take limit (pending_indices now (runs w))"
  have pend: "i < length (runs w) \<and> r_status (runs w ! i) = ''pending'' \<and> r_created (runs w ! i) < now" if "i \<in> set js" for i
    using that by (auto simp: js_def set_pending_indices dest: in_set_takeD)
  have "distinct (pending_indices now (runs w))"
    by (auto simp: pending_indices_def distinct_map inj_on_def in_set_enumerate_eq)
  then have "distinct js" by (simp add: js_def)
  with start_all_spec[of js w] pend nxt obtain c where
    out: "map fst handed_out = map (\<lambda>i. started (runs w ! i)) (chosen js w)" and
    w1: "w1 = w\<lparr>runs := mark_started (set (chosen js w)) (runs w), retry_counter := c\<rparr>"
    by (auto simp: runs_next_def js_def)
  let ?S = "set (chosen js w)"
  have sub: "?S \<subseteq> set js" unfolding chosen_def Let_def by (rule order_trans[OF set_firsts]) auto
  have ids: "r_id ` set (map fst handed_out) = (\<lambda>i. r_id (runs w ! i)) ` ?S"
    by (auto simp: out started_def image_image)
  show keys: "row_keys w1 = row_keys w"
    by (rule nth_equalityI) (auto simp: row_keys_def w1 nth_mark started_def)
  show "identified w1" using identified_keys[OF keys _ assms(1)] by (simp add: w1)
  show "(\<lambda>r. (r_id r, r_thread r)) ` set (map fst handed_out) \<subseteq> set (row_keys w)"
    using pend sub by (auto simp: out started_def row_keys_def image_image)
  show "with_status ''running'' w1 \<subseteq> r_id ` set (map fst handed_out)"
  proof
    fix x assume "x \<in> with_status ''running'' w1"
    then obtain i where i: "i < length (runs w)" "x = r_id (mark_started ?S (runs w) ! i)"
      "r_status (mark_started ?S (runs w) ! i) = ''running''" by (auto simp: with_status_def w1 in_set_conv_nth)
    have "i \<in> ?S"
    proof (rule ccontr)
      assume "i \<notin> ?S"
      with i have "runs w ! i \<in> {r \<in> set (runs w). r_status r = ''running''}" by (simp add: nth_mark)
      with assms(2) show False by (auto simp: with_status_def)
    qed
    with i show "x \<in> r_id ` set (map fst handed_out)" unfolding ids by (auto simp: nth_mark started_def)
  qed
  show "due t w1 \<subseteq> due t w - r_id ` set (map fst handed_out)"
  proof
    fix x assume "x \<in> due t w1"
    then obtain i where i: "i < length (runs w)" "x = r_id (mark_started ?S (runs w) ! i)"
      "r_status (mark_started ?S (runs w) ! i) = ''pending''" "r_created (mark_started ?S (runs w) ! i) < t"
      by (auto simp: due_def w1 in_set_conv_nth)
    then have S: "i \<notin> ?S" by (auto simp: nth_mark started_def)
    have "x \<in> due t w" using i S by (auto simp: due_def nth_mark)
    moreover have "x \<notin> (\<lambda>i. r_id (runs w ! i)) ` ?S"
    proof
      assume "x \<in> (\<lambda>i. r_id (runs w ! i)) ` ?S"
      then obtain j where j: "j \<in> ?S" "map r_id (runs w) ! i = map r_id (runs w) ! j" "j < length (runs w)"
        using i S sub pend by (auto simp: nth_mark)
      then have "i = j" using assms(1) i(1) nth_eq_iff_index_eq[of "map r_id (runs w)" i j] by (simp add: identified_def)
      with j S show False by simp
    qed
    ultimately show "x \<in> due t w - r_id ` set (map fst handed_out)" by (simp only: ids) simp
  qed
  show "r_id ` set (map fst handed_out) \<inter> due t w \<noteq> {}" if pos: "0 < limit" and some: "due t w \<noteq> {}"
  proof -
    obtain r where r: "r \<in> set (runs w)" "r_status r = ''pending''" "r_created r < t" using some by (auto simp: due_def)
    then obtain i where i: "i < length (runs w)" "r = runs w ! i" by (auto simp: in_set_conv_nth)
    with r assms(4) have mem: "i \<in> set (pending_indices now (runs w))" by (simp add: set_pending_indices)
    then obtain m ms where js: "pending_indices now (runs w) = m # ms" by (cases "pending_indices now (runs w)") auto
    have m: "js = m # take (limit - 1) ms" using pos js by (cases limit) (simp_all add: js_def)
    have "r_created (runs w ! m) \<le> r_created (runs w ! i)" by (rule pending_indices_head[OF js mem])
    then have "r_id (runs w ! m) \<in> due t w" using pend[of m] r(3) i(2) by (auto simp: due_def m)
    moreover have free: "find_thread (r_thread (runs w ! i)) w \<noteq> None \<and> \<not> thread_running (r_thread (runs w ! i)) (runs w)"
      if "i \<in> set js" for i
      using stored_thread[OF assms(1)] pend[OF that] assms(2) by (auto simp: thread_running_def list_ex_iff with_status_def)
    have "chosen js w = firsts (\<lambda>i. r_thread (runs w ! i)) js"
      unfolding chosen_def Let_def using free by (simp add: filter_True)
    then have "m \<in> ?S" by (simp add: m)
    ultimately show ?thesis unfolding ids by blast
  qed
qed


section \<open>The workers of a round\<close>

definition worker_ids :: "scheduler \<Rightarrow> uuid option set" where
  "worker_ids s = (\<lambda>k. r_id (wk_run k)) ` set (sc_workers s)"

definition worker_keys :: "scheduler \<Rightarrow> (uuid option \<times> uuid) set" where
  "worker_keys s = (\<lambda>k. (r_id (wk_run k), r_thread (wk_run k))) ` set (sc_workers s)"

lemma cleanup_workers:
  "sc_workers (cleanup K put_ok k result s) = filter (\<lambda>x. wk_task x \<noteq> wk_task k) (sc_workers s)"
  by (simp add: cleanup_def hand_back_def discard_worker_def Let_def split: outcome.split bool.split)

lemma others_left:
  assumes "pool_inv n s" and "k \<in> set (sc_workers s)"
  shows "set (filter (\<lambda>x. wk_task x \<noteq> wk_task k) (sc_workers s)) = set (sc_workers s) - {k}"
proof -
  have "x = k" if "x \<in> set (sc_workers s)" "wk_task x = wk_task k" for x
    using assms that by (auto simp: pool_inv_def distinct_map inj_on_def)
  then show ?thesis by auto
qed

text \<open>Whatever order the workers end in, no run is running afterwards that was not before the round.\<close>

lemma settles_effect:
  assumes "settles K (w, s) (w', s')" and "pool_inv n s" and "identified w" and "worker_keys s \<subseteq> set (row_keys w)"
  shows "row_keys w' = row_keys w \<and> identified w' \<and> pool_inv n s' \<and> sc_workers s' = [] \<and> being_returned s' = [] \<and>
    with_status ''running'' w' = with_status ''running'' w - worker_ids s \<and> due t w' = due t w - worker_ids s"
  using assms
proof (induction "(w, s)" "(w', s')" arbitrary: w s rule: settles.induct)
  case settled
  then show ?case by (simp add: worker_ids_def)
next
  case (ends k s w w1 put_ok result)
  let ?s = "cleanup K put_ok k result s"
  have "(r_id (wk_run k), r_thread (wk_run k)) \<in> set (row_keys w)" using ends.prems(3) ends.hyps(1) by (auto simp: worker_keys_def)
  moreover from this obtain rid where rid: "r_id (wk_run k) = Some rid"
    using ends.prems(2) by (cases "r_id (wk_run k)") (force simp: identified_def row_keys_def)+
  ultimately have key: "(Some rid, r_thread (wk_run k)) \<in> set (row_keys w)" by simp
  obtain E A patch now status g checkpoint exn where status: "status \<notin> {''rollback'', ''pending'', ''running''}"
    and w1: "w1 = snd (threads_set_joint_status E A patch now (r_thread (wk_run k)) rid status g checkpoint exn w)"
    using ends.hyps(2) by (auto simp: reports_def rid run_key_def)
  note effect = joint_effect[OF ends.prems(2) key status w1]
  have left: "set (sc_workers ?s) = set (sc_workers s) - {k}"
    unfolding cleanup_workers by (rule others_left[OF ends.prems(1) ends.hyps(1)])
  have "worker_keys ?s \<subseteq> set (row_keys w1)" using ends.prems(3) left by (auto simp: worker_keys_def effect(1))
  from ends.hyps(4)[OF pool_cleanup[OF ends.prems(1) ends.hyps(1)] effect(2) this]
  have IH: "row_keys w' = row_keys w1 \<and> identified w' \<and> pool_inv n s' \<and> sc_workers s' = [] \<and> being_returned s' = [] \<and>
    with_status ''running'' w' = with_status ''running'' w1 - worker_ids ?s \<and> due t w' = due t w1 - worker_ids ?s" .
  have "worker_ids s = insert (Some rid) (worker_ids ?s)"
  proof -
    have "set (sc_workers s) = insert k (set (sc_workers s) - {k})" using ends.hyps(1) by auto
    from arg_cong[OF this, of "image (\<lambda>k. r_id (wk_run k))"] show ?thesis
      unfolding worker_ids_def left image_insert rid .
  qed
  with IH show ?case unfolding effect(1,3,4) by auto
next
  case (delivers s w)
  have "sc_workers (deliver_runner s) = sc_workers s" by (simp add: deliver_runner_def split: list.split)
  with delivers.hyps(3)[OF pool_deliver[OF delivers.prems(1)] delivers.prems(2)] delivers.prems(3) show ?case
    by (simp add: worker_ids_def worker_keys_def)
qed

text \<open>Between two rounds nothing runs.\<close>

definition between_rounds :: "queue_config \<Rightarrow> world \<times> scheduler \<Rightarrow> bool" where
  "between_rounds K x \<longleftrightarrow>
     (case x of (w, s) \<Rightarrow> identified w \<and> with_status ''running'' w = {} \<and> pool_inv (n_jobs K) s \<and>
        sc_workers s = [] \<and> being_returned s = [])"

lemma idle_pool_size:
  assumes "pool_inv n s" and "sc_workers s = []" and "being_returned s = []"
  shows "length (sc_free s @ sc_expired s) = n"
proof -
  have "mset (sc_free s @ sc_expired s) = mset [0..<n]" using assms by (simp add: pool_inv_def)
  from arg_cong[OF this, of size] show ?thesis by (simp only: size_mset length_upt)
qed

lemma finite_due [simp]: "finite (due now w)"
  by (simp add: due_def)

lemma poll_of_idle:
  assumes js: "\<forall>g. \<exists>b. is_js g = Inr b" and jobs: "0 < n_jobs K" and idle: "between_rounds K (w, s)"
    and nxt: "runs_next now (n_jobs K) w = (served, w1)"
  obtains s1 where "poll K is_js clock now (w, s) = Some (Inr (), w1, s1)" and "pool_inv (n_jobs K) s1"
    and "sc_leaving s1 = []" and "map wk_run (sc_workers s1) = map fst served"
proof -
  note inv = idle[unfolded between_rounds_def prod.case]
  have size: "length (sc_free s @ sc_expired s) = n_jobs K" using idle_pool_size inv by blast
  with jobs have free: "sc_free s @ sc_expired s \<noteq> []" by (cases "sc_free s @ sc_expired s") simp_all
  have len: "length served \<le> length (sc_free s @ sc_expired s)" using length_runs_next[of now "n_jobs K" w] nxt size by simp
  from poll_ok[OF js free, of now w served w1 K clock "n_jobs K"] nxt size obtain s1 where
    "poll K is_js clock now (w, s) = Some (Inr (), w1, s1)" "pool_inv (n_jobs K) s1"
    "sc_workers s1 = new_workers (sc_tasks s) (sc_free s @ sc_expired s) served" "sc_leaving s1 = []"
    using inv by (auto simp: being_returned_def)
  with new_workers_fields(3)[OF len] show thesis by (intro that[of s1]) simp_all
qed

lemma work_round_effect:
  assumes js: "\<forall>g. \<exists>b. is_js g = Inr b" and jobs: "0 < n_jobs K" and idle: "between_rounds K (w, s)"
    and step: "work_round K is_js t (w, s) (w', s')"
  shows "between_rounds K (w', s')" and "row_keys w' = row_keys w" and "due t w' \<subseteq> due t w"
    and "due t w \<noteq> {} \<Longrightarrow> card (due t w') < card (due t w)"
proof -
  note inv = idle[unfolded between_rounds_def prod.case]
  from step obtain clock now v s1 where t: "t \<le> now" and poll: "poll K is_js clock now (w, s) = Some (Inr (), v, s1)"
    and settles: "settles K (v, s1) (w', s')" by (auto simp: work_round_def)
  obtain served w1 where nxt: "runs_next now (n_jobs K) w = (served, w1)" by fastforce
  from poll_of_idle[OF js jobs idle nxt, of clock] poll
  have v: "v = w1" and pool: "pool_inv (n_jobs K) s1" and ws: "map wk_run (sc_workers s1) = map fst served" by auto
  have ids: "worker_ids s1 = r_id ` set (map fst served)" and keys: "worker_keys s1 = (\<lambda>r. (r_id r, r_thread r)) ` set (map fst served)"
    unfolding worker_ids_def worker_keys_def by (simp_all only: ws[symmetric] set_map image_image)
  note start = next_effect[OF _ _ nxt t]
  have "worker_keys s1 \<subseteq> set (row_keys w1)" using start(1,5) inv keys by simp
  from settles_effect[OF settles[unfolded v] pool _ this, of t] start(2) inv
  have fin: "row_keys w' = row_keys w1" "identified w'" "pool_inv (n_jobs K) s'" "sc_workers s' = []" "being_returned s' = []"
    "with_status ''running'' w' = with_status ''running'' w1 - worker_ids s1" "due t w' = due t w1 - worker_ids s1" by blast+
  show "row_keys w' = row_keys w" using fin(1) start(1) inv by simp
  show "between_rounds K (w', s')" using fin(2-6) start(3) inv ids unfolding between_rounds_def by auto
  have less: "due t w' \<subseteq> due t w - r_id ` set (map fst served)" using fin(7) start(4) inv ids by blast
  then show "due t w' \<subseteq> due t w" by blast
  assume "due t w \<noteq> {}"
  with start(6) inv jobs have "r_id ` set (map fst served) \<inter> due t w \<noteq> {}" by blast
  with less have "due t w' \<subset> due t w" by blast
  then show "card (due t w') < card (due t w)" by (simp add: psubset_card_mono)
qed


text \<open>A round is always possible: the workers can end one after the other.\<close>

lemma settles_deliver:
  "sc_leaving s = [] \<Longrightarrow> sc_workers s = [] \<Longrightarrow> \<exists>x. settles K (w, s) x"
proof (induction "sc_returning s" arbitrary: s)
  case Nil
  then have "settles K (w, s) (w, s)" by (intro settles.settled) (simp_all add: being_returned_def)
  then show ?case by (rule exI)
next
  case (Cons r rs)
  have "\<exists>x. settles K (w, deliver_runner s) x"
    using Cons.prems by (intro Cons.hyps(1)) (simp_all add: deliver_runner_def flip: Cons.hyps(2))
  then obtain x where "settles K (w, deliver_runner s) x" by blast
  moreover have "sc_returning s \<noteq> []" using Cons.hyps(2) by auto
  ultimately show ?case by (blast intro: settles.delivers)
qed

lemma cleanup_leaving: "sc_leaving s = [] \<Longrightarrow> sc_leaving (cleanup K put_ok k result s) = []"
  by (simp add: cleanup_def hand_back_def discard_worker_def Let_def split: outcome.split bool.split)

lemma settles_possible: "pool_inv n s \<Longrightarrow> sc_leaving s = [] \<Longrightarrow> \<exists>x. settles K (w, s) x"
proof (induction "length (sc_workers s)" arbitrary: w s)
  case 0
  then show ?case by (intro settles_deliver) simp_all
next
  case (Suc m)
  then obtain k ks where ks: "sc_workers s = k # ks" by (cases "sc_workers s") auto
  let ?w = "snd (threads_set_joint_status demo_env no_auth id 0 (r_thread (wk_run k)) (run_key (r_id (wk_run k)))
              ''success'' [] None None w)"
  let ?s = "cleanup K True k Task_cancelled s"
  have k: "k \<in> set (sc_workers s)" by (simp add: ks)
  have "distinct (map wk_task (sc_workers s))" using Suc.prems(1) by (simp add: pool_inv_def)
  then have "filter (\<lambda>x. wk_task x \<noteq> wk_task k) ks = ks" by (auto simp: ks filter_id_conv image_iff)
  then have "m = length (sc_workers ?s)" using Suc.hyps(2) by (simp add: cleanup_workers ks)
  from Suc.hyps(1)[OF this pool_cleanup[OF Suc.prems(1) k] cleanup_leaving[OF Suc.prems(2)]]
  obtain x where "settles K (?w, ?s) x" by blast
  moreover have "reports k w ?w" unfolding reports_def by (intro exI conjI) (auto intro: refl)
  ultimately show ?case using k by (blast intro: settles.ends)
qed

lemma work_round_possible:
  assumes "\<forall>g. \<exists>b. is_js g = Inr b" and "0 < n_jobs K" and "between_rounds K (w, s)"
  shows "\<exists>x. work_round K is_js t (w, s) x"
proof -
  obtain served w1 where nxt: "runs_next t (n_jobs K) w = (served, w1)" by fastforce
  from poll_of_idle[OF assms nxt, of 0] obtain s1 where
    poll: "poll K is_js 0 t (w, s) = Some (Inr (), w1, s1)" "pool_inv (n_jobs K) s1" "sc_leaving s1 = []" by blast
  with settles_possible[OF poll(2,3)] show ?thesis by (fastforce simp: work_round_def)
qed

section \<open>The queue drains\<close>

text \<open>
  C6. The queue drains. Let the pool have at least one runner, recognising a JavaScript graph never raise,
  the runs have distinct identifiers, and in the beginning no run be running and no worker be there. Then,
  as long as nothing else happens than rounds, in which the loop of the queue polls and the workers it
  started end their runs through \<open>Threads.set_joint_status\<close> (with any status but a rollback, which deletes the run), none of the runs that were due is left pending
  after at most as many rounds as there were: no run waits for ever behind the others of its thread or
  behind other threads. No run is lost or invented on the way, none is left running, and the rounds can
  always go on.
\<close>

theorem queue_drains:
  assumes "distinct (map r_id (runs w))" and "None \<notin> r_id ` set (runs w)" and "world_inv w"
    and "\<not> list_ex (\<lambda>r. r_status r = ''running'') (runs w)" and "\<forall>g. \<exists>b. is_js g = Inr b" and "0 < n_jobs K"
    and "(work_round K is_js t ^^ n) (w, scheduler_init K) (w', s')" and "card (due t w) \<le> n"
  shows "due t w' = {} \<and> with_status ''running'' w' = {} \<and> row_keys w' = row_keys w \<and>
    (\<exists>x. work_round K is_js t (w', s') x)"
proof -
  have start: "between_rounds K (w, scheduler_init K)"
    using assms(1-4) world_inv_parts(2)[OF assms(3)] pool_init[of K]
    by (auto simp: between_rounds_def identified_def with_status_def list_ex_iff scheduler_init_def being_returned_def)
  have "between_rounds K (w', s') \<and> row_keys w' = row_keys w \<and> card (due t w') \<le> card (due t w) - n"
    using assms(7)
  proof (induction n arbitrary: w' s')
    case 0
    then show ?case using start by simp
  next
    case (Suc n)
    then obtain v s where v: "(work_round K is_js t ^^ n) (w, scheduler_init K) (v, s)" and
      step: "work_round K is_js t (v, s) (w', s')" by auto
    note IH = Suc.IH[OF v] and effect = work_round_effect[OF assms(5,6) _ step]
    have "card (due t w') \<le> card (due t w) - Suc n"
    proof (cases "due t v = {}")
      case True
      then have "due t w' = {}" using effect(3) IH by blast
      then show ?thesis by simp
    next
      case False
      with effect(4) IH show ?thesis by linarith
    qed
    then show ?case using effect(1,2) IH by simp
  qed
  with assms(8) have "between_rounds K (w', s')" "row_keys w' = row_keys w" "due t w' = {}" by simp_all
  with work_round_possible[OF assms(5,6), of w' s' t] show ?thesis by (simp add: between_rounds_def)
qed

text \<open>Two runs of one thread, so that the second waits for a second round.\<close>

definition demo_two_runs :: world where
  "demo_two_runs = snd (runs_put no_auth 3 ''f'' (demo_run_request\<lparr>rq_run := Some ''r2''\<rparr>) demo_created)"

theorem queue_drains_witness:
  "\<exists>w' s'. (work_round demo_queue no_js 9 ^^ 2) (demo_two_runs, scheduler_init demo_queue) (w', s') \<and>
     card (due 9 demo_two_runs) = 2 \<and> due 9 w' = {}"
proof -
  have ids: "map r_id (runs demo_two_runs) = [Some ''r'', Some ''r2'']" and
    rows: "map (\<lambda>r. (r_status r, r_created r)) (runs demo_two_runs) = [(''pending'', 2), (''pending'', 3)]"
    by code_simp+
  from ids rows obtain a b where ab: "runs demo_two_runs = [a, b]" "r_id a = Some ''r''" "r_id b = Some ''r2''"
    "r_status a = ''pending''" "r_status b = ''pending''" "r_created a = 2" "r_created b = 3"
    by (auto simp: map_eq_Cons_conv)
  have "due 9 demo_two_runs = {Some ''r'', Some ''r2''}" by (force simp: due_def ab image_iff)
  then have two: "card (due 9 demo_two_runs) = 2" by simp
  have none: "threads (snd (assistants_put no_auth any_graph 1 ''a'' (demo_request ''g'') ''raise'' world_init)) = []" and
    one: "t_id ` set (threads demo_created) = {''t''}" by code_simp+
  have "world_inv demo_created"
    unfolding demo_created_def
    by (intro runs_put_inv assistants_put_inv world_inv_init) (simp_all add: demo_run_request_def none)
  then have inv: "world_inv demo_two_runs"
    unfolding demo_two_runs_def by (rule runs_put_inv) (simp_all add: one demo_run_request_def)
  have jobs: "0 < n_jobs demo_queue" by (simp add: demo_queue_def)
  have start: "between_rounds demo_queue (demo_two_runs, scheduler_init demo_queue)"
    using world_inv_parts(2)[OF inv] pool_init[of demo_queue]
    by (auto simp: between_rounds_def identified_def with_status_def ab scheduler_init_def being_returned_def)
  from work_round_possible[OF no_js_total jobs start] obtain w1 s1 where
    r1: "work_round demo_queue no_js 9 (demo_two_runs, scheduler_init demo_queue) (w1, s1)" by fastforce
  from work_round_possible[OF no_js_total jobs work_round_effect(1)[OF no_js_total jobs start r1]] obtain w2 s2 where
    r2: "work_round demo_queue no_js 9 (w1, s1) (w2, s2)" by fastforce
  have "(work_round demo_queue no_js 9 ^^ 2) (demo_two_runs, scheduler_init demo_queue) (w2, s2)"
    unfolding numeral_2_eq_2 using r1 r2 by auto
  with queue_drains[OF _ _ inv _ no_js_total jobs this] two show ?thesis by (auto simp: ab)
qed

end
