(* ===== verification/Runners.thy ===== *)
theory Runners
  imports Scheduler
begin

text \<open>
  \<open>BgLoopRunner\<close> of \<open>queue.py\<close>: with isolated loops every runner has an executor with one thread, whose
  futures it puts into \<open>WORKERS\<close>. The queue's thread and the runner's thread interleave; each definition is
  a step of one of them, and an \<open>action\<close> names it. The executor and its futures are Python's
  \<open>concurrent.futures\<close>: \<open>submit\<close> queues an item, a future that is over calls a callback added late at once.
\<close>

section \<open>A runner\<close>

datatype future = Future_pending | Future_running | Future_cancelled | Future_finished

definition is_over :: "future \<Rightarrow> bool" where
  "is_over f \<longleftrightarrow> f = Future_cancelled \<or> f = Future_finished"

text \<open>
  Futures are numbered in the order of submission. \<open>items\<close> is the queue of the executor, \<open>current\<close> the item
  its thread is busy with, \<open>hooked\<close> the futures whose callback is registered, \<open>cleaned\<close> the calls of
  \<open>cleanup\<close>, and \<open>submitting\<close> the future between the lines of \<open>submit\<close> (and whether \<open>WORKERS\<close> has it).
  \<open>available\<close> says that the runner is in the pool, \<open>returning\<close> that \<open>cleanup\<close> has handed it back and the
  queue's thread has not put it there yet.
\<close>

record bg_runner =
  futures :: "future list"
  items :: "nat list"
  current :: "nat option"
  submitting :: "(nat \<times> bool) option"
  worker_set :: "nat set"
  hooked :: "nat set"
  cleaned :: "nat list"
  available :: bool
  returning :: bool
  closed :: bool
  cancel_asked :: "nat list"

definition enter_runner :: bg_runner where
  "enter_runner = \<lparr>futures = [], items = [], current = None, submitting = None, worker_set = {}, hooked = {},
     cleaned = [], available = True, returning = False, closed = False, cancel_asked = []\<rparr>"

text \<open>
  What \<open>cleanup\<close> does for the runner: its future leaves \<open>WORKERS\<close> and \<open>call_soon_threadsafe\<close> queues the call
  of \<open>put_nowait\<close>, which the queue's thread makes later (\<open>put_back\<close>); if it raises, \<open>put_back\<close> is the
  re-queueing of the expired runner. The rest of \<open>cleanup\<close> is in \<open>Scheduler\<close>.
\<close>

definition runner_cleanup :: "nat \<Rightarrow> bg_runner \<Rightarrow> bg_runner" where
  "runner_cleanup i s = s\<lparr>worker_set := worker_set s - {i}, cleaned := cleaned s @ [i], returning := True\<rparr>"

definition put_back :: "bg_runner \<Rightarrow> bg_runner" where
  "put_back s = s\<lparr>available := True, returning := False\<rparr>"

definition call_hooked :: "nat \<Rightarrow> bg_runner \<Rightarrow> bg_runner" where
  "call_hooked i s = (if i \<in> hooked s then runner_cleanup i (s\<lparr>hooked := hooked s - {i}\<rparr>) else s)"

section \<open>The queue's thread\<close>

text \<open>\<open>submit\<close>, line by line: the executor (closed, it raises), \<open>WORKERS.add\<close>, \<open>add_done_callback\<close>.\<close>

definition submit_item :: "bg_runner \<Rightarrow> unit res \<times> bg_runner" where
  "submit_item s =
     (let s1 = s\<lparr>available := False\<rparr>
      in if closed s then (Inl (PyError ''RuntimeError''), s1)
         else (Inr (), s1\<lparr>futures := futures s @ [Future_pending], items := items s @ [length (futures s)],
                         submitting := Some (length (futures s), False)\<rparr>))"

definition add_worker :: "nat \<Rightarrow> bg_runner \<Rightarrow> bg_runner" where
  "add_worker i s = s\<lparr>worker_set := insert i (worker_set s), submitting := Some (i, True)\<rparr>"

definition add_callback :: "nat \<Rightarrow> bg_runner \<Rightarrow> bg_runner" where
  "add_callback i s =
     (let s1 = s\<lparr>submitting := None\<rparr>
      in if is_over (futures s ! i) then runner_cleanup i s1 else s1\<lparr>hooked := insert i (hooked s)\<rparr>)"

text \<open>\<open>Future.cancel\<close>: only a future whose item has not begun is cancelled, and its callback runs at once.\<close>

definition cancel_future :: "nat \<Rightarrow> bg_runner \<Rightarrow> bg_runner" where
  "cancel_future i s =
     (if futures s ! i = Future_pending
      then call_hooked i (s\<lparr>futures := (futures s)[i := Future_cancelled]\<rparr>) else s)"

text \<open>\<open>__exit__\<close>: the task on the runner's loop is asked to stop, the executor takes no more items.\<close>

definition exit_runner :: "bg_runner \<Rightarrow> bg_runner" where
  "exit_runner s =
     s\<lparr>cancel_asked := cancel_asked s @
         (case current s of Some i \<Rightarrow> if futures s ! i = Future_running then [i] else [] | None \<Rightarrow> []),
       closed := True\<rparr>"

section \<open>The runner's thread\<close>

text \<open>It takes the next item (dropping one that was cancelled), runs it to its end, and calls the callback.\<close>

definition take_item :: "nat \<Rightarrow> bg_runner \<Rightarrow> bg_runner" where
  "take_item i s =
     (let s1 = s\<lparr>items := tl (items s)\<rparr>
      in if futures s ! i = Future_pending
         then s1\<lparr>futures := (futures s)[i := Future_running], current := Some i\<rparr> else s1)"

definition finish_item :: "nat \<Rightarrow> bg_runner \<Rightarrow> bg_runner" where
  "finish_item i s = s\<lparr>futures := (futures s)[i := Future_finished]\<rparr>"

definition after_item :: "nat \<Rightarrow> bg_runner \<Rightarrow> bg_runner" where
  "after_item i s = call_hooked i (s\<lparr>current := None\<rparr>)"

section \<open>Interleavings\<close>

inductive runner_step :: "bg_runner \<Rightarrow> bg_runner \<Rightarrow> bool" where
  submit: "available s \<Longrightarrow> submitting s = None \<Longrightarrow> runner_step s (snd (submit_item s))"
| add_worker: "submitting s = Some (i, False) \<Longrightarrow> runner_step s (add_worker i s)"
| add_callback: "submitting s = Some (i, True) \<Longrightarrow> runner_step s (add_callback i s)"
| cancel: "submitting s = None \<Longrightarrow> i < length (futures s) \<Longrightarrow> runner_step s (cancel_future i s)"
| exit: "submitting s = None \<Longrightarrow> runner_step s (exit_runner s)"
| put_back: "returning s \<Longrightarrow> submitting s = None \<Longrightarrow> runner_step s (put_back s)"
| take_item: "current s = None \<Longrightarrow> items s = i # is \<Longrightarrow> runner_step s (take_item i s)"
| finish_item: "current s = Some i \<Longrightarrow> futures s ! i = Future_running \<Longrightarrow> runner_step s (finish_item i s)"
| after_item: "current s = Some i \<Longrightarrow> futures s ! i = Future_finished \<Longrightarrow> runner_step s (after_item i s)"


inductive_cases runner_stepE: "runner_step s s'"

section \<open>The invariant\<close>

text \<open>The books of a runner: which futures are registered where. Then, where its thread is.\<close>

definition books_ok :: "bg_runner \<Rightarrow> bool" where
  "books_ok s \<longleftrightarrow>
     distinct (cleaned s) \<and> (\<forall>i\<in>set (cleaned s). i < length (futures s)) \<and>
     (\<forall>i. Suc i < length (futures s) \<longrightarrow> i \<in> set (cleaned s)) \<and>
     (available s \<or> returning s \<longrightarrow> (\<forall>i<length (futures s). i \<in> set (cleaned s))) \<and> \<not> (available s \<and> returning s) \<and>
     (\<forall>i. i \<in> worker_set s \<longleftrightarrow> i < length (futures s) \<and> i \<notin> set (cleaned s) \<and> submitting s \<noteq> Some (i, False)) \<and>
     (\<forall>i. i \<in> hooked s \<longleftrightarrow> i < length (futures s) \<and> i \<notin> set (cleaned s) \<and> (\<forall>b. submitting s \<noteq> Some (i, b))) \<and>
     (\<forall>i b. submitting s = Some (i, b) \<longrightarrow> i < length (futures s) \<and> i \<notin> set (cleaned s))"

definition registering :: "nat \<Rightarrow> bg_runner \<Rightarrow> bool" where
  "registering i s \<longleftrightarrow> (\<exists>b. submitting s = Some (i, b))"

definition place_ok :: "bg_runner \<Rightarrow> nat \<Rightarrow> bool" where
  "place_ok s i \<longleftrightarrow>
     (case futures s ! i of
        Future_pending \<Rightarrow> i \<in> set (items s) \<and> current s \<noteq> Some i \<and> i \<notin> set (cleaned s)
      | Future_running \<Rightarrow> i \<notin> set (items s) \<and> current s = Some i \<and> i \<notin> set (cleaned s)
      | Future_cancelled \<Rightarrow> current s \<noteq> Some i \<and> (i \<in> set (cleaned s) \<or> registering i s)
      | Future_finished \<Rightarrow> i \<notin> set (items s) \<and> (i \<in> set (cleaned s) \<or> registering i s \<or> current s = Some i))"

definition thread_ok :: "bg_runner \<Rightarrow> bool" where
  "thread_ok s \<longleftrightarrow>
     (\<forall>i<length (futures s). place_ok s i) \<and> distinct (items s) \<and> (\<forall>i\<in>set (items s). i < length (futures s)) \<and>
     (\<forall>i. current s = Some i \<longrightarrow> i < length (futures s))"

definition runner_inv :: "bg_runner \<Rightarrow> bool" where
  "runner_inv s \<longleftrightarrow> books_ok s \<and> thread_ok s"

lemma runner_inv_init: "runner_inv enter_runner"
  by (simp add: runner_inv_def books_ok_def thread_ok_def enter_runner_def)

lemma booksD:
  assumes "books_ok s"
  shows "distinct (cleaned s)" and "i \<in> set (cleaned s) \<Longrightarrow> i < length (futures s)"
    and "i < length (futures s) \<Longrightarrow> i \<notin> set (cleaned s) \<Longrightarrow> length (futures s) = Suc i"
    and "available s \<or> returning s \<Longrightarrow> i < length (futures s) \<Longrightarrow> i \<in> set (cleaned s)"
    and "i \<in> worker_set s \<longleftrightarrow> i < length (futures s) \<and> i \<notin> set (cleaned s) \<and> submitting s \<noteq> Some (i, False)"
    and "i \<in> hooked s \<longleftrightarrow> i < length (futures s) \<and> i \<notin> set (cleaned s) \<and> (\<forall>b. submitting s \<noteq> Some (i, b))"
    and "submitting s = Some (i, b) \<Longrightarrow> i < length (futures s)" and "submitting s = Some (i, b) \<Longrightarrow> i \<notin> set (cleaned s)"
    and "\<not> (available s \<and> returning s)"
proof -
  note a1 = assms[unfolded books_ok_def]
  note a2 = conjunct2[OF a1] note a3 = conjunct2[OF a2] note a4 = conjunct2[OF a3] note a5 = conjunct2[OF a4]
  note a6 = conjunct2[OF a5] note a7 = conjunct2[OF a6] note a8 = conjunct2[OF a7]
  show "distinct (cleaned s)" by (rule conjunct1[OF a1])
  show "i \<in> set (cleaned s) \<Longrightarrow> i < length (futures s)" using conjunct1[OF a2] by simp
  show "i < length (futures s) \<Longrightarrow> i \<notin> set (cleaned s) \<Longrightarrow> length (futures s) = Suc i"
    using conjunct1[OF a3, rule_format, of i] by (cases "Suc i < length (futures s)") simp_all
  show "available s \<or> returning s \<Longrightarrow> i < length (futures s) \<Longrightarrow> i \<in> set (cleaned s)"
    using conjunct1[OF a4] by simp
  show "\<not> (available s \<and> returning s)" by (rule conjunct1[OF a5])
  show "i \<in> worker_set s \<longleftrightarrow> i < length (futures s) \<and> i \<notin> set (cleaned s) \<and> submitting s \<noteq> Some (i, False)"
    by (rule conjunct1[OF a6, rule_format])
  show "i \<in> hooked s \<longleftrightarrow> i < length (futures s) \<and> i \<notin> set (cleaned s) \<and> (\<forall>b. submitting s \<noteq> Some (i, b))"
    by (rule conjunct1[OF a7, rule_format])
  show "submitting s = Some (i, b) \<Longrightarrow> i < length (futures s)" "submitting s = Some (i, b) \<Longrightarrow> i \<notin> set (cleaned s)"
    using a8 by blast+
qed

text \<open>A future that is not cleaned up is the last one, and the only one.\<close>

lemma one_left:
  assumes "books_ok s" and "i < length (futures s)" and "i \<notin> set (cleaned s)"
  shows "length (futures s) = Suc i" and "j \<in> set (cleaned s) \<longleftrightarrow> j < i" and "\<not> available s" and "\<not> returning s"
proof -
  note b = booksD[OF assms(1)]
  show n: "length (futures s) = Suc i" by (rule b(3)[OF assms(2,3)])
  show "j \<in> set (cleaned s) \<longleftrightarrow> j < i" using b(2)[of j] b(3)[of j] assms(2,3) n by (auto simp: less_Suc_eq)
  show "\<not> available s" "\<not> returning s" using b(4)[of i] assms(2,3) by blast+
qed

text \<open>The future that is cleaned up was the only one left.\<close>

lemma cleanup_books:
  assumes "books_ok s" and i: "i < length (futures s)" "i \<notin> set (cleaned s)"
    and sub: "submitting s = None \<or> submitting s = Some (i, True)"
    and s': "length (futures s') = length (futures s)" "submitting s' = None" "hooked s' = hooked s - {i}"
      "worker_set s' = worker_set s - {i}" "cleaned s' = cleaned s @ [i]" "available s' = available s"
  shows "books_ok s'"
proof -
  note b = booksD[OF assms(1)] and left = one_left[OF assms(1) i]
  show ?thesis unfolding books_ok_def using b(1) sub
    by (auto simp: s' left b(5,6))
qed

lemma hooked_alone:
  assumes "books_ok s" and "i \<in> hooked s"
  shows "i < length (futures s)" and "i \<notin> set (cleaned s)" and "submitting s = None"
proof -
  note b = booksD[OF assms(1)]
  show i: "i < length (futures s)" "i \<notin> set (cleaned s)" using assms(2) b(6) by simp_all
  show "submitting s = None"
  proof (cases "submitting s")
    case (Some x)
    then obtain j c where j: "submitting s = Some (j, c)" by (cases x) auto
    then have "j = i" using b(3)[OF b(7,8)[OF j]] b(3)[OF i] by simp
    then show ?thesis using j assms(2)[unfolded b(6)] by blast
  qed simp
qed

lemma books_frame [simp]:
  "length fs = length (futures s) \<Longrightarrow> books_ok (s\<lparr>futures := fs\<rparr>) = books_ok s"
  "books_ok (s\<lparr>items := is\<rparr>) = books_ok s" "books_ok (s\<lparr>current := c\<rparr>) = books_ok s"
  "books_ok (s\<lparr>closed := d\<rparr>) = books_ok s" "books_ok (s\<lparr>cancel_asked := cs\<rparr>) = books_ok s"
  by (simp_all add: books_ok_def)

lemma call_hooked_books:
  assumes "books_ok s"
  shows "books_ok (call_hooked i s)"
proof (cases "i \<in> hooked s")
  case True
  note alone = hooked_alone[OF assms True]
  show ?thesis
    by (rule cleanup_books[OF assms alone(1,2)]) (simp_all add: call_hooked_def runner_cleanup_def True alone)
qed (simp add: call_hooked_def assms)

lemma add_worker_books:
  assumes "books_ok s" and sub: "submitting s = Some (i, False)"
  shows "books_ok (add_worker i s)"
proof -
  note b = booksD[OF assms(1)]
  note left = one_left[OF assms(1) b(7,8)[OF sub]]
  show ?thesis unfolding books_ok_def add_worker_def using b(1) by (auto simp: left b(5,6) sub)
qed

lemma add_callback_books:
  assumes "books_ok s" and sub: "submitting s = Some (i, True)"
  shows "books_ok (add_callback i s)"
proof -
  note b = booksD[OF assms(1)]
  note i = b(7,8)[OF sub]
  note left = one_left[OF assms(1) i]
  show ?thesis
  proof (cases "is_over (futures s ! i)")
    case True
    have "hooked s - {i} = hooked s" using b(6)[of i] sub by blast
    then show ?thesis
      by (intro cleanup_books[OF assms(1) i]) (simp_all add: add_callback_def runner_cleanup_def Let_def True sub)
  next
    case False
    then show ?thesis unfolding books_ok_def add_callback_def Let_def using b(1) by (auto simp: left b(5,6) sub)
  qed
qed

lemma submit_books: 
  assumes "books_ok s" and "available s" and "submitting s = None"
  shows "books_ok (snd (submit_item s))"
proof -
  note b = booksD[OF assms(1)]
  have all: "i \<in> set (cleaned s) \<longleftrightarrow> i < length (futures s)" for i using b(2,4) assms(2) by blast
  have [simp]: "\<not> returning s" using b(9) assms(2) by blast
  show ?thesis unfolding books_ok_def submit_item_def Let_def using b(1) assms(3)
    by (auto simp: all b(5,6))
qed


lemma threadD:
  assumes "thread_ok s"
  shows "i < length (futures s) \<Longrightarrow> place_ok s i" and "distinct (items s)"
    and "i \<in> set (items s) \<Longrightarrow> i < length (futures s)" and "current s = Some i \<Longrightarrow> i < length (futures s)"
  using assms by (simp_all add: thread_ok_def)

lemma place_cong:
  "futures s' ! i = futures s ! i \<Longrightarrow> i \<in> set (items s') \<longleftrightarrow> i \<in> set (items s) \<Longrightarrow> current s' = Some i \<longleftrightarrow> current s = Some i \<Longrightarrow>
   i \<in> set (cleaned s') \<longleftrightarrow> i \<in> set (cleaned s) \<Longrightarrow> registering i s' \<longleftrightarrow> registering i s \<Longrightarrow> place_ok s' i = place_ok s i"
  by (cases "futures s ! i") (simp_all add: place_ok_def)

lemma submit_thread:
  assumes "thread_ok s" and "books_ok s" and "submitting s = None"
  shows "thread_ok (snd (submit_item s))"
proof (cases "closed s")
  case False
  note t = threadD[OF assms(1)] and b = booksD(2)[OF assms(2)]
  have "place_ok (snd (submit_item s)) i" if "i < Suc (length (futures s))" for i
    using t(1)[of i] t(3,4)[of i] b[of i] that assms(3) False
    by (cases "i = length (futures s)") (auto simp: place_ok_def registering_def submit_item_def nth_append split: future.splits)
  then show ?thesis
    using False t(2-4) by (fastforce simp: thread_ok_def submit_item_def)
next
  case True
  have "place_ok (s\<lparr>available := False\<rparr>) i = place_ok s i" for i
    by (rule place_cong) (simp_all add: registering_def)
  with True assms(1) show ?thesis by (simp add: thread_ok_def submit_item_def)
qed

lemma add_worker_thread:
  assumes "thread_ok s" and "submitting s = Some (i, False)"
  shows "thread_ok (add_worker i s)"
proof -
  have "place_ok (add_worker i s) j = place_ok s j" for j
    by (rule place_cong) (auto simp: add_worker_def registering_def assms(2))
  with assms(1) show ?thesis by (simp add: thread_ok_def) (simp add: add_worker_def)
qed

lemma put_back_inv:
  assumes "runner_inv s" and "returning s"
  shows "runner_inv (put_back s)"
proof -
  have inv: "books_ok s" "thread_ok s" using assms(1) by (simp_all add: runner_inv_def)
  have eqs: "futures (put_back s) = futures s" "cleaned (put_back s) = cleaned s" "hooked (put_back s) = hooked s"
    "worker_set (put_back s) = worker_set s" "submitting (put_back s) = submitting s" "\<not> returning (put_back s)"
    by (simp_all add: put_back_def)
  have "books_ok (put_back s)"
    using inv(1) assms(2) eqs(6) unfolding books_ok_def eqs(1-5) by (elim conjE) (intro conjI, blast+)
  moreover have "place_ok (put_back s) i = place_ok s i" for i
    by (rule place_cong) (simp_all add: put_back_def registering_def)
  with inv(2) have "thread_ok (put_back s)" by (simp add: thread_ok_def) (simp add: put_back_def)
  ultimately show ?thesis by (simp add: runner_inv_def)
qed

text \<open>A step that concerns one future leaves the places of the others.\<close>

lemma thread_step:
  assumes "thread_ok s" and "length (futures s') = length (futures s)"
    and "\<And>j. j \<noteq> i \<Longrightarrow> futures s' ! j = futures s ! j \<and> (j \<in> set (items s') \<longleftrightarrow> j \<in> set (items s)) \<and>
           (current s' = Some j \<longleftrightarrow> current s = Some j) \<and> (j \<in> set (cleaned s') \<longleftrightarrow> j \<in> set (cleaned s)) \<and>
           (registering j s' \<longleftrightarrow> registering j s)"
    and "i < length (futures s) \<Longrightarrow> place_ok s i \<Longrightarrow> place_ok s' i" and "distinct (items s')"
    and "i \<in> set (items s') \<Longrightarrow> i < length (futures s)" and "current s' = Some i \<Longrightarrow> i < length (futures s)"
  shows "thread_ok s'"
proof -
  note t = threadD[OF assms(1)]
  have "place_ok s' j" if "j < length (futures s)" for j
    using assms(3)[of j] assms(4) t(1)[OF that] that place_cong[of s' j s] by (cases "j = i") auto
  moreover have "j < length (futures s)" if "j \<in> set (items s')" for j
    using assms(3)[of j] assms(6) t(3)[of j] that by (cases "j = i") auto
  moreover have "j < length (futures s)" if "current s' = Some j" for j
    using assms(3)[of j] assms(7) t(4)[of j] that by (cases "j = i") auto
  ultimately show ?thesis by (simp add: thread_ok_def assms(2,5))
qed

lemma add_callback_thread:
  assumes "thread_ok s" and sub: "submitting s = Some (i, True)"
  shows "thread_ok (add_callback i s)"
proof -
  note t = threadD[OF assms(1)]
  show ?thesis
  proof (rule thread_step[OF assms(1), of _ i])
    show "place_ok (add_callback i s) i" if "place_ok s i"
      using that by (cases "futures s ! i") (simp_all add: place_ok_def add_callback_def runner_cleanup_def is_over_def Let_def)
  qed (use t(2-4) sub in \<open>auto simp: add_callback_def runner_cleanup_def Let_def registering_def split: if_splits\<close>)
qed

lemma take_thread:
  assumes "thread_ok s" and cur: "current s = None" "items s = i # is"
  shows "thread_ok (take_item i s)"
proof -
  note t = threadD[OF assms(1)]
  show ?thesis
  proof (rule thread_step[OF assms(1), of _ i])
    show "place_ok (take_item i s) i" if "place_ok s i" "i < length (futures s)"
      using that t(2) cur by (cases "futures s ! i") (simp_all add: place_ok_def take_item_def registering_def Let_def)
  qed (use t(2,3) cur in \<open>auto simp: take_item_def Let_def registering_def\<close>)
qed

lemma finish_thread:
  assumes "thread_ok s" and cur: "current s = Some i" "futures s ! i = Future_running"
  shows "thread_ok (finish_item i s)"
proof -
  note t = threadD[OF assms(1)]
  show ?thesis
  proof (rule thread_step[OF assms(1), of _ i])
    show "place_ok (finish_item i s) i" if "place_ok s i" "i < length (futures s)"
      using that cur by (simp add: place_ok_def finish_item_def registering_def)
  qed (use t(2-4) cur in \<open>auto simp: finish_item_def registering_def\<close>)
qed

lemma after_thread:
  assumes "thread_ok s" and "books_ok s" and cur: "current s = Some i" "futures s ! i = Future_finished"
  shows "thread_ok (after_item i s)"
proof -
  note t = threadD[OF assms(1)]
  have h: "i \<in> hooked s \<or> i \<in> set (cleaned s) \<or> registering i s"
    using booksD(6)[OF assms(2), of i] t(4)[OF cur(1)] by (auto simp: registering_def)
  show ?thesis
  proof (rule thread_step[OF assms(1), of _ i])
    show "place_ok (after_item i s) i" if "place_ok s i" "i < length (futures s)"
      using that cur h by (auto simp: place_ok_def after_item_def call_hooked_def runner_cleanup_def registering_def)
  qed (use t(2-4) cur in \<open>auto simp: after_item_def call_hooked_def runner_cleanup_def registering_def\<close>)
qed

lemma cancel_thread:
  assumes "thread_ok s" and "books_ok s" and sub: "submitting s = None" and i: "i < length (futures s)"
  shows "thread_ok (cancel_future i s)"
proof (cases "futures s ! i = Future_pending")
  case True
  note t = threadD[OF assms(1)]
  have h: "i \<in> hooked s"
    using True booksD(6)[OF assms(2), of i] t(1)[OF i] i sub by (simp add: place_ok_def)
  show ?thesis
  proof (rule thread_step[OF assms(1), of _ i])
    show "place_ok (cancel_future i s) i" if "place_ok s i"
      using that True h i by (simp add: place_ok_def cancel_future_def call_hooked_def runner_cleanup_def)
  qed (use t(2-4) True h i in \<open>auto simp: cancel_future_def call_hooked_def runner_cleanup_def registering_def\<close>)
qed (simp add: cancel_future_def assms(1))

lemma runner_step_inv:
  assumes "runner_inv s" and "runner_step s s'"
  shows "runner_inv s'"
proof -
  have inv: "books_ok s" "thread_ok s" using assms(1) by (simp_all add: runner_inv_def)
  from assms(2) show ?thesis
  proof cases
    case put_back
    with assms(1) show ?thesis by (simp add: put_back_inv)
  next
    case (cancel i)
    have "books_ok (cancel_future i s)"
      unfolding cancel_future_def using inv(1) call_hooked_books[of "s\<lparr>futures := (futures s)[i := Future_cancelled]\<rparr>" i] by simp
    with cancel inv cancel_thread show ?thesis by (simp add: runner_inv_def)
  next
    case exit
    have "place_ok (exit_runner s) j = place_ok s j" for j
      by (rule place_cong) (simp_all add: exit_runner_def registering_def)
    with exit inv show ?thesis by (simp add: runner_inv_def thread_ok_def) (simp add: exit_runner_def)
  next
    case (after_item i)
    have "books_ok (after_item i s)" unfolding after_item_def using inv(1) call_hooked_books[of "s\<lparr>current := None\<rparr>" i] by simp
    with after_item inv after_thread show ?thesis by (simp add: runner_inv_def)
  next
    case (take_item i "is")
    have "books_ok (take_item i s)" using inv(1) by (simp add: take_item_def Let_def)
    with take_item inv take_thread show ?thesis by (simp add: runner_inv_def)
  next
    case (finish_item i)
    have "books_ok (finish_item i s)" using inv(1) by (simp add: finish_item_def)
    with finish_item inv finish_thread show ?thesis by (simp add: runner_inv_def)
  qed (use inv submit_books submit_thread add_worker_books add_worker_thread add_callback_books add_callback_thread in
       \<open>simp_all add: runner_inv_def\<close>)
qed

interpretation bg: inductive_invariant enter_runner runner_step runner_inv
  by unfold_locales (auto simp: runner_inv_init intro: runner_step_inv)


section \<open>Properties\<close>

text \<open>
  C15. A runner serves one run at a time, and \<open>WORKERS\<close> counts what is not over. In every interleaving of the
  queue's thread with the runner's, no future is cleaned up twice or before it is over; all but the last
  submitted one are cleaned up, so \<open>WORKERS\<close> has at most one future of a runner, and none from the moment
  the runner is handed back to the pool. A future that waits or runs is in \<open>WORKERS\<close>, save between the two
  lines of \<open>submit\<close> that create and add it; one that is over has left \<open>WORKERS\<close>, save while it is being
  registered or reported. So whenever the queue's thread is not inside \<open>submit\<close> and the runner's thread not
  between the end of a run and its callback, in particular while a run is executing, \<open>WORKERS\<close> has exactly
  the futures that are not over, although the executor may finish a future before \<open>submit\<close> has put it there.
\<close>

theorem runner_books_exact:
  assumes "runner_step\<^sup>*\<^sup>* enter_runner s"
  shows "distinct (cleaned s) \<and> set (cleaned s) \<subseteq> {i. i < length (futures s) \<and> is_over (futures s ! i)} \<and>
    worker_set s \<subseteq> {i. length (futures s) = Suc i} \<and> (available s \<or> returning s \<longrightarrow> worker_set s = {}) \<and>
    (\<forall>i<length (futures s). \<not> is_over (futures s ! i) \<and> submitting s \<noteq> Some (i, False) \<longrightarrow> i \<in> worker_set s) \<and>
    (\<forall>i\<in>worker_set s. is_over (futures s ! i) \<longrightarrow> submitting s = Some (i, True) \<or> current s = Some i) \<and>
    (submitting s = None \<and> (\<forall>i. current s = Some i \<longrightarrow> futures s ! i = Future_running) \<longrightarrow>
       worker_set s = {i. i < length (futures s) \<and> \<not> is_over (futures s ! i)})"
proof -
  have inv: "books_ok s" "thread_ok s" using bg.good_reachable[OF assms] by (simp_all add: runner_inv_def)
  note b = booksD[OF inv(1)] and place = threadD(1)[OF inv(2)]
  have over: "is_over (futures s ! i)" if "i \<in> set (cleaned s)" for i
    using place[OF b(2)[OF that]] that by (cases "futures s ! i") (simp_all add: place_ok_def is_over_def)
  have busy: "i \<in> worker_set s" if "i < length (futures s)" "\<not> is_over (futures s ! i)" "submitting s \<noteq> Some (i, False)" for i
    using b(5) over that by blast
  have late: "submitting s = Some (i, True) \<or> current s = Some i" if "i \<in> worker_set s" "is_over (futures s ! i)" for i
  proof -
    have i: "i < length (futures s)" "i \<notin> set (cleaned s)" "submitting s \<noteq> Some (i, False)" using that(1) b(5) by simp_all
    have "registering i s \<or> current s = Some i"
      using place[OF i(1)] that(2) i(2) by (cases "futures s ! i") (auto simp: place_ok_def is_over_def)
    then show ?thesis using i(3) by (auto simp: registering_def)
  qed
  have exact: "worker_set s = {i. i < length (futures s) \<and> \<not> is_over (futures s ! i)}"
    if rest: "submitting s = None" "\<forall>i. current s = Some i \<longrightarrow> futures s ! i = Future_running"
  proof (intro set_eqI iffI)
    fix i
    assume i: "i \<in> worker_set s"
    have "\<not> is_over (futures s ! i)"
    proof
      assume over: "is_over (futures s ! i)"
      with late[OF i] rest have "futures s ! i = Future_running" by simp
      with over show False by (simp add: is_over_def)
    qed
    then show "i \<in> {i. i < length (futures s) \<and> \<not> is_over (futures s ! i)}" using i b(5)[of i] by blast
  next
    fix i
    assume "i \<in> {i. i < length (futures s) \<and> \<not> is_over (futures s ! i)}"
    then show "i \<in> worker_set s" using busy[of i] by (simp add: rest(1))
  qed
  have "worker_set s \<subseteq> {i. length (futures s) = Suc i}" using b(5) one_left(1)[OF inv(1)] by blast
  moreover have "available s \<or> returning s \<longrightarrow> worker_set s = {}" using b(5) b(4) by blast
  ultimately show ?thesis using over busy late exact b(1,2) by blast
qed

text \<open>The runner's thread ends a run before the queue's thread has registered it.\<close>

definition demo_early_finish :: bg_runner where
  "demo_early_finish = add_callback 0 (after_item 0 (add_worker 0 (finish_item 0 (take_item 0 (snd (submit_item enter_runner))))))"

theorem runner_books_exact_witness:
  "worker_set demo_early_finish = {} \<and> cleaned demo_early_finish = [0] \<and> returning demo_early_finish"
proof -
  define s1 where "s1 = snd (submit_item enter_runner)"
  define s2 where "s2 = take_item 0 s1"
  define s3 where "s3 = finish_item 0 s2"
  define s4 where "s4 = add_worker 0 s3"
  define s5 where "s5 = after_item 0 s4"
  note unfolds = s5_def s4_def s3_def s2_def s1_def enter_runner_def submit_item_def take_item_def finish_item_def add_worker_def
    after_item_def call_hooked_def Let_def
  have "runner_step enter_runner s1" unfolding s1_def by (rule runner_step.submit) (simp_all add: enter_runner_def)
  moreover have "runner_step s1 s2" unfolding s2_def by (rule runner_step.take_item[of _ 0 "[]"]) (simp_all add: unfolds)
  moreover have "runner_step s2 s3" unfolding s3_def by (rule runner_step.finish_item) (simp_all add: unfolds)
  moreover have "runner_step s3 s4" unfolding s4_def by (rule runner_step.add_worker) (simp add: unfolds)
  moreover have "runner_step s4 s5" unfolding s5_def by (rule runner_step.after_item) (simp_all add: unfolds)
  moreover have "runner_step s5 demo_early_finish"
    unfolding demo_early_finish_def s1_def[symmetric] s2_def[symmetric] s3_def[symmetric] s4_def[symmetric] s5_def[symmetric]
    by (rule runner_step.add_callback) (simp add: unfolds)
  ultimately have "runner_step\<^sup>*\<^sup>* enter_runner demo_early_finish"
    by (meson converse_rtranclp_into_rtranclp rtranclp.rtrancl_refl)
  from runner_books_exact[OF this] show ?thesis
    by (simp add: demo_early_finish_def add_callback_def runner_cleanup_def is_over_def unfolds)
qed

section \<open>Shutdown\<close>

text \<open>
  The end of \<open>queue\<close> with isolated loops: \<open>for task in WORKERS: task.cancel()\<close>, over the futures \<open>i\<close> of the
  runners \<open>s\<close>. A set that has changed size ends its iteration with \<open>RuntimeError\<close>.
\<close>

fun cancel_workers :: "(nat \<times> bg_runner) list \<Rightarrow> unit res \<times> (nat \<times> bg_runner) list" where
  "cancel_workers [] = (Inr (), [])"
| "cancel_workers ((i, s) # rest) =
     (let s' = cancel_future i s
      in if worker_set s' \<noteq> worker_set s then (Inl (PyError ''RuntimeError''), (i, s') # rest)
         else (case cancel_workers rest of (r, rest') \<Rightarrow> (r, (i, s') # rest')))"

lemma cancel_future_effect:
  assumes "runner_inv s" and "submitting s = None" and "i \<in> worker_set s"
  shows "if futures s ! i = Future_pending then worker_set (cancel_future i s) \<noteq> worker_set s else cancel_future i s = s"
proof -
  have "i \<in> hooked s" using assms booksD(5,6)[of s i] by (simp add: runner_inv_def)
  with assms(3) show ?thesis by (auto simp: cancel_future_def call_hooked_def runner_cleanup_def)
qed

text \<open>
  With isolated loops the loop that cancels the workers has no effect on any of them, or it raises: the
  future of a running run does not react, and one that has not begun leaves \<open>WORKERS\<close> under the loop's hands.
\<close>

theorem shutdown_cancels_nothing:
  assumes "list_all (\<lambda>(i, s). runner_step\<^sup>*\<^sup>* enter_runner s \<and> submitting s = None \<and> i \<in> worker_set s) ws"
  shows "if list_ex (\<lambda>(i, s). futures s ! i = Future_pending) ws
    then fst (cancel_workers ws) = Inl (PyError ''RuntimeError'') else cancel_workers ws = (Inr (), ws)"
  using assms
proof (induction ws rule: cancel_workers.induct)
  case (2 i s rest)
  then have "runner_inv s" "submitting s = None" "i \<in> worker_set s" by (auto intro: bg.good_reachable)
  from cancel_future_effect[OF this] 2 show ?case
    by (cases "futures s ! i = Future_pending") (auto simp: Let_def case_prod_unfold)
qed simp

definition demo_busy :: bg_runner where
  "demo_busy = take_item 0 (add_callback 0 (add_worker 0 (snd (submit_item enter_runner))))"

theorem shutdown_cancels_nothing_witness:
  "cancel_workers [(0, demo_busy)] = (Inr (), [(0, demo_busy)])"
proof -
  define s1 where "s1 = snd (submit_item enter_runner)"
  define s2 where "s2 = add_worker 0 s1"
  define s3 where "s3 = add_callback 0 s2"
  note unfolds = s3_def s2_def s1_def enter_runner_def submit_item_def add_worker_def add_callback_def Let_def is_over_def
  have "runner_step enter_runner s1" unfolding s1_def by (rule runner_step.submit) (simp_all add: enter_runner_def)
  moreover have "runner_step s1 s2" unfolding s2_def by (rule runner_step.add_worker) (simp add: unfolds)
  moreover have "runner_step s2 s3" unfolding s3_def by (rule runner_step.add_callback) (simp add: unfolds)
  moreover have "runner_step s3 demo_busy"
    unfolding demo_busy_def s1_def[symmetric] s2_def[symmetric] s3_def[symmetric]
    by (rule runner_step.take_item[of _ 0 "[]"]) (simp_all add: unfolds)
  ultimately have "runner_step\<^sup>*\<^sup>* enter_runner demo_busy"
    by (meson converse_rtranclp_into_rtranclp rtranclp.rtrancl_refl)
  moreover have "submitting demo_busy = None" "0 \<in> worker_set demo_busy" "futures demo_busy ! 0 \<noteq> Future_pending"
    by (simp_all add: demo_busy_def take_item_def unfolds)
  ultimately show ?thesis using shutdown_cancels_nothing[of "[(0, demo_busy)]"] by simp
qed

end
