(* ===== verification/Blocking.thy ===== *)
theory Blocking
  imports Prelude "HOL-Library.Sublist"
begin

text \<open>
  \<open>_enable_blockbuster\<close> of \<open>queue.py\<close>: which blocking calls raise inside the event loop. The package
  \<open>blockbuster\<close> is not under \<open>src/\<close>: its dictionary of watched functions is an argument, with values of any
  type \<open>'f\<close>, and so is the method \<open>can_block_in\<close>, here the argument \<open>allow\<close>.
\<close>

section \<open>The allowances\<close>

type_synonym place = "string \<times> string"

definition own_places :: "(string \<times> place) list" where
  "own_places =
     (''os.path.abspath'', (''inspect.py'', ''getmodule'')) #
     map (\<lambda>fn. (fn, (''langgraph_api/api/profile.py'', ''_profile_with_pyspy'')))
       [''os.access'', ''os.getcwd'', ''os.unlink'', ''os.write'']"

definition file_places :: "place list" where
  "file_places =
     [(''memory/__init__.py'', ''sync''), (''memory/__init__.py'', ''load''), (''memory/__init__.py'', ''dump''),
      (''pydantic/main.py'', ''__init__'')]"

definition log_places :: "place list" where
  "log_places =
     [(''uvicorn/lifespan/on.py'', ''startup''), (''uvicorn/lifespan/on.py'', ''shutdown''),
      (''ansitowin32.py'', ''write_plain_text''), (''logging/__init__.py'', ''flush''), (''logging/__init__.py'', ''emit'')]"

definition debugger_places :: "place list" where
  "debugger_places = [(''bdb.py'', ''trace_dispatch''), (''pdb.py'', ''user_line'')]"

text \<open>All of them in the order of the calls.\<close>

definition allowances :: "(string \<times> place) list" where
  "allowances =
     own_places @
     concat (map (\<lambda>p. [(''os.remove'', p), (''os.rename'', p)]) file_places) @
     concat (map (\<lambda>p. [(''io.TextIOWrapper.write'', p), (''io.BufferedWriter.write'', p)]) log_places) @
     map (\<lambda>p. (''builtins.input'', p)) debugger_places"

text \<open>\<open>bb.functions[fn].can_block_in(module, func)\<close>: the function is changed in place.\<close>

fun allow_each ::
  "(place \<Rightarrow> 'f \<Rightarrow> 'f) \<Rightarrow> (string \<times> place) list \<Rightarrow> (string, 'f) dict \<Rightarrow> (string, 'f) dict res" where
  "allow_each allow [] d = Inr d"
| "allow_each allow ((fn, p) # ps) d =
     (case map_of d fn of
        None \<Rightarrow> Inl key_error
      | Some f \<Rightarrow> allow_each allow ps (AList.update fn (allow p f) d))"

section \<open>The functions that are no longer watched\<close>

definition always_disabled :: "string list" where
  "always_disabled =
     [''os.stat'', ''os.listdir'', ''os.remove'', ''io.BufferedReader.read'', ''io.BufferedWriter.write'',
      ''io.TextIOWrapper.read'', ''io.TextIOWrapper.write'', ''threading.Lock.acquire'']"

definition to_disable :: "(string, 'f) dict \<Rightarrow> string list" where
  "to_disable d = always_disabled @ filter (prefix ''os.path.'') (dkeys d)"

text \<open>The functions popped are deactivated, in order.\<close>

fun disable_each :: "string list \<Rightarrow> (string, 'f) dict \<Rightarrow> 'f list \<times> (string, 'f) dict" where
  "disable_each [] d = ([], d)"
| "disable_each (fn # fns) d =
     (case map_of d fn of
        None \<Rightarrow> disable_each fns d
      | Some f \<Rightarrow> (case disable_each fns (AList.delete fn d) of (off, d') \<Rightarrow> (f # off, d')))"

text \<open>The functions deactivated, and those that \<open>activate\<close> then watches.\<close>

definition enable_blockbuster ::
  "(place \<Rightarrow> 'f \<Rightarrow> 'f) \<Rightarrow> (string, 'f) dict \<Rightarrow> ('f list \<times> (string, 'f) dict) res" where
  "enable_blockbuster allow functions =
     bind_res (allow_each allow allowances functions) (\<lambda>d. Inr (disable_each (to_disable d) d))"

section \<open>What remains\<close>

definition is_disabled :: "string \<Rightarrow> bool" where
  "is_disabled fn \<longleftrightarrow> fn \<in> set always_disabled \<or> prefix ''os.path.'' fn"

definition places_of :: "string \<Rightarrow> (string \<times> place) list \<Rightarrow> place list" where
  "places_of fn ps = map snd (filter (\<lambda>x. fst x = fn) ps)"

lemma allow_each_result:
  "allow_each allow ps d = Inr d' \<Longrightarrow> map_of d' fn = map_option (fold allow (places_of fn ps)) (map_of d fn)"
proof (induction allow ps d rule: allow_each.induct)
  case (1 allow d)
  then show ?case by (cases "map_of d fn") (auto simp: places_of_def)
next
  case (2 allow g p ps d)
  then obtain f where f: "map_of d g = Some f" by (cases "map_of d g") simp_all
  with 2 have "map_of d' fn = map_option (fold allow (places_of fn ps)) (map_of (AList.update g (allow p f) d) fn)" by simp
  then show ?case using f by (auto simp: places_of_def update_conv' option.map_comp comp_def)
qed

lemma allow_each_error:
  "allow_each allow ps d = Inl e \<Longrightarrow> e = key_error \<and> (\<exists>x\<in>set ps. map_of d (fst x) = None)"
proof (induction allow ps d rule: allow_each.induct)
  case (2 allow g p ps d)
  show ?case
  proof (cases "map_of d g")
    case None
    with 2(2) show ?thesis by simp
  next
    case (Some f)
    with 2 obtain x where "e = key_error" "x \<in> set ps" "map_of (AList.update g (allow p f) d) (fst x) = None" by auto
    then show ?thesis by (auto simp: update_conv' split: if_splits)
  qed
qed simp

lemma disable_each_result: "map_of (snd (disable_each fns d)) fn = (if fn \<in> set fns then None else map_of d fn)"
proof (induction fns d rule: disable_each.induct)
  case (2 g fns d)
  then show ?case by (cases "map_of d g") (auto simp: case_prod_unfold delete_conv' split: if_splits)
qed simp

text \<open>
  What is watched in the end: if a function for which an allowance is asked is unknown, the queue fails to
  start with \<open>KeyError\<close>; otherwise every watched function has exactly the allowances asked for it, in order,
  and the disabled ones, with all of \<open>os.path\<close>, are not watched.
\<close>

theorem blocking_guard_exact:
  "case enable_blockbuster allow functions of
     Inl e \<Rightarrow> e = key_error \<and> (\<exists>fn. fn \<in> fst ` set allowances \<and> map_of functions fn = None)
   | Inr (off, watched) \<Rightarrow>
       map_of watched fn =
         (if is_disabled fn then None else map_option (fold allow (places_of fn allowances)) (map_of functions fn))"
proof (cases "allow_each allow allowances functions")
  case (Inl e)
  with allow_each_error[OF Inl] show ?thesis by (auto simp: enable_blockbuster_def)
next
  case (Inr d)
  have "fn \<in> set (to_disable d) \<longleftrightarrow> is_disabled fn" if "map_of d fn \<noteq> None"
  proof -
    have "fn \<in> set (dkeys d)" using that by (simp add: map_of_eq_None_iff)
    then show ?thesis by (simp add: to_disable_def is_disabled_def)
  qed
  moreover have "is_disabled fn" if "fn \<in> set (to_disable d)" using that by (auto simp: to_disable_def is_disabled_def)
  ultimately have "map_of (snd (disable_each (to_disable d) d)) fn = (if is_disabled fn then None else map_of d fn)"
    by (cases "map_of d fn") (auto simp: disable_each_result)
  then show ?thesis using allow_each_result[OF Inr, of fn] by (simp add: enable_blockbuster_def Inr case_prod_unfold)
qed

text \<open>
  Most of the allowances are asked for functions that are disabled right afterwards; these have an effect.
\<close>

theorem allowances_with_effect:
  "filter (\<lambda>x. \<not> is_disabled (fst x)) allowances =
     map (\<lambda>fn. (fn, (''langgraph_api/api/profile.py'', ''_profile_with_pyspy'')))
       [''os.access'', ''os.getcwd'', ''os.unlink'', ''os.write''] @
     map (Pair ''os.rename'') file_places @ map (Pair ''builtins.input'') debugger_places"
  by (simp add: allowances_def own_places_def file_places_def log_places_def debugger_places_def is_disabled_def
      always_disabled_def)

end
