(* ===== verification/Requests.thy ===== *)
theory Requests
  imports Runtime_State
begin

text \<open>
  What the operations of \<open>ops.py\<close> do first with a request: they normalise its identifiers
  (\<open>_ensure_uuid\<close>, with the constructor and the text of \<open>uuid.UUID\<close>, on ASCII texts), and they ask the
  authorization handler for filters (\<open>Authenticated\<close>). The other theories take identifiers in the text
  that results here, and the filters as the argument \<open>A\<close>, an instance of \<open>handle_event\<close>.
\<close>

section \<open>Hexadecimal numbers\<close>

definition hex_val :: "char \<Rightarrow> nat option" where
  "hex_val c =
     (let n = of_char c :: nat
      in if 48 \<le> n \<and> n \<le> 57 then Some (n - 48)
         else if 65 \<le> n \<and> n \<le> 70 then Some (n - 55)
         else if 97 \<le> n \<and> n \<le> 102 then Some (n - 87)
         else None)"

text \<open>
  \<open>int(text, 16)\<close>: surrounding white space, a sign, a prefix \<open>0x\<close> with one underscore after it, and
  single underscores between digits are accepted.
\<close>

fun scan_hex :: "nat \<Rightarrow> bool \<Rightarrow> string \<Rightarrow> nat option" where
  "scan_hex acc after_digit [] = (if after_digit then Some acc else None)"
| "scan_hex acc after_digit (c # cs) =
     (case hex_val c of
        Some v \<Rightarrow> scan_hex (acc * 16 + v) True cs
      | None \<Rightarrow> if c = CHR ''_'' \<and> after_digit then scan_hex acc False cs else None)"

definition skip_0x :: "string \<Rightarrow> string" where
  "skip_0x s =
     (case s of
        a # b # cs \<Rightarrow>
          if a = CHR ''0'' \<and> (b = CHR ''x'' \<or> b = CHR ''X'')
          then (case cs of [] \<Rightarrow> [] | d # ds \<Rightarrow> if d = CHR ''_'' then ds else cs)
          else s
      | _ \<Rightarrow> s)"

definition parse_hex :: "string \<Rightarrow> int res" where
  "parse_hex s =
     (case scan_sign (strip_ws s) of (neg, body) \<Rightarrow>
        case scan_hex 0 False (skip_0x body) of
          None \<Rightarrow> Inl value_error
        | Some n \<Rightarrow> Inr (if neg then - int n else int n))"

section \<open>Identifiers\<close>

definition strip_braces :: "string \<Rightarrow> string" where
  "strip_braces s =
     (let brace = (\<lambda>c. c = CHR ''{'' \<or> c = CHR ''}'')
      in rev (dropWhile brace (rev (dropWhile brace s))))"

definition parse_uuid :: "string \<Rightarrow> nat res" where
  "parse_uuid s =
     (let hex = filter (\<lambda>c. c \<noteq> CHR ''-'')
                  (strip_braces (replace_text ''uuid:'' [] (replace_text ''urn:'' [] s)))
      in if length hex \<noteq> 32 then Inl value_error
         else bind_res (parse_hex hex) (\<lambda>n. if 0 \<le> n \<and> n < 2 ^ 128 then Inr (nat n) else Inl value_error))"

definition hex_char :: "nat \<Rightarrow> char" where
  "hex_char v = char_of (if v < 10 then 48 + v else 87 + v)"

fun hex_digits :: "nat \<Rightarrow> nat \<Rightarrow> string" where
  "hex_digits 0 n = []"
| "hex_digits (Suc w) n = hex_digits w (n div 16) @ [hex_char (n mod 16)]"

text \<open>\<open>str(uuid)\<close>.\<close>

definition uuid_text :: "nat \<Rightarrow> uuid" where
  "uuid_text n =
     (let hex = hex_digits 32 n
      in take 8 hex @ ''-'' @ take 4 (drop 8 hex) @ ''-'' @ take 4 (drop 12 hex) @ ''-'' @
         take 4 (drop 16 hex) @ ''-'' @ drop 20 hex)"

text \<open>An identifier as a caller gives it; \<open>fresh\<close> is the value of \<open>uuid4()\<close>.\<close>

datatype id_arg = Id_text string | Id_uuid uuid | Id_none

definition ensure_uuid :: "uuid \<Rightarrow> id_arg \<Rightarrow> uuid res" where
  "ensure_uuid fresh a =
     (case a of
        Id_text s \<Rightarrow> bind_res (parse_uuid s) (\<lambda>n. Inr (uuid_text n))
      | Id_uuid u \<Rightarrow> Inr u
      | Id_none \<Rightarrow> Inr fresh)"

text \<open>The set of identifiers a search is restricted to; any that is malformed is a bad request.\<close>

definition search_ids :: "uuid \<Rightarrow> id_arg list \<Rightarrow> uuid option list" where
  "search_ids fresh ids =
     map (\<lambda>i. case ensure_uuid fresh i of Inl e \<Rightarrow> None | Inr u \<Rightarrow> Some u) ids"

section \<open>Authorization\<close>

record base_context =
  bc_user :: string
  bc_permissions :: "string list"

record auth_context = base_context +
  ac_resource :: string
  ac_action :: string

definition auth_context_of :: "string \<Rightarrow> base_context option \<Rightarrow> string \<Rightarrow> auth_context option" where
  "auth_context_of resource ctx action =
     map_option (\<lambda>c. \<lparr>bc_user = bc_user c, bc_permissions = bc_permissions c, ac_resource = resource, ac_action = action\<rparr>) ctx"

text \<open>
  \<open>ctx\<close> is the argument of the call, \<open>ambient\<close> what \<open>get_auth_ctx()\<close> returns, \<open>H\<close> the handler of the API
  server. Without any context there are no filters.
\<close>

definition handle_event ::
  "(auth_context \<Rightarrow> uuid option \<Rightarrow> pyval res) \<Rightarrow> base_context option \<Rightarrow> base_context option \<Rightarrow> auth" where
  "handle_event H ctx ambient = (\<lambda>resource action subject.
     case auth_context_of resource (case ctx of None \<Rightarrow> ambient | Some c \<Rightarrow> Some c) action of
       None \<Rightarrow> Inr PNone
     | Some c \<Rightarrow> H c subject)"

lemma handle_event_no_context: "handle_event H None None = no_auth"
  by (simp add: handle_event_def auth_context_of_def no_auth_def)

lemma handle_event_context:
  "handle_event H (Some c) ambient resource action subject =
     H \<lparr>bc_user = bc_user c, bc_permissions = bc_permissions c, ac_resource = resource, ac_action = action\<rparr> subject"
  by (simp add: handle_event_def auth_context_of_def)

section \<open>The text of an identifier\<close>

lemma hex_digits_length [simp]: "length (hex_digits w n) = w"
  by (induction w arbitrary: n) simp_all

lemma hex_char_range: "v < 16 \<Longrightarrow> (of_char (hex_char v) :: nat) = (if v < 10 then 48 + v else 87 + v)"
  by (simp add: hex_char_def)

lemma hex_val_char: "v < 16 \<Longrightarrow> hex_val (hex_char v) = Some v"
  by (auto simp: hex_val_def hex_char_range Let_def)

definition is_hex_char :: "char \<Rightarrow> bool" where
  "is_hex_char c \<longleftrightarrow> hex_val c \<noteq> None"

lemma hex_digits_chars: "c \<in> set (hex_digits w n) \<Longrightarrow> is_hex_char c"
  by (induction w arbitrary: n) (auto simp: is_hex_char_def hex_val_char)

text \<open>A hexadecimal digit is none of the characters that the constructor treats specially.\<close>

lemma not_hex: "\<not> is_hex_char c"
  if "c \<in> {CHR ''-'', CHR ''{'', CHR ''}'', CHR '':'', CHR ''_'', CHR ''+'', CHR ''x'', CHR ''X''} \<or> is_space c"
  using that by (auto simp: is_hex_char_def hex_val_def is_space_def Let_def)

lemma hex_not_special:
  "is_hex_char c \<Longrightarrow> c \<noteq> CHR ''-'' \<and> c \<noteq> CHR ''+'' \<and> c \<noteq> CHR ''x'' \<and> c \<noteq> CHR ''X''"
  using not_hex by blast

lemma scan_hex_app: "\<forall>c\<in>set s. is_hex_char c \<Longrightarrow> s \<noteq> [] \<Longrightarrow>
  scan_hex acc b (s @ t) = scan_hex (the (scan_hex acc b s)) True t"
proof (induction s arbitrary: acc b)
  case (Cons c s)
  then obtain v where v: "hex_val c = Some v" by (auto simp: is_hex_char_def)
  with Cons show ?case by (cases "s = []") simp_all
qed simp

lemma scan_hex_digits: "0 < w \<Longrightarrow> scan_hex acc b (hex_digits w n) = Some (acc * 16 ^ w + n mod 16 ^ w)"
proof (induction w arbitrary: n)
  case (Suc w)
  have v: "hex_val (hex_char (n mod 16)) = Some (n mod 16)" by (simp add: hex_val_char)
  show ?case
  proof (cases "w = 0")
    case True
    with v show ?thesis by simp
  next
    case False
    have "scan_hex acc b (hex_digits (Suc w) n) = scan_hex (acc * 16 ^ w + (n div 16) mod 16 ^ w) True [hex_char (n mod 16)]"
      using Suc.IH[of "n div 16"] False scan_hex_app[of "hex_digits w (n div 16)"] hex_digits_chars
      by (simp add: length_0_conv[symmetric] del: length_0_conv)
    also have "\<dots> = Some (acc * 16 ^ Suc w + ((n div 16) mod 16 ^ w * 16 + n mod 16))"
      using v by (simp add: algebra_simps)
    also have "(n div 16) mod 16 ^ w * 16 + n mod 16 = n mod 16 ^ Suc w"
      by (simp add: mod_mult2_eq)
    finally show ?thesis .
  qed
qed simp

lemma filter_hex [simp]: "filter (\<lambda>c. c \<noteq> CHR ''-'') (hex_digits w n) = hex_digits w n"
  using not_hex[of "CHR ''-''"] hex_digits_chars by (fastforce intro: filter_True)

lemma filter_uuid_text: "filter (\<lambda>c. c \<noteq> CHR ''-'') (uuid_text n) = hex_digits 32 n"
proof -
  have sub: "filter (\<lambda>c. c \<noteq> CHR ''-'') xs = xs" if "set xs \<subseteq> set (hex_digits 32 n)" for xs
    using that not_hex[of "CHR ''-''"] hex_digits_chars[of _ 32 n] by (intro filter_True) auto
  have "filter (\<lambda>c. c \<noteq> CHR ''-'') (uuid_text n) = take 8 (hex_digits 32 n) @ take 4 (drop 8 (hex_digits 32 n)) @
      take 4 (drop 12 (hex_digits 32 n)) @ take 4 (drop 16 (hex_digits 32 n)) @ drop 20 (hex_digits 32 n)"
    unfolding uuid_text_def Let_def
    by (simp add: sub order_trans[OF set_take_subset set_drop_subset] set_take_subset set_drop_subset)
  also have "\<dots> = hex_digits 32 n"
    using append_take_drop_id[of 8 "hex_digits 32 n"] append_take_drop_id[of 4 "drop 8 (hex_digits 32 n)"]
      append_take_drop_id[of 4 "drop 12 (hex_digits 32 n)"] append_take_drop_id[of 4 "drop 16 (hex_digits 32 n)"]
    by simp
  finally show ?thesis .
qed

lemma uuid_text_length [simp]: "length (uuid_text n) = 36"
  by (simp add: uuid_text_def Let_def)

lemma uuid_text_chars: "c \<in> set (uuid_text n) \<Longrightarrow> is_hex_char c \<or> c = CHR ''-''"
  unfolding uuid_text_def Let_def using hex_digits_chars[of c 32 n]
  by (auto dest: in_set_takeD in_set_dropD)

lemma replace_absent: "x \<in> set old \<Longrightarrow> x \<notin> set s \<Longrightarrow> replace_text old new s = s"
proof (induction old new s rule: replace_text.induct)
  case (2 old new c cs)
  have "\<not> prefix old (c # cs)" using 2(3,4) set_mono_prefix by blast
  with 2 show ?case by simp
qed simp

lemma dropWhile_none: "\<forall>c\<in>set s. \<not> P c \<Longrightarrow> dropWhile P s = s"
  by (cases s) simp_all

lemma parse_hex_digits:
  assumes "1 < w"
  shows "parse_hex (hex_digits w n) = Inr (int (n mod 16 ^ w))"
proof -
  have chars: "is_hex_char c" if "c \<in> set (hex_digits w n)" for c using that by (rule hex_digits_chars)
  have ws: "strip_ws (hex_digits w n) = hex_digits w n"
    unfolding strip_ws_def using chars not_hex by (subst (1 2) dropWhile_none) auto
  obtain a b cs where abc: "hex_digits w n = a # b # cs"
    using assms hex_digits_length[of w n] by (cases "hex_digits w n"; cases "tl (hex_digits w n)") auto
  have a: "is_hex_char a" "is_hex_char b" using chars by (simp_all add: abc)
  then have sign: "scan_sign (hex_digits w n) = (False, hex_digits w n)" "skip_0x (hex_digits w n) = hex_digits w n"
    using hex_not_special[OF a(1)] hex_not_special[OF a(2)] by (simp_all add: abc scan_sign_def skip_0x_def)
  show ?thesis
    using assms by (simp add: parse_hex_def ws sign scan_hex_digits)
qed

lemma parse_uuid_text: "parse_uuid (uuid_text n) = Inr (n mod 2 ^ 128)"
proof -
  have colon: "CHR '':'' \<notin> set (uuid_text n)" using uuid_text_chars not_hex by blast
  have brace: "\<forall>c\<in>set (uuid_text n). \<not> (c = CHR ''{'' \<or> c = CHR ''}'')" using uuid_text_chars not_hex by blast
  have "replace_text ''urn:'' [] (uuid_text n) = uuid_text n" "replace_text ''uuid:'' [] (uuid_text n) = uuid_text n"
    using colon by (simp_all add: replace_absent[of "CHR '':''"])
  moreover have "strip_braces (uuid_text n) = uuid_text n"
    unfolding strip_braces_def Let_def using brace by (subst (1 2) dropWhile_none) auto
  moreover have "(16::nat) ^ 32 = 2 ^ 128" by (simp add: power_mult[symmetric, of 2 4, simplified])
  ultimately show ?thesis
    by (simp add: parse_uuid_def filter_uuid_text parse_hex_digits)
qed

lemma parse_uuid_bound: "parse_uuid s = Inr n \<Longrightarrow> n < 2 ^ 128"
  by (auto simp: parse_uuid_def Let_def bind_res_def split: if_splits sum.splits)

section \<open>Properties\<close>

text \<open>
  C26. An identifier has one text. Whatever spelling \<open>_ensure_uuid\<close> accepts (upper case, braces, a URN,
  without dashes), the result is the 36-character text of a 128-bit number, which it maps to itself; and
  another spelling gives the same identifier exactly if it denotes the same number. A spelling that it does
  not accept raises \<open>ValueError\<close>.
\<close>

theorem identifiers_canonical:
  "case ensure_uuid fresh (Id_text s) of
     Inl e \<Rightarrow> e = value_error
   | Inr u \<Rightarrow> length u = 36 \<and> ensure_uuid fresh' (Id_text u) = Inr u \<and> ensure_uuid fresh' (Id_uuid u) = Inr u \<and>
       (\<exists>n < 2 ^ 128. parse_uuid s = Inr n \<and> u = uuid_text n) \<and>
       (\<forall>s'. ensure_uuid fresh' (Id_text s') = Inr u \<longleftrightarrow> parse_uuid s' = parse_uuid s)"
proof (cases "parse_uuid s")
  case (Inl e)
  then have "e = value_error"
    by (auto simp: parse_uuid_def Let_def bind_res_def parse_hex_def split: if_splits sum.splits option.splits prod.splits)
  with Inl show ?thesis by (simp add: ensure_uuid_def)
next
  case (Inr n)
  have n: "n < 2 ^ 128" by (rule parse_uuid_bound[OF Inr])
  have inj: "uuid_text m = uuid_text n \<longleftrightarrow> m = n" if "m < 2 ^ 128" for m
    using parse_uuid_text that n by (metis Inr_inject mod_less)
  have "ensure_uuid fresh' (Id_text s') = Inr (uuid_text n) \<longleftrightarrow> parse_uuid s' = Inr n" for s'
    using inj[OF parse_uuid_bound] by (cases "parse_uuid s'") (auto simp: ensure_uuid_def)
  moreover have "ensure_uuid fresh' (Id_text (uuid_text n)) = Inr (uuid_text n)"
    using n by (simp add: ensure_uuid_def parse_uuid_text)
  ultimately show ?thesis using n by (auto simp: ensure_uuid_def Inr)
qed

text \<open>An upper-case identifier in braces.\<close>

theorem identifiers_canonical_witness:
  "parse_uuid ''{0A0B0C0D-0000111122223333444455FF}'' = Inr 13349639642174478934717824824322053631 \<and>
   ensure_uuid [] (Id_text (uuid_text 13349639642174478934717824824322053631)) =
     Inr (uuid_text 13349639642174478934717824824322053631)"
proof -
  let ?s = "''{0A0B0C0D-0000111122223333444455FF}''"
  have "replace_text ''urn:'' [] ?s = ?s" "replace_text ''uuid:'' [] ?s = ?s"
    by (rule replace_absent[of "CHR '':''"]; simp)+
  moreover have "strip_braces ?s = ''0A0B0C0D-0000111122223333444455FF''" by (simp add: strip_braces_def)
  moreover have "parse_hex ''0A0B0C0D0000111122223333444455FF'' = Inr 13349639642174478934717824824322053631"
    by (simp add: parse_hex_def strip_ws_def is_space_def scan_sign_def skip_0x_def hex_val_def)
  ultimately have p: "parse_uuid ?s = Inr 13349639642174478934717824824322053631" by (simp add: parse_uuid_def)
  then have "ensure_uuid [] (Id_text ?s) = Inr (uuid_text 13349639642174478934717824824322053631)"
    by (simp add: ensure_uuid_def)
  with identifiers_canonical[of "[]" ?s "[]"] p show ?thesis by simp
qed

section \<open>Searches by identifier\<close>

text \<open>A malformed identifier in the restriction of a search is one that \<open>Threads.search\<close> answers with 400.\<close>

lemma search_of_malformed_id:
  assumes "Id_text s \<in> set ids" and "parse_uuid s = Inl e"
  shows "None \<in> set (search_ids fresh ids)"
  using assms by (force simp: search_ids_def ensure_uuid_def)

end
