(* ===== verification/Adapters.thy ===== *)
theory Adapters
  imports Requests State
begin

text \<open>
  Conversions at the edges of the runtime: interrupts of langgraph as the API shows them
  (\<open>_patch_interrupt\<close> of \<open>ops.py\<close>), the configuration of a checkpoint read (\<open>get_tuple\<close> of \<open>checkpoint.py\<close>), and the
  table of routes (\<open>get_internal_routes\<close> of \<open>routes.py\<close>).
\<close>

section \<open>Interrupts\<close>

text \<open>
  An interrupt comes as a dictionary or as an object of langgraph, of any type \<open>'i\<close>. Its constructor \<open>mk\<close> and its
  attributes \<open>att\<close> (which may raise) are arguments. \<open>hasattr\<close> is false for an \<open>AttributeError\<close> only.
\<close>

datatype 'i interrupt_arg = As_dict pdict | As_object 'i

definition interrupt_object :: "(pdict \<Rightarrow> 'i res) \<Rightarrow> 'i interrupt_arg \<Rightarrow> 'i res" where
  "interrupt_object mk x = (case x of As_dict d \<Rightarrow> mk d | As_object i \<Rightarrow> Inr i)"

definition old_interrupt_dict :: "pdict \<Rightarrow> pdict" where
  "old_interrupt_dict d = AList.delete ''id'' (AList.delete ''interrupt_id'' d)"

definition old_interrupt_id :: "('i \<Rightarrow> string \<Rightarrow> pyval res) \<Rightarrow> 'i \<Rightarrow> pyval res" where
  "old_interrupt_id att i =
     (case att i ''interrupt_id'' of
        Inr v \<Rightarrow> Inr v
      | Inl e \<Rightarrow> if e = attribute_error then Inr PNone else Inl e)"

definition patch_interrupt ::
  "bool \<Rightarrow> (pdict \<Rightarrow> 'i res) \<Rightarrow> ('i \<Rightarrow> string \<Rightarrow> pyval res) \<Rightarrow> 'i interrupt_arg \<Rightarrow> pdict res" where
  "patch_interrupt new_style mk att x =
     (if new_style
      then bind_res (interrupt_object mk x) (\<lambda>i.
           bind_res (att i ''id'') (\<lambda>a.
           bind_res (att i ''value'') (\<lambda>b. Inr [(''id'', a), (''value'', b)])))
      else bind_res (interrupt_object mk (case x of As_dict d \<Rightarrow> As_dict (old_interrupt_dict d) | As_object i \<Rightarrow> x)) (\<lambda>i.
           bind_res (old_interrupt_id att i) (\<lambda>a.
           bind_res (att i ''value'') (\<lambda>b.
           bind_res (att i ''resumable'') (\<lambda>c.
           bind_res (att i ''ns'') (\<lambda>d.
           bind_res (att i ''when'') (\<lambda>e.
             Inr [(''id'', a), (''value'', b), (''resumable'', c), (''ns'', d), (''when'', e)])))))))"

text \<open>The caller's dictionary afterwards: the old style pops the two identifiers from it.\<close>

definition interrupt_dict_after :: "bool \<Rightarrow> pdict \<Rightarrow> pdict" where
  "interrupt_dict_after new_style d = (if new_style then d else old_interrupt_dict d)"

text \<open>
  Converting what was converted is the identity in the new style, for a constructor that stores its
  arguments; in the old style the constructor never sees an identifier.
\<close>

lemma patch_interrupt_again:
  assumes "\<And>a b. \<exists>i. mk [(''id'', a), (''value'', b)] = Inr i \<and> att i ''id'' = Inr a \<and> att i ''value'' = Inr b"
    and "patch_interrupt True mk att x = Inr d"
  shows "patch_interrupt True mk att (As_dict d) = Inr d"
proof -
  obtain a b where d: "d = [(''id'', a), (''value'', b)]"
    using assms(2) by (auto simp: patch_interrupt_def res_simps)
  with assms(1)[of a b] show ?thesis by (auto simp: patch_interrupt_def interrupt_object_def)
qed

lemma old_style_hides_id:
  "patch_interrupt False mk att (As_dict (AList.update ''id'' v d)) = patch_interrupt False mk att (As_dict d)"
proof -
  have "AList.delete ''id'' (AList.update ''id'' v d) = AList.delete ''id'' d" by (induction d) auto
  then have "old_interrupt_dict (AList.update ''id'' v d) = old_interrupt_dict d"
    unfolding old_interrupt_dict_def AList.delete_twist[of "''id''" "''interrupt_id''"] by simp
  then show ?thesis by (simp add: patch_interrupt_def)
qed

section \<open>The configuration of a read\<close>

text \<open>\<open>checkpoint_id\<close> may be a \<open>UUID\<close>; \<open>get_tuple\<close> passes its text on, in copies of the dictionaries.\<close>

datatype config_value = Cfg_uuid uuid | Cfg_value pyval

definition tuple_config :: "(string, config_value) dict \<Rightarrow> (string, config_value) dict" where
  "tuple_config configurable =
     (case map_of configurable ''checkpoint_id'' of
        Some (Cfg_uuid u) \<Rightarrow> AList.update ''checkpoint_id'' (Cfg_value (PStr u)) configurable
      | _ \<Rightarrow> configurable)"

lemma tuple_config_exact:
  "map_of (tuple_config c) k =
     (if k = ''checkpoint_id''
      then map_option (\<lambda>v. case v of Cfg_uuid u \<Rightarrow> Cfg_value (PStr u) | Cfg_value x \<Rightarrow> Cfg_value x) (map_of c k)
      else map_of c k)"
  by (auto simp: tuple_config_def update_conv' split: option.split config_value.split)

section \<open>Routes\<close>

datatype handler = Stream_deploy_logs | Start_deploy | Get_deploy | Debug_get_raw_thread | Truncate

text \<open>The routes exist in testing mode only.\<close>

definition internal_routes :: "bool \<Rightarrow> (string \<times> handler \<times> string) list" where
  "internal_routes testing =
     (if \<not> testing then []
      else [(''/deploy/{operation_id}/stream'', Stream_deploy_logs, ''GET''),
            (''/deploy'', Start_deploy, ''POST''),
            (''/deploy'', Get_deploy, ''GET''),
            (''/internal/debug/thread/{thread_id}'', Debug_get_raw_thread, ''GET''),
            (''/internal/truncate'', Truncate, ''POST'')])"

definition testing_mode :: "string \<Rightarrow> bool" where
  "testing_mode migrations_path \<longleftrightarrow> sublist ''__inmem'' migrations_path"

lemma route_unique:
  "distinct (map (\<lambda>(path, h, m). (path, m)) (internal_routes t))"
  by (simp add: internal_routes_def)

end
