(* ===== verification/Spec2Isabelle.thy ===== *)
theory Spec2Isabelle
  imports Scheduler_Props Stream_Sessions Store_Props Deploy_Props Sweep_Loop Persistence Lifecycle Access Queue_Spec Typing
    Checkpoint_Reads Defects Projection Busy_Threads Queue_Drain Runners Blocking Adapters Cancelling
begin

text \<open>
  A model of \<open>langgraph_runtime_inmem\<close>, the in-memory runtime of the LangGraph API server, and the
  theorems that make it correct. File names below are those of \<open>src/src/langgraph_runtime_inmem/\<close>.

  \<^bold>\<open>The program.\<close> The API server keeps assistants, threads, runs and crons in five tables of one process
  (\<open>database.py\<close>). The operations on them are the classes of \<open>ops.py\<close>; each first asks an authorization
  handler for filters. The queue (\<open>queue.py\<close>) takes pending runs with \<open>Runs.next\<close> and starts a worker for
  each; a worker executes a graph, whose checkpoints go to a saver that counts bytes per thread
  (\<open>checkpoint.py\<close>, \<open>size_tracking.py\<close>), and publishes events through the stream manager
  (\<open>inmem_stream.py\<close>), which clients join. Background tasks sweep expired threads (\<open>thread_ttl.py\<close>) and
  expired items of the key-value store (\<open>store.py\<close>). Dictionaries are written to files by a flush thread
  (\<open>_persistence.py\<close>). \<open>lifespan.py\<close> starts and stops all of this, and \<open>routes.py\<close> adds the endpoints that run a
  deploy subprocess.

  \<^bold>\<open>The model.\<close> An operation takes the state (a record) and returns its result with the new state; an
  exception is the left summand of the result, and what was changed before it was raised stays changed.
  The code is cooperative: between two suspension points nothing else runs, so an operation without
  one is one step. Where the code suspends in the middle (streams, queue, deploy, flush thread, sweeps of
  the store) the model has single steps and the theorems speak of every sequence of them. Python's
  dictionaries are association lists in insertion order, its integers are \<open>int\<close>, times are integers
  (microseconds; milliseconds in the streams), UUIDs are their texts, floats are rationals with the
  infinities and not-a-number. The code has no integers of fixed width.

  \<^bold>\<open>Theories.\<close>

  \<^item> \<open>Prelude\<close>: exceptions, dictionaries, list idioms, slices and sorting, bounded times. \<open>Values\<close>: JSON-like
  values, Python's \<open>==\<close> and truth, \<open>is_jsonb_contained\<close>.

  \<^item> \<open>Filters\<close>: \<open>_validate_filter_structure\<close> and \<open>_check_filter_match\<close> with their reading as a formula.
  \<open>Access\<close>: what the operations of \<open>ops.py\<close> do for a caller whose filters hide a thread. \<open>Requests\<close>:
  identifiers (\<open>_ensure_uuid\<close>) and the authorization context (\<open>Authenticated\<close>). \<open>Adapters\<close>: interrupts
  (\<open>_patch_interrupt\<close>), the configuration of a read (\<open>get_tuple\<close>), the routes.

  \<^item> \<open>Size_Tracking\<close>, \<open>Checkpoint_Size\<close>: the ledgers of \<open>size_tracking.py\<close> and \<open>_CheckpointSizeState\<close>.
  \<open>Checkpoint_Saver\<close>: \<open>put\<close>, \<open>put_writes\<close>, \<open>delete_thread\<close>, loading and metadata of the saver.
  \<open>Checkpoint_Prune\<close>: \<open>prune\<close> with its walk to the parents of a checkpoint. \<open>Checkpoint_Ledger\<close>: copying the
  checkpoints of a thread, deleting those of a run, and the exactness of the ledger. \<open>Checkpoint_Reads\<close>: the
  asynchronous reads with decryption.

  \<^item> \<open>Streams\<close>: \<open>StreamManager\<close> and the joins of run and thread streams. \<open>Stream_Sessions\<close>: \<open>Runs.enter\<close>, the
  cancellation of one run, the live loop of a thread stream.

  \<^item> \<open>Thread_TTL\<close>: TTL policies of threads. \<open>Runtime_State\<close>: the rows, \<open>GlobalStore\<close>, the pool's start and
  clearing, lookups. \<open>Runs\<close>, \<open>Threads\<close>, \<open>Assistants\<close>, \<open>Crons\<close>, \<open>State\<close>: the classes of \<open>ops.py\<close>,
  one definition for each operation. \<open>Projection\<close>: the columns that searches yield.

  \<^item> \<open>Invariant\<close>, \<open>Runs_Props\<close>, \<open>Cancelling\<close>, \<open>Threads_Props\<close>, \<open>Thread_Sweep\<close>, \<open>Thread_Results\<close>, \<open>Assistants_Props\<close>, \<open>Crons_Props\<close>:
  the invariant of the tables, its preservation by every operation, and what each operation does.
  \<open>System\<close>: all of them as one transition system. \<open>Typing\<close>: the types of the rows in its reachable states. \<open>Busy_Threads\<close>:
  threads are busy while runs on them are active. \<open>Defects\<close>: operations that do what they hardly should.
  \<open>Queue_Spec\<close>: the specification that \<open>Runs.next\<close> implements. \<open>Run_Life\<close>, \<open>Queue_Drain\<close>: creation, queue and
  the end of runs together, for one run and over many rounds. The worker itself (\<open>langgraph_api.worker\<close>) is
  not in the repository: in these two theories it is assumed to end a run through
  \<open>Threads.set_joint_status\<close>, and what the relations \<open>reports\<close>, \<open>settles\<close> and \<open>work_round\<close> say of it is that
  assumption and not a model of code. \<open>Cancelling\<close>: \<open>Runs.cancel\<close> for a caller with filters.

  \<^item> \<open>Sweep_Loop\<close>: the background sweep of threads. \<open>Store\<close>, \<open>Store_Props\<close>: the key-value store. \<open>Scheduler\<close>,
  \<open>Scheduler_Props\<close>: the queue with its runners. \<open>Runners\<close>: the threads of \<open>BgLoopRunner\<close>. \<open>Blocking\<close>: the
  set-up of \<open>blockbuster\<close>. \<open>Deploy\<close>, \<open>Deploy_Props\<close>: the endpoints of \<open>routes.py\<close>.
  \<open>Persistence\<close>: the flush thread and \<open>Checkpointer\<close>. \<open>Lifecycle\<close>: start-up and shutdown.

  \<^bold>\<open>What the theorems show.\<close>

  \<^item> The whole runtime: every state that operations can reach is consistent and well-typed (\<open>System\<close>,
  \<open>Typing\<close>), a thread with active runs is busy unless runs are cancelled; a hidden thread is neither shown nor changed by
  the operations that take a caller (\<open>Access\<close>; subscribing to streams and publishing take none).

  \<^item> The queue: \<open>Runs.next\<close> meets its specification, leaves no free thread waiting when its limit is large
  enough, starts one worker for every run taken, and no runner is lost or shared: each is free, busy,
  expired, leaving \<open>WORKERS\<close>, or on its way back through the queue's loop. A run that is created is handed out
  when the limit leaves room for it, and ended; rounds of polls and ending workers drain the queue, if
  nothing else happens. With isolated loops the set of workers is exact in every interleaving of the
  queue's thread with those of the runners, also while a run executes.

  \<^item> Checkpoints: the ledger is exact after every sequence of operations, pruning keeps exactly what the newest
  checkpoints need and ends when parents are older than their children, a copy is the renamed original.

  \<^item> Deletion and sweeps: a deletion leaves nothing of the thread or assistant and everything else; a
  sweep spares active and fresh threads, stays within its limit, ends, and a backlog is worked off.

  \<^item> Streams: what a queue received is what was addressed to it, in order; a worker that leaves ends every
  join; a cancellation reaches the listeners of its run, running and late; a resumed stream replays exactly the later messages; the deploy stream loses nothing a client
  that keeps up could see.

  \<^item> Store: the books are consistent after every sequence of operations and a sweep is exact.

  \<^item> Errors: what stays behind when a call is refused or fails, among it several behaviours that the code
  hardly intends: a batch update of a state ignores runs in flight, one TTL that is infinite stops every
  sweep, an error of the scheduler ends it, reading a state ends the writing of checkpoints, a failing
  tear-down step skips the stop of the pool, a cancellation by status is heard by nobody, and none by a
  worker that has waited four minutes for one. Smaller ones of
  this kind are in \<open>Defects\<close>.

  \<^bold>\<open>Interfaces.\<close> Locales state what components share: a byte ledger with its total (\<open>size_ledger\<close>, for the
  store's items and the saver's threads), a queue (\<open>fifo\<close>, for the queues of the stream manager), the rows of
  a table with lookup and update (\<open>row_table\<close>, for threads, assistants and crons), and an invariant of a
  transition system (\<open>inductive_invariant\<close>, for the runtime, its types, the saver, the stream manager, the
  queue with its runners and the threads of a runner). Each is
  interpreted on the definitions of the model.

  \<^bold>\<open>Code outside the repository\<close> is an argument of the definitions: the authorization handler (\<open>A\<close>), the
  base class of the saver (\<open>E\<close> of type \<open>saver_env\<close>) and of the store (\<open>store_env\<close>), the graph (\<open>graph_env\<close>), the
  cron library (\<open>cron_env\<close>), the codecs and \<open>json.loads\<close>. What a theorem needs of them is a named hypothesis
  (\<open>base_saver_ok\<close>, \<open>base_delete_ok\<close>, \<open>base_store_ok\<close>, \<open>graph_ok\<close>): the documented effect of the base class on its
  tables, and that a graph changes checkpoints through the saver only. Each has a concrete instance.

  \<^bold>\<open>Recursion.\<close> Loops of the code are structural recursions or have a measure, without fuel. The one loop
  that may run forever, the walk to the parents in \<open>prune\<close>, is a \<open>partial_function\<close> into options; \<open>None\<close> is
  a call that does not return, and everything above it (pruning, sweeping) has the type of an option. That
  these calls return is proved, for saver states in which a parent has a smaller identifier
  than its child (identifiers grow with time). Loops that run until the process ends (the queue, the
  sweepers, the flush thread) are step functions folded over a list of ticks or events.

  \<^bold>\<open>Idealised.\<close> The authorization handler is a function of its question: it does not change the store, and
  an operation is not interrupted while the handler is awaited, although the source re-fetches some rows
  because a handler may call back. The three registrations of \<open>Checkpointer\<close> are one step, and so are the
  dereferencing and the writing of a dictionary by the flush thread. The base class of the store applies a
  batch as a whole, with the vectors it inserts before \<open>_apply_put_ops\<close>. Copied checkpoints go through
  JSON, which makes plain dictionaries of \<open>defaultdict\<close>s; both are the same association lists here.

  \<^bold>\<open>Not modelled.\<close> A custom checkpointer (\<open>USE_CUSTOM_CHECKPOINTER\<close>: the branches of \<open>Threads.copy\<close>,
  \<open>_get_checkpointer\<close> and \<open>_delete_checkpoints_for_thread\<close> that call it), and with it the case that sizes are
  not tracked; \<open>Threads.sweep_ttl\<close> without a dictionary for statistics, which only reports less. Bytes, pickle and JSON codecs, and the hook that unpacks them in \<open>Checkpointer\<close>; reading
  and writing of files, which are input and output; \<open>healthcheck\<close> and \<open>pool_stats\<close>, which do nothing; the HTTP
  layer and the spawning of the deploy process; the text that \<open>_patch_blocking_error\<close> adds to an exception;
  logging; the execution of a graph, which belongs to langgraph; \<open>__init__.py\<close>, the example and the tests.
\<close>

end
